(* ===== verification/Prelude.thy ===== *)
theory Prelude
  imports Main "HOL-Library.Word"
begin

text \<open>
  Shared vocabulary of the development: the fixed-width integer types of the
  kernel's C code, the collections of rewrite rules the component theories fill,
  and the generic facts on words and lists that more than one component uses.
\<close>

unbundle bit_operations_syntax

section \<open>Integer types\<close>

text \<open>\<^verbatim>\<open>uint8_t\<close> to \<^verbatim>\<open>uint64_t\<close>; arithmetic on them wraps.\<close>

type_synonym u8 = "8 word"
type_synonym u16 = "16 word"
type_synonym u32 = "32 word"
type_synonym u64 = "64 word"

text \<open>\<^verbatim>\<open>virt_addr_t\<close> and \<^verbatim>\<open>phys_addr_t\<close> of the x86-64 build
  (\<^verbatim>\<open>include/kernel/types.h\<close>) and of the i386 build.\<close>

type_synonym virt_addr = u64
type_synonym phys_addr = u64
type_synonym addr32 = u32

section \<open>Collections\<close>

named_theorems list_rules \<open>effect of the list primitives on well-formed lists\<close>
named_theorems frame_rules \<open>what an operation leaves unchanged\<close>

section \<open>Lists\<close>

lemma distinct_split_last:
  "distinct (a # xs @ [b]) \<longleftrightarrow> a \<noteq> b \<and> a \<notin> set xs \<and> b \<notin> set xs \<and> distinct xs"
  by auto

lemma list_snoc_cases:
  obtains (Nil) "xs = []" | (snoc) ys y where "xs = ys @ [y]"
  by (cases xs rule: rev_cases) auto

section \<open>Words\<close>

text \<open>Page masks.  Aligning down is subtraction of the remainder.\<close>

lemma mask12: "(0xFFF :: 'a::len word) = mask 12"
  by (simp add: mask_eq_exp_minus_1)

lemma unat_and_mask: "unat (x AND mask n :: 'a::len word) = unat x mod 2 ^ n"
  by (simp only: take_bit_eq_mask [symmetric] unsigned_take_bit_eq take_bit_nat_def)

lemma and_not_mask_add: "(x AND NOT (mask n)) + (x AND mask n) = (x :: 'a::len word)"
proof -
  have "(x AND NOT (mask n)) + (x AND mask n) = (x AND NOT (mask n)) OR (x AND mask n)"
    by (rule disjunctive_add) (auto simp: bit_simps)
  also have "\<dots> = x"
    by (rule bit_word_eqI) (auto simp: bit_simps)
  finally show ?thesis .
qed

lemma and_not_mask_eq: "x AND NOT (mask n) = x - (x AND mask n :: 'a::len word)"
  using and_not_mask_add [of x n] by (simp add: eq_diff_eq)

lemma unat_and_not_mask: "unat (x AND NOT (mask n) :: 'a::len word) = unat x - unat x mod 2 ^ n"
proof -
  have "x AND mask n \<le> x"
    by (simp add: word_le_nat_alt unat_and_mask)
  then show ?thesis
    by (simp add: and_not_mask_eq unat_sub unat_and_mask)
qed

lemma unat_plus_simple: "unat x + unat y < 2 ^ LENGTH('a) \<Longrightarrow> unat (x + y :: 'a::len word) = unat x + unat y"
  by (simp add: unat_word_ariths)

lemma unat_minus_simple: "unat y \<le> unat x \<Longrightarrow> unat (x - y :: 'a::len word) = unat x - unat y"
  by (simp add: unat_sub word_le_nat_alt)

lemma unat_ucast_up:
  "LENGTH('a) \<le> LENGTH('b) \<Longrightarrow> unat (ucast (x :: 'a::len word) :: 'b::len word) = unat x"
  by (simp add: unsigned_ucast_eq take_bit_nat_eq_self
      order_less_le_trans [OF unsigned_less [of x] power_increasing])

lemma unat_lt: "unat (x :: 'a::len word) < 2 ^ LENGTH('a)"
  by (rule unsigned_less)

lemma unat_of_nat_mod: "unat (of_nat n :: 'a::len word) = n mod 2 ^ LENGTH('a)"
  by (simp add: unat_of_nat take_bit_nat_def)

lemma unat_of_nat_small: "n < 2 ^ LENGTH('a) \<Longrightarrow> unat (of_nat n :: 'a::len word) = n"
  by (simp add: unat_of_nat_mod)

lemma unat_drop_bit: "unat (drop_bit n w :: 'a::len word) = unat w div 2 ^ n"
  by (simp only: drop_bit_eq_div [symmetric]) (simp add: unsigned_drop_bit_eq take_bit_nat_eq_self unat_lt)

end
