(* ===== verification/Klist.thy ===== *)
theory Klist
  imports Prelude
begin

text \<open>
  The circular doubly linked list of \<^verbatim>\<open>libc/include/dsa/list.h\<close>, as the kernel
  uses it for the scheduler's queues and for a process's memory regions.

  A \<^verbatim>\<open>struct list_head\<close> is identified by a pointer; the store maps every pointer
  to its \<^verbatim>\<open>next\<close> and \<^verbatim>\<open>prev\<close> fields.  Each operation is the sequence of
  assignments of the C function, on that store.  The predicate \<open>dll\<close> says that
  a head and its entries form a well-formed ring, and the lemmas show what each operation
  does to the sequence of entries, and that it leaves unrelated lists alone.
\<close>

section \<open>Pointers and the store\<close>

text \<open>Pointers: \<^verbatim>\<open>NULL\<close>, the two poison values of \<^verbatim>\<open>linux/poison.h\<close>, and
  pointers to \<^verbatim>\<open>list_head\<close> objects, named by a type of the client's choice.\<close>

datatype 'n lptr = NULL | LIST_POISON1 | LIST_POISON2 | Ptr 'n

record 'n list_head =
  lnext :: "'n lptr \<Rightarrow> 'n lptr"
  lprev :: "'n lptr \<Rightarrow> 'n lptr"

text \<open>The C assignments \<^verbatim>\<open>a->next = b\<close> and \<^verbatim>\<open>a->prev = b\<close>.\<close>

definition set_next :: "'n lptr \<Rightarrow> 'n lptr \<Rightarrow> 'n list_head \<Rightarrow> 'n list_head" where
  "set_next a b h = h\<lparr>lnext := (lnext h)(a := b)\<rparr>"

definition set_prev :: "'n lptr \<Rightarrow> 'n lptr \<Rightarrow> 'n list_head \<Rightarrow> 'n list_head" where
  "set_prev a b h = h\<lparr>lprev := (lprev h)(a := b)\<rparr>"

section \<open>Operations\<close>

definition INIT_LIST_HEAD :: "'n lptr \<Rightarrow> 'n list_head \<Rightarrow> 'n list_head" where
  "INIT_LIST_HEAD l h = set_prev l l (set_next l l h)"

text \<open>With \<^verbatim>\<open>CONFIG_LIST_HARDENED\<close> off the validators are the constant true.\<close>

definition list_add_valid :: "'n lptr \<Rightarrow> 'n lptr \<Rightarrow> 'n lptr \<Rightarrow> bool" where
  "list_add_valid new prev next = True"

definition list_del_entry_valid :: "'n lptr \<Rightarrow> bool" where
  "list_del_entry_valid entry = True"

text \<open>\<^verbatim>\<open>__list_add\<close>\<close>

definition raw_list_add :: "'n lptr \<Rightarrow> 'n lptr \<Rightarrow> 'n lptr \<Rightarrow> 'n list_head \<Rightarrow> 'n list_head" where
  "raw_list_add new prev next h =
     (if \<not> list_add_valid new prev next then h
      else set_next prev new (set_prev new prev (set_next new next (set_prev next new h))))"

definition list_add :: "'n lptr \<Rightarrow> 'n lptr \<Rightarrow> 'n list_head \<Rightarrow> 'n list_head" where
  "list_add new head h = raw_list_add new head (lnext h head) h"

definition list_add_tail :: "'n lptr \<Rightarrow> 'n lptr \<Rightarrow> 'n list_head \<Rightarrow> 'n list_head" where
  "list_add_tail new head h = raw_list_add new (lprev h head) head h"

text \<open>\<^verbatim>\<open>__list_del\<close>\<close>

definition raw_list_del :: "'n lptr \<Rightarrow> 'n lptr \<Rightarrow> 'n list_head \<Rightarrow> 'n list_head" where
  "raw_list_del prev next h = set_next prev next (set_prev next prev h)"

text \<open>\<^verbatim>\<open>__list_del_clearprev\<close>\<close>

definition list_del_clearprev :: "'n lptr \<Rightarrow> 'n list_head \<Rightarrow> 'n list_head" where
  "list_del_clearprev entry h =
     set_prev entry NULL (raw_list_del (lprev h entry) (lnext h entry) h)"

text \<open>\<^verbatim>\<open>__list_del_entry\<close>\<close>

definition list_del_entry :: "'n lptr \<Rightarrow> 'n list_head \<Rightarrow> 'n list_head" where
  "list_del_entry entry h =
     (if \<not> list_del_entry_valid entry then h
      else raw_list_del (lprev h entry) (lnext h entry) h)"

definition list_del :: "'n lptr \<Rightarrow> 'n list_head \<Rightarrow> 'n list_head" where
  "list_del entry h =
     set_prev entry LIST_POISON2 (set_next entry LIST_POISON1 (list_del_entry entry h))"

definition list_replace :: "'n lptr \<Rightarrow> 'n lptr \<Rightarrow> 'n list_head \<Rightarrow> 'n list_head" where
  "list_replace old new h =
     (let h1 = set_next new (lnext h old) h;
          h2 = set_prev (lnext h1 new) new h1;
          h3 = set_prev new (lprev h2 old) h2
      in set_next (lprev h3 new) new h3)"

definition list_replace_init :: "'n lptr \<Rightarrow> 'n lptr \<Rightarrow> 'n list_head \<Rightarrow> 'n list_head" where
  "list_replace_init old new h = INIT_LIST_HEAD old (list_replace old new h)"

definition list_swap :: "'n lptr \<Rightarrow> 'n lptr \<Rightarrow> 'n list_head \<Rightarrow> 'n list_head" where
  "list_swap entry1 entry2 h =
     (let pos = lprev h entry2;
          h1 = list_del entry2 h;
          h2 = list_replace entry1 entry2 h1;
          pos' = (if pos = entry1 then entry2 else pos)
      in list_add entry1 pos' h2)"

definition list_del_init :: "'n lptr \<Rightarrow> 'n list_head \<Rightarrow> 'n list_head" where
  "list_del_init entry h = INIT_LIST_HEAD entry (list_del_entry entry h)"

definition list_move :: "'n lptr \<Rightarrow> 'n lptr \<Rightarrow> 'n list_head \<Rightarrow> 'n list_head" where
  "list_move l head h = list_add l head (list_del_entry l h)"

definition list_move_tail :: "'n lptr \<Rightarrow> 'n lptr \<Rightarrow> 'n list_head \<Rightarrow> 'n list_head" where
  "list_move_tail l head h = list_add_tail l head (list_del_entry l h)"

definition list_bulk_move_tail ::
  "'n lptr \<Rightarrow> 'n lptr \<Rightarrow> 'n lptr \<Rightarrow> 'n list_head \<Rightarrow> 'n list_head" where
  "list_bulk_move_tail head first lst h =
     (let h1 = set_next (lprev h first) (lnext h lst) h;
          h2 = set_prev (lnext h1 lst) (lprev h1 first) h1;
          h3 = set_next (lprev h2 head) first h2;
          h4 = set_prev first (lprev h3 head) h3;
          h5 = set_next lst head h4
      in set_prev head lst h5)"

definition list_is_first :: "'n lptr \<Rightarrow> 'n lptr \<Rightarrow> 'n list_head \<Rightarrow> bool" where
  "list_is_first l head h \<longleftrightarrow> lprev h l = head"

definition list_is_last :: "'n lptr \<Rightarrow> 'n lptr \<Rightarrow> 'n list_head \<Rightarrow> bool" where
  "list_is_last l head h \<longleftrightarrow> lnext h l = head"

definition list_is_head :: "'n lptr \<Rightarrow> 'n lptr \<Rightarrow> bool" where
  "list_is_head l head \<longleftrightarrow> l = head"

definition list_empty :: "'n lptr \<Rightarrow> 'n list_head \<Rightarrow> bool" where
  "list_empty head h \<longleftrightarrow> lnext h head = head"

definition list_del_init_careful :: "'n lptr \<Rightarrow> 'n list_head \<Rightarrow> 'n list_head" where
  "list_del_init_careful entry h =
     set_next entry entry (set_prev entry entry (list_del_entry entry h))"

definition list_empty_careful :: "'n lptr \<Rightarrow> 'n list_head \<Rightarrow> bool" where
  "list_empty_careful head h =
     (let next = lnext h head in list_is_head next head \<and> next = lprev h head)"

definition list_rotate_left :: "'n lptr \<Rightarrow> 'n list_head \<Rightarrow> 'n list_head" where
  "list_rotate_left head h =
     (if \<not> list_empty head h then list_move_tail (lnext h head) head h else h)"

definition list_rotate_to_front :: "'n lptr \<Rightarrow> 'n lptr \<Rightarrow> 'n list_head \<Rightarrow> 'n list_head" where
  "list_rotate_to_front l head h = list_move_tail head l h"

definition list_is_singular :: "'n lptr \<Rightarrow> 'n list_head \<Rightarrow> bool" where
  "list_is_singular head h \<longleftrightarrow> \<not> list_empty head h \<and> lnext h head = lprev h head"

text \<open>\<^verbatim>\<open>__list_cut_position\<close>\<close>

definition raw_list_cut_position ::
  "'n lptr \<Rightarrow> 'n lptr \<Rightarrow> 'n lptr \<Rightarrow> 'n list_head \<Rightarrow> 'n list_head" where
  "raw_list_cut_position l head entry h =
     (let new_first = lnext h entry;
          h1 = set_next l (lnext h head) h;
          h2 = set_prev (lnext h1 l) l h1;
          h3 = set_prev l entry h2;
          h4 = set_next entry l h3;
          h5 = set_next head new_first h4
      in set_prev new_first head h5)"

definition list_cut_position ::
  "'n lptr \<Rightarrow> 'n lptr \<Rightarrow> 'n lptr \<Rightarrow> 'n list_head \<Rightarrow> 'n list_head" where
  "list_cut_position l head entry h =
     (if list_empty head h then h
      else if list_is_singular head h \<and> \<not> list_is_head entry head \<and> entry \<noteq> lnext h head then h
      else if list_is_head entry head then INIT_LIST_HEAD l h
      else raw_list_cut_position l head entry h)"

definition list_cut_before ::
  "'n lptr \<Rightarrow> 'n lptr \<Rightarrow> 'n lptr \<Rightarrow> 'n list_head \<Rightarrow> 'n list_head" where
  "list_cut_before l head entry h =
     (if lnext h head = entry then INIT_LIST_HEAD l h
      else let h1 = set_next l (lnext h head) h;
               h2 = set_prev (lnext h1 l) l h1;
               h3 = set_prev l (lprev h2 entry) h2;
               h4 = set_next (lprev h3 l) l h3;
               h5 = set_next head entry h4
           in set_prev entry head h5)"

text \<open>\<^verbatim>\<open>__list_splice\<close>\<close>

definition raw_list_splice ::
  "'n lptr \<Rightarrow> 'n lptr \<Rightarrow> 'n lptr \<Rightarrow> 'n list_head \<Rightarrow> 'n list_head" where
  "raw_list_splice l prev next h =
     (let first = lnext h l;
          lst = lprev h l
      in set_prev next lst (set_next lst next (set_next prev first (set_prev first prev h))))"

definition list_splice :: "'n lptr \<Rightarrow> 'n lptr \<Rightarrow> 'n list_head \<Rightarrow> 'n list_head" where
  "list_splice l head h =
     (if \<not> list_empty l h then raw_list_splice l head (lnext h head) h else h)"

definition list_splice_tail :: "'n lptr \<Rightarrow> 'n lptr \<Rightarrow> 'n list_head \<Rightarrow> 'n list_head" where
  "list_splice_tail l head h =
     (if \<not> list_empty l h then raw_list_splice l (lprev h head) head h else h)"

definition list_splice_init :: "'n lptr \<Rightarrow> 'n lptr \<Rightarrow> 'n list_head \<Rightarrow> 'n list_head" where
  "list_splice_init l head h =
     (if \<not> list_empty l h then INIT_LIST_HEAD l (raw_list_splice l head (lnext h head) h) else h)"

definition list_splice_tail_init :: "'n lptr \<Rightarrow> 'n lptr \<Rightarrow> 'n list_head \<Rightarrow> 'n list_head" where
  "list_splice_tail_init l head h =
     (if \<not> list_empty l h then INIT_LIST_HEAD l (raw_list_splice l (lprev h head) head h) else h)"

definition list_first_entry :: "'n lptr \<Rightarrow> 'n list_head \<Rightarrow> 'n lptr" where
  "list_first_entry head h = lnext h head"

definition list_last_entry :: "'n lptr \<Rightarrow> 'n list_head \<Rightarrow> 'n lptr" where
  "list_last_entry head h = lprev h head"

definition list_first_entry_or_null :: "'n lptr \<Rightarrow> 'n list_head \<Rightarrow> 'n lptr" where
  "list_first_entry_or_null head h =
     (let pos = lnext h head in if pos \<noteq> head then pos else NULL)"

text \<open>\<^verbatim>\<open>list_for_each\<close> from \<open>pos\<close>: the entries visited, while \<open>pos\<close> is not the head.
  The loop does not end on a store that is not a ring, so it carries fuel.\<close>

fun list_for_each :: "nat \<Rightarrow> 'n lptr \<Rightarrow> 'n lptr \<Rightarrow> 'n list_head \<Rightarrow> 'n lptr list option" where
  "list_for_each 0 pos head h = None"
| "list_for_each (Suc n) pos head h =
     (if list_is_head pos head then Some []
      else map_option (Cons pos) (list_for_each n (lnext h pos) head h))"

definition list_count_nodes :: "nat \<Rightarrow> 'n lptr \<Rightarrow> 'n list_head \<Rightarrow> nat option" where
  "list_count_nodes fuel head h =
     map_option length (list_for_each fuel (lnext h head) head h)"

section \<open>Well-formed lists\<close>

text \<open>\<open>chain h a xs b\<close>: the links lead from \<open>a\<close> through \<open>xs\<close> to \<open>b\<close>,
  forwards by \<open>next\<close> and backwards by \<open>prev\<close>.  \<open>dll h head xs\<close>: the ring with head
  \<open>head\<close> has exactly the entries \<open>xs\<close>, in this order.\<close>

primrec chain :: "'n list_head \<Rightarrow> 'n lptr \<Rightarrow> 'n lptr list \<Rightarrow> 'n lptr \<Rightarrow> bool" where
  "chain h a [] b \<longleftrightarrow> lnext h a = b \<and> lprev h b = a"
| "chain h a (x # xs) b \<longleftrightarrow> lnext h a = x \<and> lprev h x = a \<and> chain h x xs b"

definition dll :: "'n list_head \<Rightarrow> 'n lptr \<Rightarrow> 'n lptr list \<Rightarrow> bool" where
  "dll h head xs \<longleftrightarrow> distinct (head # xs) \<and> chain h head xs head"

section \<open>Basic facts\<close>

lemma lnext_set_next [simp]: "lnext (set_next a b h) = (lnext h)(a := b)"
  and lprev_set_next [simp]: "lprev (set_next a b h) = lprev h"
  and lnext_set_prev [simp]: "lnext (set_prev a b h) = lnext h"
  and lprev_set_prev [simp]: "lprev (set_prev a b h) = (lprev h)(a := b)"
  by (simp_all add: set_next_def set_prev_def)

lemma chain_append [simp]:
  "chain h a (xs @ x # ys) b \<longleftrightarrow> chain h a xs x \<and> chain h x ys b"
  by (induction xs arbitrary: a) auto

lemma chain_cong:
  "chain h a xs b \<Longrightarrow> (\<And>c. c \<in> set (a # xs) \<Longrightarrow> lnext h' c = lnext h c) \<Longrightarrow>
   (\<And>c. c \<in> set (xs @ [b]) \<Longrightarrow> lprev h' c = lprev h c) \<Longrightarrow> chain h' a xs b"
  by (induction xs arbitrary: a) auto

lemma chain_set_next [simp]:
  "c \<noteq> a \<Longrightarrow> c \<notin> set xs \<Longrightarrow> chain (set_next c v h) a xs b \<longleftrightarrow> chain h a xs b"
  by (induction xs arbitrary: a) auto

lemma chain_set_prev [simp]:
  "c \<noteq> b \<Longrightarrow> c \<notin> set xs \<Longrightarrow> chain (set_prev c v h) a xs b \<longleftrightarrow> chain h a xs b"
  by (induction xs arbitrary: a) auto

lemma chain_next: "chain h a xs b \<Longrightarrow> lnext h a = (case xs of [] \<Rightarrow> b | x # _ \<Rightarrow> x)"
  by (cases xs) auto

lemma chain_prev: "chain h a xs b \<Longrightarrow> lprev h b = (if xs = [] then a else last xs)"
  by (induction xs arbitrary: a) auto

lemma dll_next: "dll h head xs \<Longrightarrow> lnext h head = (case xs of [] \<Rightarrow> head | x # _ \<Rightarrow> x)"
  by (simp add: dll_def chain_next)

lemma dll_prev: "dll h head xs \<Longrightarrow> lprev h head = (if xs = [] then head else last xs)"
  by (auto simp: dll_def chain_prev)

lemma dll_distinct: "dll h head xs \<Longrightarrow> distinct xs" "dll h head xs \<Longrightarrow> head \<notin> set xs"
  by (simp_all add: dll_def)

text \<open>The store determines the entries: the abstraction is a partial function.\<close>

lemma chain_unique:
  "chain h a xs b \<Longrightarrow> chain h a ys b \<Longrightarrow> b \<notin> set xs \<Longrightarrow> b \<notin> set ys \<Longrightarrow> xs = ys"
proof (induction xs arbitrary: a ys)
  case Nil
  then show ?case by (cases ys) auto
next
  case (Cons x xs)
  then show ?case by (cases ys) auto
qed

lemma dll_unique: "dll h head xs \<Longrightarrow> dll h head ys \<Longrightarrow> xs = ys"
  unfolding dll_def by (auto intro: chain_unique)

text \<open>A list whose nodes an operation does not write is unchanged.\<close>

lemma dll_frame:
  assumes "dll h head xs"
    and "\<And>c. c \<in> set (head # xs) \<Longrightarrow> lnext h' c = lnext h c \<and> lprev h' c = lprev h c"
  shows "dll h' head xs"
  using assms unfolding dll_def by (auto intro: chain_cong)

section \<open>Insertion and removal\<close>

lemma INIT_LIST_HEAD_dll [list_rules]: "dll (INIT_LIST_HEAD l h) l []"
  by (simp add: dll_def INIT_LIST_HEAD_def)

lemma INIT_LIST_HEAD_frame [frame_rules]:
  "c \<noteq> l \<Longrightarrow> lnext (INIT_LIST_HEAD l h) c = lnext h c \<and> lprev (INIT_LIST_HEAD l h) c = lprev h c"
  by (simp add: INIT_LIST_HEAD_def)

lemma list_add_dll [list_rules]:
  assumes "dll h head xs" "new \<notin> set (head # xs)"
  shows "dll (list_add new head h) head (new # xs)"
  using assms by (cases xs) (auto simp: dll_def list_add_def raw_list_add_def list_add_valid_def)

lemma list_add_tail_dll [list_rules]:
  assumes "dll h head xs" "new \<notin> set (head # xs)"
  shows "dll (list_add_tail new head h) head (xs @ [new])"
  using assms
  by (cases xs rule: rev_cases)
     (auto simp: dll_def list_add_tail_def raw_list_add_def list_add_valid_def)

lemma list_del_entry_dll [list_rules]:
  assumes "dll h head (xs @ e # ys)"
  shows "dll (list_del_entry e h) head (xs @ ys)"
proof -
  have d: "distinct (head # xs @ e # ys)" and c: "chain h head xs e" "chain h e ys head"
    using assms by (auto simp: dll_def)
  have n: "lnext h e = (case ys of [] \<Rightarrow> head | y # _ \<Rightarrow> y)"
    and p: "lprev h e = (if xs = [] then head else last xs)"
    using c by (auto simp: chain_next chain_prev)
  show ?thesis
    using d c n p
    by (cases xs rule: rev_cases; cases ys)
       (auto simp: dll_def list_del_entry_def list_del_entry_valid_def raw_list_del_def)
qed

lemma list_del_entry_links:
  "lnext (list_del_entry e h) c = (if c = lprev h e then lnext h e else lnext h c)"
  "lprev (list_del_entry e h) c = (if c = lnext h e then lprev h e else lprev h c)"
  by (simp_all add: list_del_entry_def list_del_entry_valid_def raw_list_del_def)

lemma dll_mid_links:
  assumes "dll h head (xs @ e # ys)"
  shows "lnext h e = (case ys of [] \<Rightarrow> head | y # _ \<Rightarrow> y)"
    and "lprev h e = (if xs = [] then head else last xs)"
  using assms by (auto simp: dll_def chain_next chain_prev)

lemma dll_mid_links_in:
  assumes "dll h head (xs @ e # ys)"
  shows "lnext h e \<in> set (head # xs @ ys)" "lprev h e \<in> set (head # xs @ ys)"
  using dll_mid_links [OF assms] by (cases ys; auto)+

lemma dll_end_links_in:
  assumes "dll h head xs"
  shows "lnext h head \<in> set (head # xs)" "lprev h head \<in> set (head # xs)"
  using dll_next [OF assms] dll_prev [OF assms] by (cases xs; auto)+

lemma list_add_frame [frame_rules]:
  assumes "dll h head xs" "c \<notin> set (new # head # xs)"
  shows "lnext (list_add new head h) c = lnext h c \<and> lprev (list_add new head h) c = lprev h c"
  using assms dll_end_links_in [OF assms(1)]
  by (auto simp: list_add_def raw_list_add_def list_add_valid_def)

lemma list_add_tail_frame [frame_rules]:
  assumes "dll h head xs" "c \<notin> set (new # head # xs)"
  shows "lnext (list_add_tail new head h) c = lnext h c \<and>
         lprev (list_add_tail new head h) c = lprev h c"
  using assms dll_end_links_in [OF assms(1)]
  by (auto simp: list_add_tail_def raw_list_add_def list_add_valid_def)

lemma list_del_entry_frame [frame_rules]:
  assumes "dll h head (xs @ e # ys)" "c \<notin> set (head # xs @ ys)"
  shows "lnext (list_del_entry e h) c = lnext h c \<and> lprev (list_del_entry e h) c = lprev h c"
  using assms dll_mid_links_in [OF assms(1)] by (auto simp: list_del_entry_links)

lemma list_del_dll [list_rules]:
  assumes "dll h head (xs @ e # ys)"
  shows "dll (list_del e h) head (xs @ ys)"
    and "lnext (list_del e h) e = LIST_POISON1" "lprev (list_del e h) e = LIST_POISON2"
proof -
  have "e \<notin> set (head # xs @ ys)"
    using assms by (auto simp: dll_def)
  then show "dll (list_del e h) head (xs @ ys)"
    by (intro dll_frame [OF list_del_entry_dll [OF assms]]) (auto simp: list_del_def)
qed (simp_all add: list_del_def)

lemma list_del_init_dll [list_rules]:
  assumes "dll h head (xs @ e # ys)"
  shows "dll (list_del_init e h) head (xs @ ys)" "dll (list_del_init e h) e []"
proof -
  have "e \<notin> set (head # xs @ ys)"
    using assms by (auto simp: dll_def)
  then show "dll (list_del_init e h) head (xs @ ys)"
    by (intro dll_frame [OF list_del_entry_dll [OF assms]])
       (auto simp: list_del_init_def INIT_LIST_HEAD_def)
qed (simp add: list_del_init_def INIT_LIST_HEAD_dll)

text \<open>The memory-ordered variant has the same effect on the store.\<close>

lemma list_del_init_careful_eq: "list_del_init_careful e h = list_del_init e h"
  by (simp add: list_del_init_careful_def list_del_init_def INIT_LIST_HEAD_def
      set_next_def set_prev_def)

lemma list_del_init_frame [frame_rules]:
  assumes "dll h head (xs @ e # ys)" "c \<notin> set (e # head # xs @ ys)"
  shows "lnext (list_del_init e h) c = lnext h c \<and> lprev (list_del_init e h) c = lprev h c"
  using assms list_del_entry_frame [OF assms(1), of c]
  by (simp add: list_del_init_def INIT_LIST_HEAD_def)

lemma list_move_dll [list_rules]:
  assumes "dll h head (xs @ e # ys)"
  shows "dll (list_move e head h) head (e # xs @ ys)"
  unfolding list_move_def using assms
  by (intro list_add_dll list_del_entry_dll) (auto simp: dll_def)

lemma list_move_tail_dll [list_rules]:
  assumes "dll h head (xs @ e # ys)"
  shows "dll (list_move_tail e head h) head (xs @ ys @ [e])"
  using list_add_tail_dll [OF list_del_entry_dll [OF assms], of e] assms
  by (auto simp: list_move_tail_def dll_def)

text \<open>Moving an entry of one list to the end of another.\<close>

lemma list_move_tail_other [list_rules]:
  assumes "dll h head (xs @ e # ys)" "dll h head' zs"
    and "set (head # xs @ e # ys) \<inter> set (head' # zs) = {}"
  shows "dll (list_move_tail e head' h) head (xs @ ys)" (is ?A)
    and "dll (list_move_tail e head' h) head' (zs @ [e])" (is ?B)
proof -
  let ?h = "list_del_entry e h"
  have z: "dll ?h head' zs"
    using assms by (intro dll_frame [OF assms(2)] list_del_entry_frame [OF assms(1)]) auto
  have n: "e \<notin> set (head' # zs)" "e \<notin> set (head # xs @ ys)"
    using assms by (auto simp: dll_def)
  show ?B
    unfolding list_move_tail_def using z n(1) by (rule list_add_tail_dll)
  show ?A
    unfolding list_move_tail_def using assms n
    by (intro dll_frame [OF list_del_entry_dll [OF assms(1)]] list_add_tail_frame [OF z]) auto
qed

section \<open>Replacement and rotation\<close>

lemma list_replace_eq:
  "lnext h old \<noteq> old \<Longrightarrow>
   list_replace old new h =
     set_next (lprev h old) new (set_prev new (lprev h old)
       (set_prev (lnext h old) new (set_next new (lnext h old) h)))"
  by (simp add: list_replace_def Let_def)

lemma list_replace_dll [list_rules]:
  assumes "dll h head (xs @ old # ys)" "new \<notin> set (head # xs @ old # ys)"
  shows "dll (list_replace old new h) head (xs @ new # ys)"
proof -
  have d: "distinct (head # xs @ old # ys)" and c: "chain h head xs old" "chain h old ys head"
    using assms by (auto simp: dll_def)
  have "lnext h old \<noteq> old"
    using d dll_mid_links(1) [OF assms(1)] by (cases ys) auto
  then show ?thesis
    using d c assms(2) dll_mid_links [OF assms(1)]
    by (cases xs rule: rev_cases; cases ys) (auto simp: dll_def list_replace_eq)
qed

lemma list_replace_init_dll [list_rules]:
  assumes "dll h head (xs @ old # ys)" "new \<notin> set (head # xs @ old # ys)"
  shows "dll (list_replace_init old new h) head (xs @ new # ys)" (is ?A)
    and "dll (list_replace_init old new h) old []" (is ?B)
proof -
  have "old \<notin> set (head # xs @ new # ys)"
    using assms by (auto simp: dll_def)
  then show ?A
    unfolding list_replace_init_def
    by (intro dll_frame [OF list_replace_dll [OF assms]] INIT_LIST_HEAD_frame) auto
  show ?B
    unfolding list_replace_init_def by (rule INIT_LIST_HEAD_dll)
qed

lemma list_rotate_left_dll [list_rules]:
  "dll h head xs \<Longrightarrow> dll (list_rotate_left head h) head (rotate1 xs)"
  using list_move_tail_dll [of h head "[]"] dll_next [of h head xs]
  by (cases xs) (auto simp: list_rotate_left_def list_empty_def dll_def)

text \<open>A ring may be read from any of its nodes.\<close>

lemma dll_rotate: "dll h head (xs @ l # ys) \<longleftrightarrow> dll h l (ys @ head # xs)"
  by (auto simp: dll_def)

lemma list_rotate_to_front_dll [list_rules]:
  assumes "dll h head (xs @ l # ys)"
  shows "dll (list_rotate_to_front l head h) head (l # ys @ xs)"
proof -
  have "dll (list_move_tail head l h) l (ys @ xs @ [head])"
    using assms by (simp add: list_move_tail_dll dll_rotate [of h head])
  then show ?thesis
    using dll_rotate [of _ head "[]" l] by (simp add: list_rotate_to_front_def)
qed

lemma list_add_after:
  assumes "dll h head (xs @ p # ys)" "new \<notin> set (head # xs @ p # ys)"
  shows "dll (list_add new p h) head (xs @ p # new # ys)"
proof -
  have "dll (list_add new p h) p (new # ys @ head # xs)"
    using assms by (intro list_add_dll) (auto simp: dll_rotate [of h head])
  then show ?thesis
    using dll_rotate [of _ head xs p "new # ys"] by simp
qed

lemma list_swap_dll [list_rules]:
  assumes "dll h head (xs @ e1 # ys @ e2 # zs)"
  shows "dll (list_swap e1 e2 h) head (xs @ e2 # ys @ e1 # zs)"
proof -
  have d: "distinct (head # xs @ e1 # ys @ e2 # zs)"
    using assms by (simp add: dll_def)
  have pos: "lprev h e2 = (if ys = [] then e1 else last ys)"
    using dll_mid_links(2) [of h head "xs @ e1 # ys" e2 zs] assms by simp
  have 1: "dll (list_del e2 h) head (xs @ e1 # ys @ zs)"
    using list_del_dll(1) [of h head "xs @ e1 # ys" e2 zs] assms by simp
  have 2: "dll (list_replace e1 e2 (list_del e2 h)) head (xs @ e2 # ys @ zs)"
    using d by (intro list_replace_dll [OF 1]) auto
  show ?thesis
  proof (cases ys rule: rev_cases)
    case Nil
    then show ?thesis
      using list_add_after [OF 2, of e1] d pos by (auto simp: list_swap_def Let_def)
  next
    case (snoc us u)
    then show ?thesis
      using list_add_after [of _ head "xs @ e2 # us" u zs e1] 2 d pos
      by (auto simp: list_swap_def Let_def)
  qed
qed

lemma list_swap_dll_rev [list_rules]:
  assumes "dll h head (xs @ e2 # ys @ e1 # zs)"
  shows "dll (list_swap e1 e2 h) head (xs @ e1 # ys @ e2 # zs)"
proof -
  have d: "distinct (head # xs @ e2 # ys @ e1 # zs)"
    using assms by (simp add: dll_def)
  have pos: "lprev h e2 = (if xs = [] then head else last xs)"
    using dll_mid_links(2) [OF assms] .
  have 1: "dll (list_del e2 h) head ((xs @ ys) @ e1 # zs)"
    using list_del_dll(1) [OF assms] by simp
  have 2: "dll (list_replace e1 e2 (list_del e2 h)) head ((xs @ ys) @ e2 # zs)"
    using d by (intro list_replace_dll [OF 1]) auto
  show ?thesis
  proof (cases xs rule: rev_cases)
    case Nil
    then show ?thesis
      using list_add_dll [OF 2, of e1] d pos by (auto simp: list_swap_def Let_def)
  next
    case (snoc us u)
    then show ?thesis
      using list_add_after [of _ head us u "ys @ e2 # zs" e1] 2 d pos
      by (auto simp: list_swap_def Let_def)
  qed
qed

text \<open>For operations that relink whole segments: the links inside a segment, and
  between the segments of a ring.\<close>

primrec links :: "'n list_head \<Rightarrow> 'n lptr list \<Rightarrow> bool" where
  "links h [] \<longleftrightarrow> True"
| "links h (x # xs) \<longleftrightarrow> (xs \<noteq> [] \<longrightarrow> lnext h x = hd xs \<and> lprev h (hd xs) = x) \<and> links h xs"

lemma links_append:
  "links h (xs @ ys) \<longleftrightarrow> links h xs \<and> links h ys \<and>
     (xs \<noteq> [] \<longrightarrow> ys \<noteq> [] \<longrightarrow> lnext h (last xs) = hd ys \<and> lprev h (hd ys) = last xs)"
  by (induction xs) auto

lemma chain_links: "chain h a xs b \<longleftrightarrow> links h (a # xs @ [b])"
  by (induction xs arbitrary: a) auto

lemma links_set_next [simp]:
  "c \<notin> set (butlast xs) \<Longrightarrow> links (set_next c v h) xs \<longleftrightarrow> links h xs"
proof (induction xs)
  case (Cons x xs)
  then show ?case by (cases xs) auto
qed simp

lemma links_set_prev [simp]:
  "c \<notin> set (tl xs) \<Longrightarrow> links (set_prev c v h) xs \<longleftrightarrow> links h xs"
proof (induction xs)
  case (Cons x xs)
  then show ?case by (cases xs) auto
qed simp

lemma distinct_ends:
  "distinct xs \<Longrightarrow> xs \<noteq> [] \<Longrightarrow> last xs \<notin> set (butlast xs)"
  "distinct xs \<Longrightarrow> xs \<noteq> [] \<Longrightarrow> hd xs \<notin> set (tl xs)"
  by (induction xs) auto

lemma in_tlD: "x \<in> set (tl xs) \<Longrightarrow> x \<in> set xs"
  by (cases xs) auto

lemma disjoint_ends:
  assumes "set xs \<inter> set ys = {}" "xs \<noteq> []"
  shows "last xs \<notin> set (butlast ys)" "hd xs \<notin> set (tl ys)"
    "ys \<noteq> [] \<Longrightarrow> last xs \<noteq> last ys" "ys \<noteq> [] \<Longrightarrow> hd xs \<noteq> hd ys"
  using assms last_in_set [of xs] hd_in_set [of xs] last_in_set [of ys] hd_in_set [of ys]
  by (blast dest: in_set_butlastD in_tlD, blast dest: in_set_butlastD in_tlD, metis IntI empty_iff,
      metis IntI empty_iff)

lemma dll_links:
  "dll h head xs \<longleftrightarrow> distinct (head # xs) \<and> links h (head # xs) \<and>
     lnext h (last (head # xs)) = head \<and> lprev h head = last (head # xs)"
  using links_append [of h "head # xs" "[head]"] by (auto simp: dll_def chain_links)

lemma list_bulk_move_tail_eq:
  assumes "links h (A @ ys @ zs)" "lprev h head = last zs" "distinct (A @ ys @ zs)"
    and "A \<noteq> []" "ys \<noteq> []" "zs \<noteq> []" "head \<in> set A"
  shows "list_bulk_move_tail head (hd ys) (last ys) h =
    set_prev head (last ys) (set_next (last ys) head
      (set_prev (hd ys) (last zs) (set_next (last zs) (hd ys)
        (set_prev (hd zs) (last A) (set_next (last A) (hd zs) h)))))"
proof -
  have "lprev h (hd ys) = last A" "lnext h (last ys) = hd zs"
    using assms(1,4-6) unfolding links_append by simp_all
  moreover have "last ys \<noteq> last A" "hd ys \<noteq> hd zs" "head \<noteq> hd zs"
    using assms(3-7) disjoint_ends(3) [of ys A] disjoint_ends(4) [of ys zs] hd_in_set [of zs]
    by (auto simp: Int_commute)
  ultimately show ?thesis
    using assms(2) unfolding list_bulk_move_tail_def Let_def by simp
qed

lemma list_bulk_move_tail_id:
  assumes "dll h head (xs @ ys)" "ys \<noteq> []"
  shows "list_bulk_move_tail head (hd ys) (last ys) h = h"
proof -
  have "links h ((head # xs) @ ys)" "lnext h (last ys) = head" "lprev h head = last ys"
    and d: "distinct ((head # xs) @ ys)"
    using assms by (auto simp: dll_links)
  moreover from this have "lprev h (hd ys) = last (head # xs)" "lnext h (last (head # xs)) = hd ys"
    using assms(2) unfolding links_append by simp_all
  moreover have "head \<noteq> hd ys" "last ys \<noteq> last (head # xs)"
    using d assms(2) last_in_set [of "head # xs"] last_in_set [of ys] hd_in_set [of ys]
    by (auto simp del: last.simps last_in_set)
  ultimately show ?thesis
    unfolding list_bulk_move_tail_def Let_def
    by (intro list_head.equality) (auto simp: fun_eq_iff simp del: last.simps)
qed

lemma list_bulk_move_tail_dll [list_rules]:
  assumes "dll h head (xs @ ys @ zs)" "ys \<noteq> []"
  shows "dll (list_bulk_move_tail head (hd ys) (last ys) h) head (xs @ zs @ ys)"
proof (cases "zs = []")
  case True
  then show ?thesis
    using assms by (simp add: list_bulk_move_tail_id)
next
  case False
  define A where "A = head # xs"
  have A: "A \<noteq> []" "hd A = head" "head \<in> set A" by (simp_all add: A_def)
  have L: "links h (A @ ys @ zs)" "lprev h head = last zs" "distinct (A @ ys @ zs)"
    using assms False by (auto simp: dll_links A_def)
  let ?h = "set_prev head (last ys) (set_next (last ys) head
      (set_prev (hd ys) (last zs) (set_next (last zs) (hd ys)
        (set_prev (hd zs) (last A) (set_next (last A) (hd zs) h)))))"
  have disj: "set A \<inter> set ys = {}" "set A \<inter> set zs = {}" "set ys \<inter> set zs = {}"
    "set ys \<inter> set A = {}" "set zs \<inter> set A = {}" "set zs \<inter> set ys = {}"
    using L(3) by auto
  note ends = disj [THEN disjoint_ends(1)] disj [THEN disjoint_ends(2)]
    disj [THEN disjoint_ends(3)] disj [THEN disjoint_ends(4)]
  have seg: "links ?h A" "links ?h ys" "links ?h zs"
    using L A assms(2) False unfolding links_append A(2) [symmetric]
    by (simp_all add: ends distinct_ends)
  have neq: "last A \<noteq> last ys" "last A \<noteq> last zs" "last ys \<noteq> last zs"
    "hd A \<noteq> hd ys" "hd A \<noteq> hd zs" "hd ys \<noteq> hd zs"
    using A(1) assms(2) False by (simp_all add: ends)
  have "links ?h (A @ zs @ ys)" "lnext ?h (last ys) = head" "lprev ?h head = last ys"
    using seg neq A assms(2) False unfolding links_append by simp_all
  moreover have "list_bulk_move_tail head (hd ys) (last ys) h = ?h"
    using L A assms(2) False by (intro list_bulk_move_tail_eq)
  ultimately show ?thesis
    using L(3) assms(2) by (auto simp: dll_links A_def)
qed

section \<open>Queries\<close>

lemma list_empty_dll [list_rules]:
  assumes "dll h head xs"
  shows "list_empty head h \<longleftrightarrow> xs = []"
  using dll_next [OF assms] dll_distinct(2) [OF assms] by (cases xs) (auto simp: list_empty_def)

lemma list_empty_careful_dll [list_rules]:
  assumes "dll h head xs"
  shows "list_empty_careful head h \<longleftrightarrow> xs = []"
  using dll_next [OF assms] dll_prev [OF assms] dll_distinct(2) [OF assms]
  by (cases xs) (auto simp: list_empty_careful_def list_is_head_def Let_def)

lemma list_is_singular_dll [list_rules]:
  assumes "dll h head xs"
  shows "list_is_singular head h \<longleftrightarrow> length xs = 1"
proof (cases xs)
  case (Cons x ys)
  then show ?thesis
    using dll_next [OF assms] dll_prev [OF assms] dll_distinct [OF assms] last_in_set [of ys]
    by (auto simp: list_is_singular_def list_empty_dll [OF assms])
qed (use assms in \<open>simp add: list_is_singular_def list_empty_dll\<close>)

lemma list_first_entry_dll [list_rules]:
  "dll h head (x # xs) \<Longrightarrow> list_first_entry head h = x"
  by (simp add: list_first_entry_def dll_next)

lemma list_last_entry_dll [list_rules]:
  "dll h head (xs @ [x]) \<Longrightarrow> list_last_entry head h = x"
  by (simp add: list_last_entry_def dll_prev)

lemma list_first_entry_or_null_dll [list_rules]:
  assumes "dll h head xs"
  shows "list_first_entry_or_null head h = (case xs of [] \<Rightarrow> NULL | x # _ \<Rightarrow> x)"
  using dll_next [OF assms] dll_distinct(2) [OF assms]
  by (cases xs) (auto simp: list_first_entry_or_null_def Let_def)

lemma list_is_first_dll [list_rules]:
  assumes "dll h head (xs @ e # ys)"
  shows "list_is_first e head h \<longleftrightarrow> xs = []"
  using dll_distinct(2) [OF assms] dll_mid_links(2) [OF assms] last_in_set [of xs]
  by (auto simp: list_is_first_def)

lemma list_is_last_dll [list_rules]:
  assumes "dll h head (xs @ e # ys)"
  shows "list_is_last e head h \<longleftrightarrow> ys = []"
  using dll_distinct(2) [OF assms] dll_mid_links(1) [OF assms]
  by (cases ys) (auto simp: list_is_last_def)

text \<open>The iteration visits every entry once, in order, and ends within \<open>length xs + 1\<close>
  tests of the loop condition.\<close>

lemma list_for_each_chain:
  assumes "chain h a xs head" "head \<notin> set xs" "length xs < fuel"
  shows "list_for_each fuel (lnext h a) head h = Some xs"
  using assms
proof (induction xs arbitrary: a fuel)
  case Nil
  then show ?case by (cases fuel) (auto simp: list_is_head_def)
next
  case (Cons x xs)
  then show ?case by (cases fuel) (auto simp: list_is_head_def)
qed

lemma list_for_each_dll [list_rules]:
  "dll h head xs \<Longrightarrow> length xs < fuel \<Longrightarrow> list_for_each fuel (lnext h head) head h = Some xs"
  by (simp add: dll_def list_for_each_chain)

lemma list_count_nodes_dll [list_rules]:
  "dll h head xs \<Longrightarrow> length xs < fuel \<Longrightarrow> list_count_nodes fuel head h = Some (length xs)"
  by (simp add: list_count_nodes_def list_for_each_dll)

section \<open>Cutting and splicing\<close>

lemma dll_append_links:
  assumes "dll h head (xs @ ys)" "xs \<noteq> []"
  shows "links h xs" "links h ys" "lnext h head = hd xs" "lnext h (last xs) = hd (ys @ [head])"
    "ys \<noteq> [] \<Longrightarrow> lnext h (last ys) = head" "ys \<noteq> [] \<Longrightarrow> lprev h head = last ys"
    "lprev h (hd (ys @ [head])) = last xs"
  using assms by (cases ys; auto simp: dll_links links_append split: if_splits)+

lemma raw_list_cut_position_dll:
  assumes "dll h head (xs @ ys)" "xs \<noteq> []" "l \<notin> set (head # xs @ ys)"
  shows "dll (raw_list_cut_position l head (last xs) h) l xs" (is ?A)
    and "dll (raw_list_cut_position l head (last xs) h) head ys" (is ?B)
proof -
  let ?n = "hd (ys @ [head])"
  let ?h = "set_prev ?n head (set_next head ?n (set_next (last xs) l (set_prev l (last xs)
              (set_prev (hd xs) l (set_next l (hd xs) h)))))"
  note L = dll_append_links [OF assms(1,2)]
  have d: "distinct (head # xs)" "distinct (head # ys)" "set xs \<inter> set ys = {}" "head \<notin> set xs"
    using assms(1) by (auto simp: dll_def)
  have h: "raw_list_cut_position l head (last xs) h = ?h"
    using L by (simp add: raw_list_cut_position_def Let_def)
  have n: "?n \<in> set (head # ys)"
    by (cases ys) auto
  have m: "last xs \<in> set xs" "hd xs \<in> set xs" "last xs \<noteq> l" "hd xs \<noteq> l" "head \<noteq> l"
    "last xs \<noteq> head" "?n \<noteq> hd xs" "?n \<noteq> l"
    using assms(2,3) d n hd_in_set [OF assms(2)] by (cases ys; auto)+
  have "links ?h xs"
  proof -
    have "head \<notin> set (butlast xs)" "l \<notin> set (butlast xs)" "l \<notin> set (tl xs)" "?n \<notin> set (tl xs)"
      using d n assms(3) by (auto dest!: in_set_butlastD in_tlD)
    moreover have "last xs \<notin> set (butlast xs)" "hd xs \<notin> set (tl xs)"
      using d assms(2) by (simp_all add: distinct_ends)
    ultimately show ?thesis
      using L(1) by simp
  qed
  then show ?A
    using h d m assms(2,3) by (auto simp: dll_links)
  have "links ?h ys"
  proof -
    have "head \<notin> set (butlast ys)" "last xs \<notin> set (butlast ys)" "l \<notin> set (butlast ys)"
      "l \<notin> set (tl ys)" "hd xs \<notin> set (tl ys)"
      using d m assms(3) by (auto dest!: in_set_butlastD in_tlD)
    moreover have "?n \<notin> set (tl ys)"
      using d(2) by (cases ys) auto
    ultimately show ?thesis
      using L(2) by simp
  qed
  then show ?B
    using h d m L assms(2,3) by (cases ys) (auto simp: dll_links)
qed

lemma list_cut_position_raw:
  assumes "dll h head (xs @ e # ys)"
  shows "list_cut_position l head e h = raw_list_cut_position l head e h"
  using list_empty_dll [OF assms] list_is_singular_dll [OF assms] dll_next [OF assms]
    dll_distinct(2) [OF assms]
  by (cases xs) (auto simp: list_cut_position_def list_is_head_def)

lemma list_cut_position_dll [list_rules]:
  assumes "dll h head (xs @ e # ys)" "l \<notin> set (head # xs @ e # ys)"
  shows "dll (list_cut_position l head e h) l (xs @ [e])"
    and "dll (list_cut_position l head e h) head ys"
  using raw_list_cut_position_dll [of h head "xs @ [e]" ys l] assms
  by (simp_all add: list_cut_position_raw [OF assms(1)])

lemma list_cut_before_raw:
  assumes "dll h head (xs @ e # ys)" "xs \<noteq> []"
  shows "list_cut_before l head e h = raw_list_cut_position l head (last xs) h"
proof -
  have "lnext h (last xs) = e" "lnext h head = hd xs" "lprev h e = last xs"
    using dll_append_links [OF assms] by auto
  moreover have "hd xs \<noteq> e"
    using assms hd_in_set [OF assms(2)] by (auto simp: dll_def)
  ultimately show ?thesis
    by (simp add: list_cut_before_def raw_list_cut_position_def Let_def)
qed

lemma list_cut_before_dll [list_rules]:
  assumes "dll h head (xs @ e # ys)" "l \<notin> set (head # xs @ e # ys)"
  shows "dll (list_cut_before l head e h) l xs" (is ?A)
    and "dll (list_cut_before l head e h) head (e # ys)" (is ?B)
proof -
  have "?A \<and> ?B"
  proof (cases "xs = []")
    case True
    then have "list_cut_before l head e h = INIT_LIST_HEAD l h"
      using dll_next [OF assms(1)] by (simp add: list_cut_before_def)
    moreover have "dll (INIT_LIST_HEAD l h) head (e # ys)"
      using assms True by (intro dll_frame [OF assms(1) [simplified True append_Nil]]
          INIT_LIST_HEAD_frame) auto
    ultimately show ?thesis
      by (simp add: INIT_LIST_HEAD_dll True)
  next
    case False
    then show ?thesis
      using raw_list_cut_position_dll [OF assms(1) False assms(2)]
      by (simp add: list_cut_before_raw [OF assms(1)])
  qed
  then show ?A ?B by simp_all
qed

lemma raw_list_splice_tail:
  assumes "dll h head xs" "dll h l ys" "ys \<noteq> []" "set (head # xs) \<inter> set (l # ys) = {}"
  shows "dll (raw_list_splice l (lprev h head) head h) head (xs @ ys)"
proof -
  define A where "A = head # xs"
  have A: "A \<noteq> []" "hd A = head" by (simp_all add: A_def)
  have L: "links h A" "links h ys" "lprev h head = last A" "lnext h l = hd ys"
    "lprev h l = last ys" and d: "distinct A" "distinct ys"
    using assms(1-3) by (auto simp: dll_links A_def)
  let ?h = "set_prev (hd A) (last ys) (set_next (last ys) (hd A)
              (set_next (last A) (hd ys) (set_prev (hd ys) (last A) h)))"
  have disj: "set A \<inter> set ys = {}" "set ys \<inter> set A = {}"
    using assms(4) by (auto simp: A_def)
  note ends = disj [THEN disjoint_ends(1)] disj [THEN disjoint_ends(2)]
    disj [THEN disjoint_ends(3)] disj [THEN disjoint_ends(4)]
  have "links ?h A" "links ?h ys"
    using L(1,2) A(1) assms(3) d by (simp_all add: ends distinct_ends)
  moreover have "last A \<noteq> last ys" "hd A \<noteq> hd ys"
    using A(1) assms(3) by (simp_all add: ends)
  ultimately have "links ?h (A @ ys)" "lnext ?h (last ys) = hd A" "lprev ?h (hd A) = last ys"
    unfolding links_append by simp_all
  moreover have "raw_list_splice l (lprev h head) head h = ?h"
    using L A by (simp add: raw_list_splice_def Let_def)
  ultimately show ?thesis
    using d disj A assms(3) by (auto simp: dll_links A_def)
qed

lemma raw_list_splice_front:
  assumes "dll h head xs" "dll h l ys" "ys \<noteq> []" "set (head # xs) \<inter> set (l # ys) = {}"
  shows "dll (raw_list_splice l head (lnext h head) h) head (ys @ xs)"
proof (cases xs)
  case Nil
  then show ?thesis
    using raw_list_splice_tail [OF assms] dll_next [OF assms(1)] dll_prev [OF assms(1)] by simp
next
  case (Cons x zs)
  have r: "dll h x (zs @ head # [])"
    using assms(1) dll_rotate [of h head "[]" x zs] by (simp add: Cons)
  have "lprev h x = head" "lnext h head = x"
    using dll_prev [OF r] dll_next [OF assms(1)] by (simp_all add: Cons)
  then have "dll (raw_list_splice l head (lnext h head) h) x (zs @ head # ys)"
    using raw_list_splice_tail [OF r assms(2,3)] assms(4) by (auto simp: Cons)
  then show ?thesis
    using dll_rotate [of _ x zs head ys] by (simp add: Cons)
qed

text \<open>Joining a non-empty list; an empty one leaves the store as it is.  The \<^verbatim>\<open>_init\<close>
  variants leave the joined list's head an empty list of its own.\<close>

lemma list_splice_dll [list_rules]:
  assumes "dll h head xs" "dll h l ys" "set (head # xs) \<inter> set (l # ys) = {}"
  shows "dll (list_splice l head h) head (ys @ xs)"
    and "dll (list_splice_tail l head h) head (xs @ ys)"
  using assms list_empty_dll [OF assms(2)]
    raw_list_splice_front [OF assms(1,2) _ assms(3)] raw_list_splice_tail [OF assms(1,2) _ assms(3)]
  by (auto simp: list_splice_def list_splice_tail_def)

lemma list_splice_init_eq:
  assumes "dll h l ys"
  shows "list_splice_init l head h =
           (if ys = [] then h else INIT_LIST_HEAD l (list_splice l head h))"
    and "list_splice_tail_init l head h =
           (if ys = [] then h else INIT_LIST_HEAD l (list_splice_tail l head h))"
  using list_empty_dll [OF assms]
  by (simp_all add: list_splice_init_def list_splice_tail_init_def list_splice_def
      list_splice_tail_def)

lemma list_splice_init_dll [list_rules]:
  assumes "dll h head xs" "dll h l ys" "set (head # xs) \<inter> set (l # ys) = {}"
  shows "dll (list_splice_init l head h) head (ys @ xs)" (is ?A)
    and "dll (list_splice_init l head h) l []" (is ?B)
    and "dll (list_splice_tail_init l head h) head (xs @ ys)" (is ?C)
    and "dll (list_splice_tail_init l head h) l []" (is ?D)
proof -
  have out: "l \<notin> set (head # xs @ ys)"
    using assms by (auto simp: dll_def)
  have init: "dll (INIT_LIST_HEAD l h') head zs"
    if "dll h' head zs" "set zs = set (xs @ ys)" for h' zs
    using out that by (intro dll_frame [OF that(1)] INIT_LIST_HEAD_frame) auto
  show ?A ?C
    using assms(1) init [OF list_splice_dll(1) [OF assms]] init [OF list_splice_dll(2) [OF assms]]
    by (auto simp: list_splice_init_eq [OF assms(2)])
  show ?B ?D
    using assms(2) by (auto simp: list_splice_init_eq [OF assms(2)] INIT_LIST_HEAD_dll)
qed

lemma list_cut_position_splice:
  assumes "dll h head (xs @ e # ys)" "l \<notin> set (head # xs @ e # ys)"
  shows "dll (list_splice_init l head (list_cut_position l head e h)) head (xs @ e # ys)"
proof -
  have "set (head # ys) \<inter> set (l # xs @ [e]) = {}"
    using assms by (auto simp: dll_def)
  then show ?thesis
    using list_splice_init_dll(1) [OF list_cut_position_dll(2,1) [OF assms]] by simp
qed

end
