(* ===== verification/Hlist.thy ===== *)
theory Hlist
  imports Prelude
begin

text \<open>
  The lists with a single-pointer head of \<^verbatim>\<open>libc/include/dsa/list.h\<close>.  A node keeps a pointer to its
  successor and a pointer to the cell that points to it, which is the \<^verbatim>\<open>first\<close> field of a head or the
  \<^verbatim>\<open>next\<close> field of another node.  The store maps every such cell to its content.
\<close>

datatype 'n hptr = HNULL | HPOISON1 | HNode 'n

datatype ('h, 'n) hslot = SNULL | SPOISON2 | First 'h | NextOf "'n hptr"

record ('h, 'n) hstore =
  hcell :: "('h, 'n) hslot \<Rightarrow> 'n hptr"
  hpprev :: "'n hptr \<Rightarrow> ('h, 'n) hslot"

definition set_cell :: "('h, 'n) hslot \<Rightarrow> 'n hptr \<Rightarrow> ('h, 'n) hstore \<Rightarrow> ('h, 'n) hstore" where
  "set_cell c v s = s\<lparr>hcell := (hcell s)(c := v)\<rparr>"

definition set_pprev :: "'n hptr \<Rightarrow> ('h, 'n) hslot \<Rightarrow> ('h, 'n) hstore \<Rightarrow> ('h, 'n) hstore" where
  "set_pprev n c s = s\<lparr>hpprev := (hpprev s)(n := c)\<rparr>"

section \<open>Operations\<close>

definition INIT_HLIST_HEAD :: "'h \<Rightarrow> ('h, 'n) hstore \<Rightarrow> ('h, 'n) hstore" where
  "INIT_HLIST_HEAD h s = set_cell (First h) HNULL s"

definition INIT_HLIST_NODE :: "'n hptr \<Rightarrow> ('h, 'n) hstore \<Rightarrow> ('h, 'n) hstore" where
  "INIT_HLIST_NODE n s = set_pprev n SNULL (set_cell (NextOf n) HNULL s)"

definition hlist_unhashed :: "'n hptr \<Rightarrow> ('h, 'n) hstore \<Rightarrow> bool" where
  "hlist_unhashed n s \<longleftrightarrow> hpprev s n = SNULL"

definition hlist_unhashed_lockless :: "'n hptr \<Rightarrow> ('h, 'n) hstore \<Rightarrow> bool" where
  "hlist_unhashed_lockless n s \<longleftrightarrow> hpprev s n = SNULL"

definition hlist_empty :: "'h \<Rightarrow> ('h, 'n) hstore \<Rightarrow> bool" where
  "hlist_empty h s \<longleftrightarrow> hcell s (First h) = HNULL"

text \<open>\<^verbatim>\<open>__hlist_del\<close>\<close>

definition raw_hlist_del :: "'n hptr \<Rightarrow> ('h, 'n) hstore \<Rightarrow> ('h, 'n) hstore" where
  "raw_hlist_del n s =
     (let nxt = hcell s (NextOf n); pprev = hpprev s n; s1 = set_cell pprev nxt s
      in if nxt \<noteq> HNULL then set_pprev nxt pprev s1 else s1)"

definition hlist_del :: "'n hptr \<Rightarrow> ('h, 'n) hstore \<Rightarrow> ('h, 'n) hstore" where
  "hlist_del n s = set_pprev n SPOISON2 (set_cell (NextOf n) HPOISON1 (raw_hlist_del n s))"

definition hlist_del_init :: "'n hptr \<Rightarrow> ('h, 'n) hstore \<Rightarrow> ('h, 'n) hstore" where
  "hlist_del_init n s = (if \<not> hlist_unhashed n s then INIT_HLIST_NODE n (raw_hlist_del n s) else s)"

definition hlist_add_head :: "'n hptr \<Rightarrow> 'h \<Rightarrow> ('h, 'n) hstore \<Rightarrow> ('h, 'n) hstore" where
  "hlist_add_head n h s =
     (let first = hcell s (First h);
          s1 = set_cell (NextOf n) first s;
          s2 = (if first \<noteq> HNULL then set_pprev first (NextOf n) s1 else s1)
      in set_pprev n (First h) (set_cell (First h) n s2))"

definition hlist_add_before :: "'n hptr \<Rightarrow> 'n hptr \<Rightarrow> ('h, 'n) hstore \<Rightarrow> ('h, 'n) hstore" where
  "hlist_add_before n nxt s =
     (let s1 = set_pprev n (hpprev s nxt) s;
          s2 = set_cell (NextOf n) nxt s1;
          s3 = set_pprev nxt (NextOf n) s2
      in set_cell (hpprev s3 n) n s3)"

definition hlist_add_behind :: "'n hptr \<Rightarrow> 'n hptr \<Rightarrow> ('h, 'n) hstore \<Rightarrow> ('h, 'n) hstore" where
  "hlist_add_behind n prev s =
     (let s1 = set_cell (NextOf n) (hcell s (NextOf prev)) s;
          s2 = set_cell (NextOf prev) n s1;
          s3 = set_pprev n (NextOf prev) s2
      in if hcell s3 (NextOf n) \<noteq> HNULL then set_pprev (hcell s3 (NextOf n)) (NextOf n) s3 else s3)"

definition hlist_add_fake :: "'n hptr \<Rightarrow> ('h, 'n) hstore \<Rightarrow> ('h, 'n) hstore" where
  "hlist_add_fake n s = set_pprev n (NextOf n) s"

definition hlist_fake :: "'n hptr \<Rightarrow> ('h, 'n) hstore \<Rightarrow> bool" where
  "hlist_fake n s \<longleftrightarrow> hpprev s n = NextOf n"

definition hlist_is_singular_node :: "'n hptr \<Rightarrow> 'h \<Rightarrow> ('h, 'n) hstore \<Rightarrow> bool" where
  "hlist_is_singular_node n h s \<longleftrightarrow> hcell s (NextOf n) = HNULL \<and> hpprev s n = First h"

definition hlist_move_list :: "'h \<Rightarrow> 'h \<Rightarrow> ('h, 'n) hstore \<Rightarrow> ('h, 'n) hstore" where
  "hlist_move_list old new s =
     (let s1 = set_cell (First new) (hcell s (First old)) s;
          s2 = (if hcell s1 (First new) \<noteq> HNULL then set_pprev (hcell s1 (First new)) (First new) s1 else s1)
      in set_cell (First old) HNULL s2)"

definition hlist_splice_init :: "'h \<Rightarrow> 'n hptr \<Rightarrow> 'h \<Rightarrow> ('h, 'n) hstore \<Rightarrow> ('h, 'n) hstore" where
  "hlist_splice_init from lst to s =
     (let s1 = (if hcell s (First to) \<noteq> HNULL then set_pprev (hcell s (First to)) (NextOf lst) s else s);
          s2 = set_cell (NextOf lst) (hcell s1 (First to)) s1;
          s3 = set_cell (First to) (hcell s2 (First from)) s2;
          s4 = set_pprev (hcell s3 (First from)) (First to) s3
      in set_cell (First from) HNULL s4)"

text \<open>\<^verbatim>\<open>hlist_for_each\<close>: the nodes visited, and None if the walk does not end.\<close>

partial_function (option) hlist_for_each :: "'n hptr \<Rightarrow> 'n hptr list \<Rightarrow> ('h, 'n) hstore \<Rightarrow> 'n hptr list option" where
  "hlist_for_each pos visited s =
     (if pos = HNULL then Some (rev visited) else hlist_for_each (hcell s (NextOf pos)) (pos # visited) s)"

definition hlist_count_nodes :: "'h \<Rightarrow> ('h, 'n) hstore \<Rightarrow> nat option" where
  "hlist_count_nodes h s = map_option length (hlist_for_each (hcell s (First h)) [] s)"

section \<open>Well-formed lists\<close>

primrec hchain :: "('h, 'n) hstore \<Rightarrow> ('h, 'n) hslot \<Rightarrow> 'n hptr list \<Rightarrow> bool" where
  "hchain s c [] \<longleftrightarrow> hcell s c = HNULL"
| "hchain s c (x # xs) \<longleftrightarrow> hcell s c = x \<and> hpprev s x = c \<and> hchain s (NextOf x) xs"

definition hlist :: "('h, 'n) hstore \<Rightarrow> 'h \<Rightarrow> 'n hptr list \<Rightarrow> bool" where
  "hlist s h xs \<longleftrightarrow> hchain s (First h) xs \<and> distinct xs \<and> HNULL \<notin> set xs"

text \<open>The cell in which a list that starts in a given cell ends.\<close>

definition end_slot :: "('h, 'n) hslot \<Rightarrow> 'n hptr list \<Rightarrow> ('h, 'n) hslot" where
  "end_slot c xs = (if xs = [] then c else NextOf (last xs))"

primrec hseg :: "('h, 'n) hstore \<Rightarrow> ('h, 'n) hslot \<Rightarrow> 'n hptr list \<Rightarrow> bool" where
  "hseg s c [] \<longleftrightarrow> True"
| "hseg s c (x # xs) \<longleftrightarrow> hcell s c = x \<and> hpprev s x = c \<and> hseg s (NextOf x) xs"

lemma end_slot_Cons [simp]: "end_slot c (x # xs) = end_slot (NextOf x) xs"
  by (simp add: end_slot_def)

lemma end_slot_Nil [simp]: "end_slot c [] = c"
  by (simp add: end_slot_def)

lemma hchain_append: "hchain s c (xs @ ys) \<longleftrightarrow> hseg s c xs \<and> hchain s (end_slot c xs) ys"
  by (induction xs arbitrary: c) auto

lemma store_simps [simp]:
  "hcell (set_cell c v s) = (hcell s)(c := v)" "hpprev (set_cell c v s) = hpprev s"
  "hcell (set_pprev n c s) = hcell s" "hpprev (set_pprev n c s) = (hpprev s)(n := c)"
  by (simp_all add: set_cell_def set_pprev_def)

lemma hchain_cong:
  assumes "\<And>d. d \<in> insert c (NextOf ` set xs) \<Longrightarrow> hcell s' d = hcell s d" "\<And>x. x \<in> set xs \<Longrightarrow> hpprev s' x = hpprev s x"
  shows "hchain s' c xs = hchain s c xs"
  using assms by (induction xs arbitrary: c) auto

lemma hseg_cong:
  assumes "\<And>d. d \<noteq> end_slot c xs \<Longrightarrow> d \<in> insert c (NextOf ` set xs) \<Longrightarrow> hcell s' d = hcell s d"
    "\<And>x. x \<in> set xs \<Longrightarrow> hpprev s' x = hpprev s x" "distinct xs" "c \<notin> NextOf ` set xs"
  shows "hseg s' c xs = hseg s c xs"
  using assms
proof (induction xs arbitrary: c)
  case (Cons x xs)
  have "end_slot (NextOf x) xs \<noteq> c"
    using Cons.prems(4) by (auto simp: end_slot_def split: if_splits)
  then have "hcell s' c = hcell s c" using Cons.prems(1) [of c] by auto
  moreover have "hseg s' (NextOf x) xs = hseg s (NextOf x) xs"
    by (rule Cons.IH) (use Cons.prems in auto)
  ultimately show ?case using Cons.prems(2) [of x] by auto
qed simp

lemma end_slot_First: "end_slot (First h) xs = First h \<longleftrightarrow> xs = []"
  "First h' \<noteq> First h \<Longrightarrow> end_slot (First h) xs \<noteq> First h'"
  by (auto simp: end_slot_def)

lemma end_slot_outside: "x \<notin> set xs \<Longrightarrow> end_slot (First h) xs \<noteq> NextOf x"
  by (auto simp: end_slot_def dest: last_in_set)

lemma hlist_split:
  "hlist s h (xs @ ys) \<longleftrightarrow> hseg s (First h) xs \<and> hchain s (end_slot (First h) xs) ys \<and> distinct (xs @ ys) \<and> HNULL \<notin> set (xs @ ys)"
  by (auto simp: hlist_def hchain_append)

lemma raw_hlist_del_hlist:
  assumes "hlist s h (xs @ n # ys)"
  shows "hlist (raw_hlist_del n s) h (xs @ ys)"
proof -
  let ?c = "end_slot (First h) xs" and ?s = "raw_hlist_del n s"
  have A: "hseg s (First h) xs" "hcell s ?c = n" "hpprev s n = ?c" "hchain s (NextOf n) ys"
    "distinct (xs @ n # ys)" "HNULL \<notin> set (xs @ n # ys)"
    using assms by (auto simp: hlist_split)
  have nxt: "hcell s (NextOf n) = (case ys of [] \<Rightarrow> HNULL | y # _ \<Rightarrow> y)"
    using A(4) by (cases ys) auto
  have c: "?c \<noteq> NextOf y" if "y \<in> set ys" for y
    using that A(5) by (intro end_slot_outside) auto
  have "hseg ?s (First h) xs = hseg s (First h) xs"
    using A(3,5,6) nxt by (intro hseg_cong) (auto simp: raw_hlist_del_def Let_def split: list.splits)
  moreover have "hchain ?s ?c ys"
  proof (cases ys)
    case Nil
    then show ?thesis using A(3) nxt by (simp add: raw_hlist_del_def)
  next
    case (Cons y ys')
    have "hchain ?s (NextOf y) ys' = hchain s (NextOf y) ys'"
      using A(3,5) nxt c Cons by (intro hchain_cong) (auto simp: raw_hlist_del_def Let_def)
    then show ?thesis using A nxt Cons c [of y] by (auto simp: raw_hlist_del_def Let_def)
  qed
  ultimately show ?thesis using A by (simp add: hlist_split)
qed

lemma hlist_cong:
  assumes "hcell s' (First h) = hcell s (First h)"
    "\<And>x. x \<in> set xs \<Longrightarrow> hcell s' (NextOf x) = hcell s (NextOf x) \<and> hpprev s' x = hpprev s x"
  shows "hlist s' h xs = hlist s h xs"
  using assms hchain_cong [of "First h" xs s' s] by (auto simp: hlist_def)

text \<open>What is written to a node that is not on the list does not matter to it.\<close>

lemma hlist_node_frame:
  "n \<notin> set xs \<Longrightarrow> hlist (set_cell (NextOf n) v s) h xs = hlist s h xs"
  "n \<notin> set xs \<Longrightarrow> hlist (set_pprev n c s) h xs = hlist s h xs"
  by (auto intro!: hlist_cong)

lemma hlist_del_hlist:
  assumes "hlist s h (xs @ n # ys)"
  shows "hlist (hlist_del n s) h (xs @ ys)" "hlist (hlist_del_init n s) h (xs @ ys)"
    "hlist_unhashed n (hlist_del_init n s)"
proof -
  have n: "n \<notin> set (xs @ ys)" "hpprev s n \<noteq> SNULL"
    using assms by (auto simp: hlist_split end_slot_def)
  show "hlist (hlist_del n s) h (xs @ ys)" "hlist (hlist_del_init n s) h (xs @ ys)" "hlist_unhashed n (hlist_del_init n s)"
    using raw_hlist_del_hlist [OF assms] n
    by (simp_all add: hlist_del_def hlist_del_init_def hlist_unhashed_def INIT_HLIST_NODE_def hlist_node_frame del: set_append)
qed

lemma hlist_add_head_hlist:
  assumes "hlist s h xs" "n \<notin> set xs" "n \<noteq> HNULL"
  shows "hlist (hlist_add_head n h s) h (n # xs)"
proof (cases xs)
  case Nil
  then show ?thesis using assms by (simp add: hlist_def hlist_add_head_def Let_def)
next
  case (Cons x ys)
  have "hchain (hlist_add_head n h s) (NextOf x) ys = hchain s (NextOf x) ys"
    using assms Cons by (intro hchain_cong) (auto simp: hlist_add_head_def Let_def hlist_def)
  then show ?thesis using assms Cons by (auto simp: hlist_def hlist_add_head_def Let_def)
qed

lemma hlist_add_before_hlist:
  assumes "hlist s h (xs @ y # ys)" "n \<notin> set (xs @ y # ys)" "n \<noteq> HNULL"
  shows "hlist (hlist_add_before n y s) h (xs @ n # y # ys)"
proof -
  let ?c = "end_slot (First h) xs" and ?s = "hlist_add_before n y s"
  have A: "hseg s (First h) xs" "hcell s ?c = y" "hpprev s y = ?c" "hchain s (NextOf y) ys"
    "distinct (xs @ y # ys)" "HNULL \<notin> set (xs @ y # ys)"
    using assms by (auto simp: hlist_split)
  have c: "?c \<noteq> NextOf z" if "z \<in> set (n # y # ys)" for z
    using that A(5) assms(2) by (intro end_slot_outside) auto
  have "hseg ?s (First h) xs = hseg s (First h) xs"
    using A(3,5,6) assms(2) by (intro hseg_cong) (auto simp: hlist_add_before_def Let_def)
  moreover have "hchain ?s (NextOf y) ys = hchain s (NextOf y) ys"
    using A(3,5) assms(2) c [THEN not_sym] by (intro hchain_cong) (auto simp: hlist_add_before_def Let_def)
  ultimately show ?thesis
    using A assms(2,3) c [of n] c [of y] by (auto simp: hlist_split hlist_add_before_def Let_def)
qed

lemma hlist_add_behind_hlist:
  assumes "hlist s h (xs @ y # ys)" "n \<notin> set (xs @ y # ys)" "n \<noteq> HNULL"
  shows "hlist (hlist_add_behind n y s) h (xs @ y # n # ys)"
proof -
  let ?c = "end_slot (First h) xs" and ?s = "hlist_add_behind n y s"
  have A: "hseg s (First h) xs" "hcell s ?c = y" "hpprev s y = ?c" "hchain s (NextOf y) ys"
    "distinct (xs @ y # ys)" "HNULL \<notin> set (xs @ y # ys)"
    using assms by (auto simp: hlist_split)
  have nxt: "hcell s (NextOf y) = (case ys of [] \<Rightarrow> HNULL | z # _ \<Rightarrow> z)"
    using A(4) by (cases ys) auto
  have c: "?c \<noteq> NextOf z" if "z \<in> set (n # y # ys)" for z
    using that A(5) assms(2) by (intro end_slot_outside) auto
  have "hseg ?s (First h) xs = hseg s (First h) xs"
    using A(5,6) assms(2) nxt by (intro hseg_cong) (auto simp: hlist_add_behind_def Let_def split: list.splits)
  moreover have "hchain ?s (NextOf n) ys"
  proof (cases ys)
    case Nil
    then show ?thesis using nxt assms(2) by (auto simp: hlist_add_behind_def Let_def)
  next
    case (Cons z zs)
    have "hchain ?s (NextOf z) zs = hchain s (NextOf z) zs"
      using A(5) assms(2) nxt Cons by (intro hchain_cong) (auto simp: hlist_add_behind_def Let_def)
    then show ?thesis using A assms(2) nxt Cons by (auto simp: hlist_add_behind_def Let_def)
  qed
  moreover have "hcell ?s ?c = y" "hpprev ?s y = ?c" "hcell ?s (NextOf y) = n" "hpprev ?s n = NextOf y"
    using A assms(2,3) c [of n] c [of y] nxt by (auto simp: hlist_add_behind_def Let_def split: list.splits)
  ultimately show ?thesis
    using A assms(2,3) by (auto simp: hlist_split)
qed

lemma hlist_move_list_hlist:
  assumes "hlist s old xs" "old \<noteq> new"
  shows "hlist (hlist_move_list old new s) new xs" "hlist (hlist_move_list old new s) old []"
proof -
  show "hlist (hlist_move_list old new s) old []" by (simp add: hlist_def hlist_move_list_def Let_def)
  show "hlist (hlist_move_list old new s) new xs"
  proof (cases xs)
    case Nil
    then show ?thesis using assms by (simp add: hlist_def hlist_move_list_def Let_def)
  next
    case (Cons x ys)
    have "hchain (hlist_move_list old new s) (NextOf x) ys = hchain s (NextOf x) ys"
      using assms Cons by (intro hchain_cong) (auto simp: hlist_move_list_def Let_def hlist_def)
    then show ?thesis using assms Cons by (auto simp: hlist_def hlist_move_list_def Let_def)
  qed
qed

lemma hlist_splice_init_hlist:
  fixes s :: "('a, 'b) hstore"
  assumes "hlist s from xs" "hlist s to ys" "from \<noteq> to" "xs \<noteq> []" "set xs \<inter> set ys = {}"
  shows "hlist (hlist_splice_init from (last xs) to s) to (xs @ ys)" "hlist (hlist_splice_init from (last xs) to s) from []"
proof -
  let ?s = "hlist_splice_init from (last xs) to s"
  obtain x xs' where x: "xs = x # xs'" using assms(4) by (cases xs) auto
  have l: "last xs \<in> set xs" using assms(4) by simp
  have ty: "hcell s (First to) = (case ys of [] \<Rightarrow> HNULL | y # _ \<Rightarrow> y)"
    using assms(2) by (cases ys) (auto simp: hlist_def)
  have fx: "hcell s (First from) = x" using assms(1) x by (simp add: hlist_def)
  show "hlist ?s from []" using assms(3) by (simp add: hlist_def hlist_splice_init_def Let_def)
  have nn: "HNULL \<notin> set xs" "HNULL \<notin> set ys" "distinct xs" "distinct ys"
    using assms by (simp_all add: hlist_def)
  have "hseg s (NextOf x) xs'"
    using assms(1) x hchain_append [of s "NextOf x" xs' "[]"] by (simp add: hlist_def)
  moreover have "hseg ?s (NextOf x) xs' = hseg s (NextOf x) xs'"
  proof (rule hseg_cong)
    fix d :: "('a, 'b) hslot" assume "d \<noteq> end_slot (NextOf x) xs'" "d \<in> insert (NextOf x) (NextOf ` set xs')"
    moreover have "end_slot (NextOf x :: ('a, 'b) hslot) xs' = NextOf (last xs)" by (simp add: end_slot_def x)
    ultimately show "hcell ?s d = hcell s d" by (auto simp: hlist_splice_init_def Let_def)
  next
    fix y assume "y \<in> set xs'"
    then show "hpprev ?s y = hpprev s y"
      using nn x fx ty assms(3,5) by (auto simp: hlist_splice_init_def Let_def split: list.splits)
  qed (use nn x in auto)
  moreover have "hcell ?s (First to) = x" "hpprev ?s x = First to"
    using assms(3) fx by (auto simp: hlist_splice_init_def Let_def)
  ultimately have xs: "hseg ?s (First to) xs" by (simp add: x)
  have "hchain ?s (NextOf (last xs)) ys"
  proof (cases ys)
    case Nil
    then show ?thesis using ty assms(3) by (auto simp: hlist_splice_init_def Let_def)
  next
    case (Cons y ys')
    have "y \<noteq> x" "last xs \<notin> set ys" using assms(5) Cons x l by auto
    moreover have "hchain ?s (NextOf y) ys' = hchain s (NextOf y) ys'"
      using nn Cons calculation fx ty assms(5) x
      by (intro hchain_cong) (auto simp: hlist_splice_init_def Let_def)
    ultimately show ?thesis
      using assms(2,3) Cons ty fx nn by (auto simp: hlist_def hlist_splice_init_def Let_def)
  qed
  then show "hlist ?s to (xs @ ys)"
    using xs nn assms(4,5) by (simp add: hlist_split end_slot_def)
qed

lemma hlist_for_each_chain:
  "hchain s c xs \<Longrightarrow> HNULL \<notin> set xs \<Longrightarrow> hlist_for_each (hcell s c) vs s = Some (rev vs @ xs)"
proof (induction xs arbitrary: c vs)
  case Nil
  then show ?case by (subst hlist_for_each.simps) simp
next
  case (Cons x xs)
  then show ?case using Cons.IH [of "NextOf x" "x # vs"] by (subst hlist_for_each.simps) auto
qed

lemma hlist_count_nodes_hlist: "hlist s h xs \<Longrightarrow> hlist_count_nodes h s = Some (length xs)"
  using hlist_for_each_chain [of s "First h" xs "[]"] by (simp add: hlist_count_nodes_def hlist_def)

lemma hlist_empty_hlist: "hlist s h xs \<Longrightarrow> hlist_empty h s \<longleftrightarrow> xs = []"
  by (cases xs) (auto simp: hlist_def hlist_empty_def)

lemma hlist_is_singular_node_hlist:
  assumes "hlist s h xs" "n \<in> set xs"
  shows "hlist_is_singular_node n h s \<longleftrightarrow> xs = [n]"
proof -
  obtain as bs where xs: "xs = as @ n # bs" using assms(2) by (meson split_list)
  have "hcell s (NextOf n) = HNULL \<longleftrightarrow> bs = []" "hpprev s n = First h \<longleftrightarrow> as = []"
    using assms(1) unfolding xs hlist_split by (cases bs; auto simp: end_slot_def)+
  then show ?thesis
    unfolding hlist_is_singular_node_def xs by (cases as) auto
qed

text \<open>C35: every way to change a single-pointer-head list has the effect of the list operation it is named after:
  a new node goes in front of the list, before or behind a given entry; a removed entry leaves the others in
  order and is unhashed; the count is the number of entries.\<close>

theorem hlist_operations:
  assumes "hlist s h (xs @ y # ys)" "n \<notin> set (xs @ y # ys)" "n \<noteq> HNULL"
  shows "hlist (hlist_add_head n h s) h (n # xs @ y # ys) \<and>
    hlist (hlist_add_before n y s) h (xs @ n # y # ys) \<and>
    hlist (hlist_add_behind n y s) h (xs @ y # n # ys) \<and>
    hlist (hlist_del_init y s) h (xs @ ys) \<and> hlist_unhashed y (hlist_del_init y s) \<and>
    hlist_count_nodes h s = Some (length xs + 1 + length ys)"
  using hlist_add_head_hlist [OF assms] hlist_add_before_hlist [OF assms] hlist_add_behind_hlist [OF assms]
    hlist_del_hlist [OF assms(1)] hlist_count_nodes_hlist [OF assms(1)] by simp

definition one_node :: "(unit, char) hstore" where
  "one_node = hlist_add_head (HNode CHR ''a'') () (INIT_HLIST_HEAD () \<lparr>hcell = (\<lambda>_. HPOISON1), hpprev = (\<lambda>_. SPOISON2)\<rparr>)"

theorem hlist_operations_witness:
  "hlist (hlist_add_behind (HNode CHR ''b'') (HNode CHR ''a'') one_node) () [HNode CHR ''a'', HNode CHR ''b''] \<and>
   hlist_count_nodes () one_node = Some 1"
proof -
  have "hlist (INIT_HLIST_HEAD () s) () []" for s :: "(unit, char) hstore"
    by (simp add: hlist_def INIT_HLIST_HEAD_def)
  then have "hlist one_node () ([] @ HNode CHR ''a'' # [])"
    by (simp add: one_node_def hlist_add_head_hlist)
  from hlist_operations [OF this, of "HNode CHR ''b''"] show ?thesis by simp
qed

end
