(* ===== verification/Kheap.thy ===== *)
theory Kheap
  imports Prelude
begin

text \<open>
  The kernel's placement allocator, \<^verbatim>\<open>mm/kheap.c\<close>.  It only ever moves the global
  \<^verbatim>\<open>placement_address\<close> upwards; nothing is freed.  Each function takes the placement
  address and returns its result together with the new placement address.  The code is
  compiled for both architectures, so the definitions are generic in the width of
  \<^verbatim>\<open>virt_addr_t\<close>.  \<^verbatim>\<open>kmalloc_az\<close>, which also clears the block, is defined
  with the memory of each architecture.
\<close>

section \<open>Operations\<close>

text \<open>The alignment both \<^verbatim>\<open>kmalloc_a\<close> and \<^verbatim>\<open>kmalloc_ap\<close> start with.\<close>

definition page_align_up :: "'a::len word \<Rightarrow> 'a word" where
  "page_align_up p = (if p AND 0xFFF \<noteq> 0 then (p AND NOT 0xFFF) + 0x1000 else p)"

definition kmalloc :: "u32 \<Rightarrow> 'a::len word \<Rightarrow> 'a word \<times> 'a word" where
  "kmalloc sz placement = (placement, placement + ucast sz)"

definition kmalloc_a :: "u32 \<Rightarrow> 'a::len word \<Rightarrow> 'a word \<times> 'a word" where
  "kmalloc_a sz placement =
     (let placement' = page_align_up placement in (placement', placement' + ucast sz))"

text \<open>\<^verbatim>\<open>kmalloc_p\<close> and \<^verbatim>\<open>kmalloc_ap\<close> also return the value stored through \<^verbatim>\<open>phys\<close>.\<close>

definition kmalloc_p :: "u32 \<Rightarrow> 'a::len word \<Rightarrow> 'a word \<times> 'a word \<times> 'a word" where
  "kmalloc_p sz placement =
     (let phys = placement; (ret, placement') = kmalloc sz placement in (ret, phys, placement'))"

definition kmalloc_ap :: "u32 \<Rightarrow> 'a::len word \<Rightarrow> 'a word \<times> 'a word \<times> 'a word" where
  "kmalloc_ap sz placement =
     (let placement1 = page_align_up placement;
          phys = placement1;
          (ret, placement') = kmalloc sz placement1
      in (ret, phys, placement'))"

text \<open>A request to the allocator, and the requests of a run served one after the other: the
  addresses returned, and the final placement address.\<close>

datatype kreq = Req_kmalloc u32 | Req_kmalloc_a u32 | Req_kmalloc_p u32 | Req_kmalloc_ap u32

fun kserve :: "kreq \<Rightarrow> 'a::len word \<Rightarrow> 'a word \<times> 'a word" where
  "kserve (Req_kmalloc sz) p = kmalloc sz p"
| "kserve (Req_kmalloc_a sz) p = kmalloc_a sz p"
| "kserve (Req_kmalloc_p sz) p = (let (ret, _, p') = kmalloc_p sz p in (ret, p'))"
| "kserve (Req_kmalloc_ap sz) p = (let (ret, _, p') = kmalloc_ap sz p in (ret, p'))"

fun kreq_size :: "kreq \<Rightarrow> nat" where
  "kreq_size (Req_kmalloc sz) = unat sz"
| "kreq_size (Req_kmalloc_a sz) = unat sz"
| "kreq_size (Req_kmalloc_p sz) = unat sz"
| "kreq_size (Req_kmalloc_ap sz) = unat sz"

primrec serve_all :: "('r \<Rightarrow> 'w \<Rightarrow> 'w \<times> 'w) \<Rightarrow> 'r list \<Rightarrow> 'w \<Rightarrow> 'w list \<times> 'w" where
  "serve_all alloc [] p = ([], p)"
| "serve_all alloc (r # rs) p =
     (let (a, p1) = alloc r p; (as, p2) = serve_all alloc rs p1 in (a # as, p2))"

section \<open>Alignment\<close>

lemma mod_4096_cases:
  "(n + 4095) div 4096 * 4096 = (if n mod 4096 = 0 then n else n - n mod 4096 + 4096)" for n :: nat
proof -
  obtain q r where n: "n = 4096 * q + r" "r < 4096"
    by (rule that [of "n div 4096" "n mod 4096"]) simp_all
  then have "(n + 4095) div 4096 = (if r = 0 then q else q + 1)"
    by (auto intro!: div_nat_eqI)
  then show ?thesis
    using n by simp
qed

lemma unat_page_align_up:
  fixes p :: "'a::len word"
  assumes "12 < LENGTH('a)" "unat p + 4095 < 2 ^ LENGTH('a)"
  shows "unat (page_align_up p) = (unat p + 4095) div 4096 * 4096"
proof -
  have z: "p AND 0xFFF = 0 \<longleftrightarrow> unat p mod 4096 = 0"
    using unat_and_mask [of p 12] by (simp add: mask12 unat_eq_0 [symmetric] del: unat_eq_0)
  have "(2::nat) ^ 13 \<le> 2 ^ LENGTH('a)"
    using assms(1) by (intro power_increasing) auto
  then have c: "unat (0x1000 :: 'a word) = 4096"
    by (simp add: unsigned_numeral take_bit_eq_mod)
  have "unat ((p AND NOT 0xFFF) + 0x1000) = unat p - unat p mod 4096 + 4096"
    if "unat p mod 4096 \<noteq> 0"
    using that assms(2) by (subst unat_plus_simple) (simp_all only: mask12 unat_and_not_mask c, simp_all)
  then show ?thesis
    unfolding page_align_up_def mod_4096_cases z by auto
qed

lemma page_align_up_aligned:
  fixes p :: "'a::len word"
  assumes "12 < LENGTH('a)" "unat p + 4095 < 2 ^ LENGTH('a)"
  shows "unat (page_align_up p) mod 4096 = 0" "unat p \<le> unat (page_align_up p)"
    "unat (page_align_up p) < unat p + 4096"
  using unat_page_align_up [OF assms] by simp_all

section \<open>Disjointness of the blocks\<close>

text \<open>What the clients of a placement allocator rely on: a block starts at or after the
  placement address, skips less than a page, and the placement address moves to its end.\<close>

locale bump_allocator =
  fixes alloc :: "'r \<Rightarrow> 'a::len word \<Rightarrow> 'a word \<times> 'a word"
    and req_size :: "'r \<Rightarrow> nat"
  assumes alloc_block:
    "unat p + 4095 + req_size r < 2 ^ LENGTH('a) \<Longrightarrow>
       unat p \<le> unat (fst (alloc r p)) \<and> unat (fst (alloc r p)) \<le> unat p + 4095 \<and>
       unat (snd (alloc r p)) = unat (fst (alloc r p)) + req_size r"
begin

lemma run_bounds:
  assumes "serve_all alloc rs p = (as, p')"
    and "unat p + (\<Sum>r\<leftarrow>rs. 4095 + req_size r) < 2 ^ LENGTH('a)"
  shows "length as = length rs" (is ?L) "unat p \<le> unat p'" (is ?P)
    "\<And>i. i < length rs \<Longrightarrow> unat p \<le> unat (as ! i) \<and> unat (as ! i) + req_size (rs ! i) \<le> unat p'"
proof -
  have "length as = length rs \<and> unat p \<le> unat p' \<and> (\<forall>i < length rs. unat p \<le> unat (as ! i) \<and>
          unat (as ! i) + req_size (rs ! i) \<le> unat p')"
    using assms
  proof (induction rs arbitrary: p as)
    case (Cons r rs)
    obtain a p1 bs where a: "alloc r p = (a, p1)" and bs: "serve_all alloc rs p1 = (bs, p')"
      and as: "as = a # bs"
      using Cons.prems(1) by (auto split: prod.splits)
    have 1: "unat p \<le> unat a" "unat a \<le> unat p + 4095" "unat p1 = unat a + req_size r"
      using alloc_block [of p r] Cons.prems(2) a by auto
    have ih: "length bs = length rs \<and> unat p1 \<le> unat p' \<and> (\<forall>i < length rs. unat p1 \<le> unat (bs ! i) \<and>
          unat (bs ! i) + req_size (rs ! i) \<le> unat p')"
      using Cons.prems(2) 1 by (intro Cons.IH bs) simp
    then show ?case
      using 1 as by (auto simp: nth_Cons split: nat.split)
  qed simp
  then show ?L ?P "\<And>i. i < length rs \<Longrightarrow> unat p \<le> unat (as ! i) \<and>
      unat (as ! i) + req_size (rs ! i) \<le> unat p'"
    by auto
qed

lemma run_disjoint:
  assumes "serve_all alloc rs p = (as, p')"
    and "unat p + (\<Sum>r\<leftarrow>rs. 4095 + req_size r) < 2 ^ LENGTH('a)"
    and "i < j" "j < length rs"
  shows "unat (as ! i) + req_size (rs ! i) \<le> unat (as ! j)"
  using assms
proof (induction rs arbitrary: p as i j)
  case (Cons r rs)
  obtain a p1 bs where a: "alloc r p = (a, p1)" and bs: "serve_all alloc rs p1 = (bs, p')"
    and as: "as = a # bs"
    using Cons.prems(1) by (auto split: prod.splits)
  have 1: "unat a \<le> unat p + 4095" "unat p1 = unat a + req_size r"
    using alloc_block [of p r] Cons.prems(2) a by auto
  have sum: "unat p1 + (\<Sum>r\<leftarrow>rs. 4095 + req_size r) < 2 ^ LENGTH('a)"
    using Cons.prems(2) 1 by simp
  obtain j' where j: "j = Suc j'"
    using Cons.prems(3) by (cases j) auto
  show ?case
  proof (cases i)
    case 0
    then show ?thesis
      using run_bounds(3) [OF bs sum, of j'] Cons.prems(4) 1 j as by simp
  next
    case (Suc i')
    then show ?thesis
      using Cons.IH [OF bs sum, of i' j'] Cons.prems(3,4) j as by simp
  qed
qed simp

end

lemma kserve_block:
  fixes p :: "'a::len word"
  assumes "12 < LENGTH('a)" "32 \<le> LENGTH('a)" "unat p + 4095 + kreq_size r < 2 ^ LENGTH('a)"
  shows "unat p \<le> unat (fst (kserve r p)) \<and> unat (fst (kserve r p)) \<le> unat p + 4095 \<and>
         unat (snd (kserve r p)) = unat (fst (kserve r p)) + kreq_size r"
proof -
  have al: "unat p \<le> unat (page_align_up p)" "unat (page_align_up p) \<le> unat p + 4095"
    using page_align_up_aligned [of p] assms by auto
  have uc: "unat (ucast sz :: 'a word) = unat sz" for sz :: u32
    using assms(2) by (simp add: unat_ucast_up)
  show ?thesis
    using al assms(3)
    by (cases r) (auto simp: kmalloc_def kmalloc_a_def kmalloc_p_def kmalloc_ap_def Let_def uc
        unat_plus_simple)
qed

interpretation kheap64: bump_allocator "kserve :: kreq \<Rightarrow> u64 \<Rightarrow> u64 \<times> u64" kreq_size
  by unfold_locales (rule kserve_block, simp_all)

interpretation kheap32: bump_allocator "kserve :: kreq \<Rightarrow> u32 \<Rightarrow> u32 \<times> u32" kreq_size
  by unfold_locales (rule kserve_block, simp_all)

end
