(* ===== verification/Irq.thy ===== *)
theory Irq
  imports Prelude "HOL-Library.Monad_Syntax"
begin

text \<open>
  Interrupt masking (\<^verbatim>\<open>arch/x86_64/irqflags.c\<close>, \<^verbatim>\<open>arch/i386/irqflags.c\<close>) and the spin lock of
  \<^verbatim>\<open>kernel/scheduler/lock.c\<close>.  The masking functions work on the flags register and are generic in
  its width; each returns its result, if any, and the new flags register.
\<close>

section \<open>Flags\<close>

definition FL_IF :: "'a::len word" where "FL_IF = 0x200"

definition read_flags :: "'a::len word \<Rightarrow> 'a word" where "read_flags r = r"

definition cli :: "'a::len word \<Rightarrow> 'a word" where "cli r = r AND NOT FL_IF"

definition sti :: "'a::len word \<Rightarrow> 'a word" where "sti r = r OR FL_IF"

definition irq_save :: "'a::len word \<Rightarrow> 'a word \<times> 'a word" where
  "irq_save r = (let flags = read_flags r AND FL_IF in (flags, cli r))"

definition irq_restore :: "'a::len word \<Rightarrow> 'a word \<Rightarrow> 'a word" where
  "irq_restore flags r = (if flags AND FL_IF \<noteq> 0 then sti r else r)"

definition irqs_on :: "'a::len word \<Rightarrow> bool" where "irqs_on r \<longleftrightarrow> r AND FL_IF \<noteq> 0"

section \<open>Spin lock\<close>

text \<open>\<^verbatim>\<open>atomic_flag_test_and_set\<close>: the previous state and the new one.\<close>

definition test_and_set :: "bool \<Rightarrow> bool \<times> bool" where "test_and_set lock = (lock, True)"

text \<open>The loop of \<^verbatim>\<open>spinlock\<close>, as it runs when nobody else releases the lock meanwhile (one CPU,
  interrupts off); None is a loop that does not end.\<close>

partial_function (option) spinlock :: "bool \<Rightarrow> bool option" where
  "spinlock lock = (let (old, lock') = test_and_set lock in if old then spinlock lock' else Some lock')"

definition release :: "bool \<Rightarrow> bool" where "release lock = False"

section \<open>Facts\<close>

lemma FL_IF_exp: "FL_IF = 2 ^ 9"
  by (simp add: FL_IF_def)

lemma irqs_on_bit: "irqs_on r \<longleftrightarrow> bit r 9"
  unfolding irqs_on_def FL_IF_exp by (simp only: and_exp_eq_0_iff_not_bit) simp

lemma irqs_on_cli [simp]: "\<not> irqs_on (cli r)"
  by (simp add: irqs_on_def cli_def and.assoc)

lemma irqs_on_sti [simp]: "9 < LENGTH('a) \<Longrightarrow> irqs_on (sti r :: 'a::len word)"
  unfolding irqs_on_bit sti_def FL_IF_exp by (simp only: bit_or_iff bit_exp_iff) simp

lemma irq_save_simps [simp]:
  "fst (irq_save r) = r AND FL_IF" "snd (irq_save r) = cli r"
  by (simp_all add: irq_save_def read_flags_def)

lemma irq_save_restore_on:
  fixes r r' :: "'a::len word"
  assumes "9 < LENGTH('a)"
  shows "irqs_on (irq_restore (fst (irq_save r)) r') \<longleftrightarrow> irqs_on r \<or> irqs_on r'"
  using assms by (auto simp: irq_restore_def irqs_on_def [symmetric] and.assoc)

lemma spinlock_free: "spinlock False = Some True"
  by (subst spinlock.simps) (simp add: test_and_set_def)

lemma spinlock_held: "spinlock True = None"
proof (rule ccontr)
  assume "spinlock True \<noteq> None"
  then obtain y where "spinlock True = Some y" by auto
  then have "\<not> True"
    by (rule spinlock.raw_induct [rotated]) (auto simp: test_and_set_def split: if_splits)
  then show False by simp
qed

end
