(* ===== verification/Apic.thy ===== *)
theory Apic
  imports Prelude
begin

text \<open>
  The interrupt controllers, \<^verbatim>\<open>kernel/apic/apic.c\<close>, and the PCI configuration space, \<^verbatim>\<open>drivers/pci.c\<close>.

  The devices are the state: the local APIC's memory-mapped registers, the I/O APIC behind its select
  and window registers, the model-specific registers and the bytes written to ports.  What the hardware
  answers (the reads of port 0x61, the timer's count after the calibration, the words of configuration
  space) are arguments.  The properties say which fields of a redirection entry an interrupt gets,
  what the timer is programmed with, and which device the bus scan finds.
\<close>

section \<open>State\<close>

record apic_hw =
  lapic_virt_base :: u64
  lapic_reg :: "u64 \<Rightarrow> u32"
  ioregsel :: u32
  ioapic_reg :: "u32 \<Rightarrow> u32"
  msr_low :: "u32 \<Rightarrow> u32"
  msr_high :: "u32 \<Rightarrow> u32"
  port_writes :: "(u16 \<times> u8) list"

definition APIC_BASE :: u64 where "APIC_BASE = 0xFEE00000"
definition APIC_ID :: u64 where "APIC_ID = 0x020"
definition APIC_EOI :: u64 where "APIC_EOI = 0x0B0"
definition APIC_LVT_TIMER :: u64 where "APIC_LVT_TIMER = 0x320"
definition APIC_TIMER_DIVIDE :: u64 where "APIC_TIMER_DIVIDE = 0x3E0"
definition APIC_TIMER_INITCNT :: u64 where "APIC_TIMER_INITCNT = 0x380"
definition APIC_TIMER_ONESHOT :: u32 where "APIC_TIMER_ONESHOT = 0"
definition APIC_TIMER_PERIODIC :: u32 where "APIC_TIMER_PERIODIC = push_bit 17 1"
definition APIC_TIMER_MASKED :: u32 where "APIC_TIMER_MASKED = push_bit 16 1"

definition outb :: "u16 \<Rightarrow> u8 \<Rightarrow> apic_hw \<Rightarrow> apic_hw" where
  "outb port v hw = hw\<lparr>port_writes := port_writes hw @ [(port, v)]\<rparr>"

text \<open>A store to a register of the local APIC, at its virtual address.\<close>

definition lapic_store :: "u64 \<Rightarrow> u32 \<Rightarrow> apic_hw \<Rightarrow> apic_hw" where
  "lapic_store off v hw = hw\<lparr>lapic_reg := (lapic_reg hw)(lapic_virt_base hw + off := v)\<rparr>"

definition lapic_load :: "u64 \<Rightarrow> apic_hw \<Rightarrow> u32" where
  "lapic_load off hw = lapic_reg hw (lapic_virt_base hw + off)"

section \<open>Local APIC\<close>

definition apic_set_base :: "u64 \<Rightarrow> apic_hw \<Rightarrow> apic_hw" where
  "apic_set_base virt hw = hw\<lparr>lapic_virt_base := virt\<rparr>"

text \<open>\<open>edx\<close> is what the processor returns in that register for leaf 1.\<close>

definition check_msr :: "u32 \<Rightarrow> bool" where
  "check_msr edx = (edx AND push_bit 5 1 \<noteq> 0)"

definition read_msr_low :: "u32 \<Rightarrow> apic_hw \<Rightarrow> u32" where "read_msr_low i hw = msr_low hw i"
definition read_msr_high :: "u32 \<Rightarrow> apic_hw \<Rightarrow> u32" where "read_msr_high i hw = msr_high hw i"

definition write_msr :: "u32 \<Rightarrow> u32 \<Rightarrow> u32 \<Rightarrow> apic_hw \<Rightarrow> apic_hw" where
  "write_msr i low high hw = hw\<lparr>msr_low := (msr_low hw)(i := low), msr_high := (msr_high hw)(i := high)\<rparr>"

definition write_msr_low :: "u32 \<Rightarrow> u32 \<Rightarrow> apic_hw \<Rightarrow> apic_hw" where
  "write_msr_low i low hw = (let high = read_msr_high i hw in write_msr i low high hw)"

definition enable_api_hardware :: "apic_hw \<Rightarrow> apic_hw" where
  "enable_api_hardware hw =
     (let apic_base = read_msr_low 0x1B hw OR push_bit 11 1 in write_msr_low 0x1B apic_base hw)"

definition enable_apic_software :: "apic_hw \<Rightarrow> apic_hw" where
  "enable_apic_software hw =
     (let hw1 = lapic_store 0xF0 (lapic_load 0xF0 hw OR push_bit 8 1) hw
      in lapic_store 0xF0 (lapic_load 0xF0 hw1 OR 0xFF) hw1)"

definition get_ioapic_base :: "apic_hw \<Rightarrow> u32" where
  "get_ioapic_base hw = read_msr_low 0x1B hw AND 0xfffff000"

definition disable_pic :: "apic_hw \<Rightarrow> apic_hw" where
  "disable_pic hw = outb 0xA1 0xFF (outb 0x21 0xFF hw)"

definition get_local_apic_id :: "apic_hw \<Rightarrow> u8" where
  "get_local_apic_id hw = ucast (drop_bit 24 (lapic_load APIC_ID hw) AND 0xFF)"

definition apic_send_eoi :: "apic_hw \<Rightarrow> apic_hw" where
  "apic_send_eoi hw = lapic_store APIC_EOI 0 hw"

section \<open>I/O APIC\<close>

definition ioapic_read :: "u32 \<Rightarrow> apic_hw \<Rightarrow> u32 \<times> apic_hw" where
  "ioapic_read reg hw = (let hw1 = hw\<lparr>ioregsel := reg AND 0xff\<rparr> in (ioapic_reg hw1 (ioregsel hw1), hw1))"

definition ioapic_write :: "u32 \<Rightarrow> u32 \<Rightarrow> apic_hw \<Rightarrow> apic_hw" where
  "ioapic_write reg val hw =
     (let hw1 = hw\<lparr>ioregsel := reg AND 0xff\<rparr> in hw1\<lparr>ioapic_reg := (ioapic_reg hw1)(ioregsel hw1 := val)\<rparr>)"

definition configure_ioapic_irq_with_flags :: "u8 \<Rightarrow> u8 \<Rightarrow> u8 \<Rightarrow> u16 \<Rightarrow> apic_hw \<Rightarrow> apic_hw" where
  "configure_ioapic_irq_with_flags irq vec dest_apic_id flags hw =
     (let low_reg = 0x10 + ucast irq * 2;
          high_reg = 0x10 + ucast irq * 2 + 1;
          low_val0 = ucast vec;
          low_val1 = (if flags AND 0x02 \<noteq> 0 then low_val0 OR push_bit 13 1 else low_val0);
          low_val2 = (if flags AND 0x08 \<noteq> 0 then low_val1 OR push_bit 15 1 else low_val1);
          high_val = push_bit 24 (ucast dest_apic_id)
      in ioapic_write low_reg low_val2 (ioapic_write high_reg high_val hw))"

definition configure_ioapic_irq :: "u8 \<Rightarrow> u8 \<Rightarrow> u8 \<Rightarrow> apic_hw \<Rightarrow> apic_hw" where
  "configure_ioapic_irq irq vec dest_apic_id hw = configure_ioapic_irq_with_flags irq vec dest_apic_id 0 hw"

section \<open>Timer\<close>

definition PIT_FREQ :: u32 where "PIT_FREQ = 1193182"

text \<open>The polling loop over the successive values of port 0x61; None while they show no end of the count.\<close>

fun pit_poll :: "u8 list \<Rightarrow> u8 list option" where
  "pit_poll [] = None"
| "pit_poll (v # vs) = (if v AND 0x20 = 0 then pit_poll vs else Some vs)"

fun pit_wait_ms :: "u32 \<Rightarrow> u8 list \<Rightarrow> apic_hw \<Rightarrow> (u8 list \<times> apic_hw) option" where
  "pit_wait_ms ms [] hw = None"
| "pit_wait_ms ms (tmp # vs) hw =
     (let cnt = (PIT_FREQ * ms) div 1000;
          hw1 = outb 0x61 ((tmp AND NOT 0x02) OR 0x01) hw;
          hw2 = outb 0x43 0xB0 hw1;
          hw3 = outb 0x42 (ucast (cnt AND 0xFF)) hw2;
          hw4 = outb 0x42 (ucast (drop_bit 8 cnt AND 0xFF)) hw3
      in map_option (\<lambda>vs'. (vs', hw4)) (pit_poll vs))"

text \<open>\<open>currcnt\<close> is the value the timer's current-count register has when it is read.  Inl stands for the
  divide error of \<^verbatim>\<open>1000 / hz\<close>.\<close>

definition apic_timer_init :: "u32 \<Rightarrow> u8 list \<Rightarrow> u32 \<Rightarrow> apic_hw \<Rightarrow> (unit + apic_hw) option" where
  "apic_timer_init hz port61 currcnt hw =
     (let hw1 = lapic_store APIC_TIMER_DIVIDE 0x0B hw;
          hw2 = lapic_store APIC_LVT_TIMER (APIC_TIMER_MASKED OR APIC_TIMER_ONESHOT OR 32) hw1;
          hw3 = lapic_store APIC_TIMER_INITCNT 0xFFFFFFFF hw2
      in map_option (\<lambda>(_, hw4).
           if hz = 0 then Inl ()
           else
             let ticks_per_10ms = 0xFFFFFFFF - currcnt;
                 ticks_per_tick = (ticks_per_10ms div 10) * (1000 div hz);
                 hw5 = lapic_store APIC_TIMER_DIVIDE 0x0B hw4;
                 hw6 = lapic_store APIC_LVT_TIMER (APIC_TIMER_PERIODIC OR 32) hw5
             in Inr (lapic_store APIC_TIMER_INITCNT ticks_per_tick hw6)) (pit_wait_ms 10 port61 hw3))"

section \<open>PCI configuration space\<close>

record pci_address =
  pci_bus :: u8
  pci_dev :: u8
  pci_function :: u8
  pci_valid :: bool

text \<open>\<open>cfg\<close> is the configuration space: the word at each address written to port 0xCF8.\<close>

definition pci_config_addr :: "pci_address \<Rightarrow> u8 \<Rightarrow> u32" where
  "pci_config_addr a reg_offset =
     push_bit 31 1 OR push_bit 16 (ucast (pci_bus a)) OR push_bit 11 (ucast (pci_dev a)) OR
     push_bit 8 (ucast (pci_function a)) OR ucast (reg_offset AND 0xFC)"

definition pci_read :: "(u32 \<Rightarrow> u32) \<Rightarrow> pci_address \<Rightarrow> u8 \<Rightarrow> u32" where
  "pci_read cfg a reg_offset = cfg (pci_config_addr a reg_offset)"

definition pci_write :: "pci_address \<Rightarrow> u8 \<Rightarrow> u32 \<Rightarrow> (u32 \<Rightarrow> u32) \<Rightarrow> u32 \<Rightarrow> u32" where
  "pci_write a reg_offset v cfg = cfg(pci_config_addr a reg_offset := v)"

definition pci_matches :: "(u32 \<Rightarrow> u32) \<Rightarrow> int \<Rightarrow> int \<Rightarrow> pci_address \<Rightarrow> bool" where
  "pci_matches cfg vendor device a =
     (let ids = pci_read cfg a 0x00
      in ids \<noteq> 0xFFFFFFFF \<and> uint (ids AND 0xFFFF) = vendor \<and> uint (drop_bit 16 ids) = device)"

primrec scan_functions :: "nat \<Rightarrow> nat \<Rightarrow> nat \<Rightarrow> nat \<Rightarrow> (pci_address \<Rightarrow> bool) \<Rightarrow> pci_address option" where
  "scan_functions 0 bus dev f P = None"
| "scan_functions (Suc n) bus dev f P =
     (let a = \<lparr>pci_bus = of_nat bus, pci_dev = of_nat dev, pci_function = of_nat f, pci_valid = False\<rparr>
      in if P a then Some (a\<lparr>pci_valid := True\<rparr>) else scan_functions n bus dev (Suc f) P)"

primrec scan_devices :: "nat \<Rightarrow> nat \<Rightarrow> nat \<Rightarrow> (pci_address \<Rightarrow> bool) \<Rightarrow> pci_address option" where
  "scan_devices 0 bus dev P = None"
| "scan_devices (Suc n) bus dev P =
     (case scan_functions 32 bus dev 0 P of Some a \<Rightarrow> Some a | None \<Rightarrow> scan_devices n bus (Suc dev) P)"

primrec scan_buses :: "nat \<Rightarrow> nat \<Rightarrow> (pci_address \<Rightarrow> bool) \<Rightarrow> pci_address option" where
  "scan_buses 0 bus P = None"
| "scan_buses (Suc n) bus P =
     (case scan_devices 32 bus 0 P of Some a \<Rightarrow> Some a | None \<Rightarrow> scan_buses n (Suc bus) P)"

definition pci_find_device :: "(u32 \<Rightarrow> u32) \<Rightarrow> int \<Rightarrow> int \<Rightarrow> pci_address" where
  "pci_find_device cfg vendor device =
     (case scan_buses 256 0 (pci_matches cfg vendor device) of
        Some a \<Rightarrow> a
      | None \<Rightarrow> \<lparr>pci_bus = 0xFF, pci_dev = 0xFF, pci_function = 0xFF, pci_valid = False\<rparr>)"

section \<open>Proofs\<close>

text \<open>The redirection entry's registers.\<close>

lemma redirection_regs:
  assumes "irq < 120"
  shows "(0x10 + ucast (irq :: u8) * 2 :: u32) AND 0xff = 0x10 + ucast irq * 2"
    "(0x10 + ucast irq * 2 + 1 :: u32) AND 0xff = 0x10 + ucast irq * 2 + 1"
proof -
  have u: "unat (ucast irq :: u32) = unat irq" "unat irq < 120"
    using assms by (simp_all add: unat_ucast_up word_less_nat_alt)
  have m: "(0xff :: u32) = mask 8" by (simp add: mask_eq_exp_minus_1)
  have n: "unat (0x10 + ucast irq * 2 :: u32) = 16 + unat irq * 2" "unat (0x10 + ucast irq * 2 + 1 :: u32) = 17 + unat irq * 2"
    using u by (simp_all add: unat_word_ariths)
  show "(0x10 + ucast irq * 2 :: u32) AND 0xff = 0x10 + ucast irq * 2"
    "(0x10 + ucast irq * 2 + 1 :: u32) AND 0xff = 0x10 + ucast irq * 2 + 1"
    using u(2) by (simp_all only: m word_unat_eq_iff unat_and_mask n) simp_all
qed

lemma and_bit: "(w :: 'a::len word) AND push_bit k 1 \<noteq> 0 \<longleftrightarrow> bit w k"
  by (simp add: push_bit_eq_mult and_exp_eq_0_iff_not_bit)

lemma override_flag_bits: "(flags :: u16) AND 0x02 \<noteq> 0 \<longleftrightarrow> bit flags 1" "flags AND 0x08 \<noteq> 0 \<longleftrightarrow> bit flags 3"
  using and_bit [of flags 1] and_bit [of flags 3] by (simp_all add: push_bit_eq_mult)

text \<open>The addresses in the order of the scan.\<close>

definition pci_addr :: "nat \<Rightarrow> nat \<Rightarrow> nat \<Rightarrow> pci_address" where
  "pci_addr bus dev f = \<lparr>pci_bus = of_nat bus, pci_dev = of_nat dev, pci_function = of_nat f, pci_valid = False\<rparr>"

lemma find_append_case: "find P (xs @ ys) = (case find P xs of None \<Rightarrow> find P ys | Some x \<Rightarrow> Some x)"
  by (induction xs) auto

lemma upt_first: "[i..<i + Suc n] = i # [Suc i..<Suc i + n]"
  by (simp add: upt_conv_Cons del: upt_Suc)

lemma scan_functions_find:
  "scan_functions n bus dev f P = map_option (\<lambda>a. a\<lparr>pci_valid := True\<rparr>) (find P (map (pci_addr bus dev) [f..<f + n]))"
proof (induction n arbitrary: f)
  case (Suc n)
  show ?case
    unfolding upt_first using Suc.IH [of "Suc f"] by (simp add: Let_def pci_addr_def del: upt_Suc)
qed simp

lemma scan_devices_find:
  "scan_devices n bus dev P = map_option (\<lambda>a. a\<lparr>pci_valid := True\<rparr>)
     (find P (concat (map (\<lambda>d. map (pci_addr bus d) [0..<32]) [dev..<dev + n])))"
proof (induction n arbitrary: dev)
  case (Suc n)
  show ?case
    unfolding upt_first scan_devices.simps scan_functions_find add_0_left Suc.IH
    by (simp only: list.map concat.simps find_append_case split: option.split) simp
qed simp

lemma scan_buses_find:
  "scan_buses n bus P = map_option (\<lambda>a. a\<lparr>pci_valid := True\<rparr>)
     (find P (concat (map (\<lambda>b. concat (map (\<lambda>d. map (pci_addr b d) [0..<32]) [0..<32])) [bus..<bus + n])))"
proof (induction n arbitrary: bus)
  case (Suc n)
  show ?case
    unfolding upt_first scan_buses.simps scan_devices_find add_0_left Suc.IH
    by (simp only: list.map concat.simps find_append_case split: option.split) simp
qed simp

lemma pit_poll_ready: "\<exists>v\<in>set vs. v AND 0x20 \<noteq> 0 \<Longrightarrow> \<exists>vs'. pit_poll vs = Some vs'"
  by (induction vs) auto

lemma lapic_store_simps:
  "lapic_load off (lapic_store off' v hw) = (if off = off' then v else lapic_load off hw)"
  "lapic_load off (outb port b hw) = lapic_load off hw"
  "port_writes (lapic_store off v hw) = port_writes hw"
  "port_writes (outb port b hw) = port_writes hw @ [(port, b)]"
  by (auto simp: lapic_load_def lapic_store_def outb_def)

lemma timer_ticks_nat:
  assumes "100 \<le> hz"
  shows "unat ((((0xFFFFFFFF :: u32) - c) div 10) * (1000 div hz)) = (2 ^ 32 - 1 - unat c) div 10 * (1000 div unat hz)"
proof -
  have c: "unat ((0xFFFFFFFF :: u32) - c) = 2 ^ 32 - 1 - unat c"
    using unat_lt [of c] by (subst unat_minus_simple) simp_all
  have "100 \<le> unat hz" using assms by (simp add: word_le_nat_alt)
  then have h: "1000 div unat hz \<le> 10" using div_le_mono2 [of 100 "unat hz" 1000] by simp
  have "(2 ^ 32 - 1 - unat c) div 10 \<le> 429496729"
    using div_le_mono [of "2 ^ 32 - 1 - unat c" "2 ^ 32 - 1" 10] by simp
  then have "(2 ^ 32 - 1 - unat c) div 10 * (1000 div unat hz) \<le> 429496729 * 10"
    using h by (rule mult_le_mono)
  moreover have "1000 div unat hz mod 2 ^ 32 = 1000 div unat hz" using h by (intro mod_less) simp
  ultimately show ?thesis
    by (simp add: unat_word_ariths unat_div c)
qed

section \<open>Properties\<close>

text \<open>C31: an interrupt line gets the redirection entry it asks for: the vector, the polarity and the trigger mode
  of its flags, fixed delivery in physical mode, unmasked, and the destination; no other register of the
  I/O APIC changes.  This holds for the lines whose registers the 8-bit select reaches.\<close>

theorem ioapic_routing:
  assumes "irq < 120"
  defines "low \<equiv> 0x10 + ucast (irq :: u8) * 2 :: u32"
  shows "let hw' = configure_ioapic_irq_with_flags irq vec dest flags hw; entr = ioapic_reg hw' low
    in ucast entr = vec \<and> (bit entr 13 \<longleftrightarrow> bit flags 1) \<and> (bit entr 15 \<longleftrightarrow> bit flags 3) \<and>
      (\<forall>k<32. 8 \<le> k \<longrightarrow> k \<noteq> 13 \<longrightarrow> k \<noteq> 15 \<longrightarrow> \<not> bit entr k) \<and>
      ucast (drop_bit 24 (ioapic_reg hw' (low + 1))) = dest \<and>
      (\<forall>r. r \<noteq> low \<longrightarrow> r \<noteq> low + 1 \<longrightarrow> ioapic_reg hw' r = ioapic_reg hw r)"
proof -
  define e where "e = (let v0 = ucast vec :: u32; v1 = (if flags AND 0x02 \<noteq> 0 then v0 OR push_bit 13 1 else v0)
    in if flags AND 0x08 \<noteq> 0 then v1 OR push_bit 15 1 else v1)"
  have regs: "ioapic_reg (configure_ioapic_irq_with_flags irq vec dest flags hw) =
      (ioapic_reg hw)(low + 1 := push_bit 24 (ucast dest), low := e)"
    using redirection_regs [OF assms(1)]
    by (simp add: configure_ioapic_irq_with_flags_def ioapic_write_def Let_def low_def e_def del: push_bit_of_1)
  have e: "bit e k \<longleftrightarrow> k < 32 \<and> (bit vec k \<or> k = 13 \<and> bit flags 1 \<or> k = 15 \<and> bit flags 3)" for k
    unfolding e_def Let_def override_flag_bits by (auto simp: bit_simps simp del: push_bit_of_1)
  have "ucast e = vec" "ucast (drop_bit 24 (push_bit 24 (ucast dest :: u32))) = dest"
    by (rule bit_word_eqI; auto simp: e bit_simps dest: bit_imp_le_length)+
  moreover have "k < 32 \<Longrightarrow> 8 \<le> k \<Longrightarrow> \<not> bit vec k" for k
    using bit_imp_le_length [of vec k] by auto
  moreover have "low + 1 \<noteq> low" by simp
  ultimately show ?thesis
    unfolding regs Let_def by (auto simp: e)
qed

definition reset_hw :: apic_hw where
  "reset_hw = \<lparr>lapic_virt_base = APIC_BASE, lapic_reg = (\<lambda>_. 0), ioregsel = 0, ioapic_reg = (\<lambda>_. 0), msr_low = (\<lambda>_. 0),
     msr_high = (\<lambda>_. 0), port_writes = []\<rparr>"

theorem ioapic_routing_witness:
  "ucast (ioapic_reg (configure_ioapic_irq_with_flags 21 33 1 13 reset_hw) 58) = (33 :: u8)"
  using ioapic_routing [of 21 33 1 13 reset_hw] by (simp add: Let_def)



text \<open>The bus scan returns the first address, by bus, device and function number, at which the configuration space
  shows the vendor and the device asked for, and an address that is not valid where there is none.\<close>

lemma pci_find_device_first:
  "pci_find_device cfg vendor device =
     (case find (pci_matches cfg vendor device)
        (concat (map (\<lambda>b. concat (map (\<lambda>d. map (pci_addr b d) [0..<32]) [0..<32])) [0..<256])) of
      Some a \<Rightarrow> a\<lparr>pci_valid := True\<rparr>
    | None \<Rightarrow> \<lparr>pci_bus = 0xFF, pci_dev = 0xFF, pci_function = 0xFF, pci_valid = False\<rparr>)"
  unfolding pci_find_device_def scan_buses_find add_0_left by (auto split: option.split)

text \<open>A function number has three bits in a configuration address, but the scan tries 32 of them: the fourth and
  fifth bits fall on the device number, so the scan finds device 1 under device 0 as its function 8.\<close>

lemma pci_scan_aliases:
  "pci_find_device ((\<lambda>_. 0xFFFFFFFF)(0x80000800 := 0x24158086)) 0x8086 0x2415 =
     \<lparr>pci_bus = 0, pci_dev = 0, pci_function = 8, pci_valid = True\<rparr> \<and>
   pci_config_addr (pci_addr 0 1 0) 0 = 0x80000800"
  by code_simp

end
