(* ===== verification/Mm.thy ===== *)
theory Mm
  imports Kheap
begin

text \<open>
  Kernel memory on x86-64: the address windows of \<^verbatim>\<open>mm/mm.c\<close>, access to memory through
  them, \<^verbatim>\<open>kmalloc_az\<close> of \<^verbatim>\<open>mm/kheap.c\<close>, and the control-register and TLB
  helpers of \<^verbatim>\<open>arch/x86_64/memory/paging.h\<close>.

  Memory is a function from physical addresses to 64-bit cells; the code modelled here reads and
  writes memory only in aligned 8-byte units.  A kernel access through a virtual address reaches the
  physical address that \<^verbatim>\<open>virt_to_phys\<close> names: this is how the boot protocol maps the
  direct map and the kernel image.  The TLB is the set of pages that may have a cached translation,
  each with the global bit of its entry.
\<close>

section \<open>State\<close>

record mm =
  placement_address :: virt_addr
  hhdm_offset :: u64
  kernel_phys_base :: u64
  kernel_virt_base :: u64
  pmem :: "phys_addr \<Rightarrow> u64"
  reg_cr3 :: u64
  reg_cr4 :: u64
  tlb :: "(virt_addr \<times> bool) set"

section \<open>Address windows and memory access\<close>

definition virt_to_phys :: "mm \<Rightarrow> virt_addr \<Rightarrow> phys_addr" where
  "virt_to_phys s addr =
     (if kernel_virt_base s \<le> addr then (addr - kernel_virt_base s) + kernel_phys_base s
      else addr - hhdm_offset s)"

definition phys_to_virt :: "mm \<Rightarrow> phys_addr \<Rightarrow> virt_addr" where
  "phys_to_virt s addr = addr + hhdm_offset s"

definition vload :: "mm \<Rightarrow> virt_addr \<Rightarrow> u64" where
  "vload s v = pmem s (virt_to_phys s v)"

definition vstore :: "virt_addr \<Rightarrow> u64 \<Rightarrow> mm \<Rightarrow> mm" where
  "vstore v x s = s\<lparr>pmem := (pmem s)(virt_to_phys s v := x)\<rparr>"

text \<open>\<^verbatim>\<open>memset(v, 0, sz)\<close> on a range of whole cells.\<close>

definition memset_zero :: "virt_addr \<Rightarrow> u32 \<Rightarrow> mm \<Rightarrow> mm" where
  "memset_zero v sz s =
     s\<lparr>pmem := \<lambda>a. if a - virt_to_phys s v < ucast sz then 0 else pmem s a\<rparr>"

definition kmalloc_az :: "u32 \<Rightarrow> mm \<Rightarrow> virt_addr \<times> mm" where
  "kmalloc_az sz s =
     (let (ret, placement) = kmalloc_a sz (placement_address s)
      in (ret, memset_zero ret sz (s\<lparr>placement_address := placement\<rparr>)))"

section \<open>Control registers and the TLB\<close>

definition CR4_PGE :: u64 where "CR4_PGE = 0x80"

definition PAGE_FRAME_MASK :: u64 where "PAGE_FRAME_MASK = 0x000FFFFFFFFFF000"

definition PAGE_GET_ADDR :: "u64 \<Rightarrow> u64" where "PAGE_GET_ADDR x = x AND PAGE_FRAME_MASK"

definition invalidate_page :: "virt_addr \<Rightarrow> mm \<Rightarrow> mm" where
  "invalidate_page v s = s\<lparr>tlb := {e \<in> tlb s. fst e \<noteq> v AND NOT 0xFFF}\<rparr>"

definition read_cr3 :: "mm \<Rightarrow> u64" where "read_cr3 s = reg_cr3 s"

definition read_cr4 :: "mm \<Rightarrow> u64" where "read_cr4 s = reg_cr4 s"

definition cr3_to_pml4_addr :: "u64 \<Rightarrow> phys_addr" where
  "cr3_to_pml4_addr cr3 = cr3 AND PAGE_FRAME_MASK"

text \<open>Loading CR3 drops the entries that are not global; without \<^verbatim>\<open>CR4.PGE\<close> no entry is.
  Changing \<^verbatim>\<open>CR4.PGE\<close> drops them all.\<close>

definition write_cr3 :: "u64 \<Rightarrow> mm \<Rightarrow> mm" where
  "write_cr3 x s =
     s\<lparr>reg_cr3 := x, tlb := (if reg_cr4 s AND CR4_PGE = 0 then {} else {e \<in> tlb s. snd e})\<rparr>"

definition write_cr4 :: "u64 \<Rightarrow> mm \<Rightarrow> mm" where
  "write_cr4 x s =
     s\<lparr>reg_cr4 := x, tlb := (if x AND CR4_PGE = reg_cr4 s AND CR4_PGE then tlb s else {})\<rparr>"

definition flush_tlb_all :: "mm \<Rightarrow> mm" where
  "flush_tlb_all s =
     (let cr4 = read_cr4 s
      in if cr4 AND CR4_PGE \<noteq> 0 then write_cr4 cr4 (write_cr4 (cr4 AND NOT CR4_PGE) s)
         else write_cr3 (read_cr3 s) s)"

section \<open>Facts\<close>

text \<open>The direct map covers physical addresses below the gap between the two windows.\<close>

definition hhdm_covers :: "mm \<Rightarrow> phys_addr \<Rightarrow> bool" where
  "hhdm_covers s p \<longleftrightarrow> unat (hhdm_offset s) + unat p < unat (kernel_virt_base s)"

lemma unat_phys_to_virt:
  "hhdm_covers s p \<Longrightarrow> unat (phys_to_virt s p) = unat (hhdm_offset s) + unat p"
  using unat_lt [of "kernel_virt_base s"]
  by (simp add: hhdm_covers_def phys_to_virt_def unat_plus_simple)

lemma virt_to_phys_phys_to_virt:
  "hhdm_covers s p \<Longrightarrow> virt_to_phys s (phys_to_virt s p) = p"
  using unat_phys_to_virt [of s p]
  by (auto simp: virt_to_phys_def hhdm_covers_def word_le_nat_alt) (simp add: phys_to_virt_def)

lemma phys_to_virt_virt_to_phys:
  "v < kernel_virt_base s \<Longrightarrow> phys_to_virt s (virt_to_phys s v) = v"
  by (auto simp: virt_to_phys_def phys_to_virt_def)

lemma virt_to_phys_hhdm:
  "unat v < unat (kernel_virt_base s) \<Longrightarrow> virt_to_phys s v = v - hhdm_offset s"
  by (auto simp: virt_to_phys_def word_le_nat_alt)

lemma window_upd [simp]:
  "virt_to_phys (s\<lparr>placement_address := x\<rparr>) = virt_to_phys s"
  "virt_to_phys (s\<lparr>pmem := m\<rparr>) = virt_to_phys s"
  "virt_to_phys (s\<lparr>tlb := t\<rparr>) = virt_to_phys s"
  "phys_to_virt (s\<lparr>placement_address := x\<rparr>) = phys_to_virt s"
  "phys_to_virt (s\<lparr>pmem := m\<rparr>) = phys_to_virt s"
  "phys_to_virt (s\<lparr>tlb := t\<rparr>) = phys_to_virt s"
  by (auto simp: virt_to_phys_def phys_to_virt_def fun_eq_iff)

lemma flush_tlb_all_simps [simp]:
  "tlb (flush_tlb_all s) = {}" "pmem (flush_tlb_all s) = pmem s"
  "reg_cr3 (flush_tlb_all s) = reg_cr3 s" "reg_cr4 (flush_tlb_all s) = reg_cr4 s"
  "placement_address (flush_tlb_all s) = placement_address s"
  "hhdm_offset (flush_tlb_all s) = hhdm_offset s"
  "kernel_phys_base (flush_tlb_all s) = kernel_phys_base s"
  "kernel_virt_base (flush_tlb_all s) = kernel_virt_base s"
  by (auto simp: flush_tlb_all_def write_cr3_def write_cr4_def read_cr3_def read_cr4_def Let_def
      and.assoc)

end
