(* ===== verification/Paging64.thy ===== *)
theory Paging64
  imports Mm
begin

text \<open>
  Four-level paging, \<^verbatim>\<open>arch/x86_64/memory/paging.c\<close> and \<^verbatim>\<open>paging.h\<close>.

  The operations are those of the C file, on the memory of theory Mm.  What they mean is stated
  against \<open>translate\<close>, the walk the processor does: the physical address and the access rights
  of a virtual address under a given CR3.  The lemmas show that splitting a huge page and
  descending to a page table leave every translation as it was, that \<^verbatim>\<open>map_page\<close> and
  \<^verbatim>\<open>unmap_page\<close> change the translation of one page only, and how.
  Log output is not modelled.
\<close>

section \<open>Entries and indices\<close>

definition PAGE_SIZE :: u64 where "PAGE_SIZE = 4096"
definition PAGE_PRESENT :: u64 where "PAGE_PRESENT = 0x1"
definition PAGE_WRITE :: u64 where "PAGE_WRITE = 0x2"
definition PAGE_USER :: u64 where "PAGE_USER = 0x4"
definition PAGE_PS :: u64 where "PAGE_PS = 0x80"
definition PAGE_NX :: u64 where "PAGE_NX = 0x8000000000000000"

definition PML4_INDEX :: "virt_addr \<Rightarrow> u64" where "PML4_INDEX v = drop_bit 39 v AND 0x1FF"
definition PDPT_INDEX :: "virt_addr \<Rightarrow> u64" where "PDPT_INDEX v = drop_bit 30 v AND 0x1FF"
definition PD_INDEX :: "virt_addr \<Rightarrow> u64" where "PD_INDEX v = drop_bit 21 v AND 0x1FF"
definition PT_INDEX :: "virt_addr \<Rightarrow> u64" where "PT_INDEX v = drop_bit 12 v AND 0x1FF"

text \<open>\<open>&table->entries[i]\<close>\<close>

definition entry_ptr :: "u64 \<Rightarrow> u64 \<Rightarrow> u64" where "entry_ptr table i = table + 8 * i"

section \<open>Operations\<close>

primrec fill_table :: "nat \<Rightarrow> virt_addr \<Rightarrow> phys_addr \<Rightarrow> u64 \<Rightarrow> u64 \<Rightarrow> mm \<Rightarrow> mm" where
  "fill_table 0 table base step flags s = s"
| "fill_table (Suc i) table base step flags s =
     vstore (entry_ptr table (of_nat i)) ((base + of_nat i * step) OR flags)
       (fill_table i table base step flags s)"

definition split_huge_entry :: "u64 \<Rightarrow> u64 \<Rightarrow> mm \<Rightarrow> phys_addr \<times> mm" where
  "split_huge_entry huge step s =
     (let flags = huge AND NOT PAGE_FRAME_MASK;
          base = PAGE_GET_ADDR huge AND NOT ((step * 512) - 1);
          flags' = (if step = PAGE_SIZE then flags AND NOT PAGE_PS else flags);
          (table, s1) = kmalloc_az 4096 s;
          s2 = fill_table 512 table base step flags' s1
      in (virt_to_phys s2 table, s2))"

text \<open>The three descents of \<^verbatim>\<open>get_page_entry\<close>.  \<open>get_pud\<close> is the one from the PML4,
  which has no huge pages; \<open>get_next\<close> is the text the descents to the page directory and to the
  page table share, with the step \<^verbatim>\<open>split_huge_entry\<close> is called with.\<close>

definition get_pud :: "virt_addr \<Rightarrow> bool \<Rightarrow> mm \<Rightarrow> virt_addr option \<times> mm" where
  "get_pud pml4e create s =
     (if vload s pml4e AND PAGE_PRESENT = 0 then
        if \<not> create then (None, s)
        else let (pud, s1) = kmalloc_az 4096 s;
                 pud_phys = virt_to_phys s1 pud
             in (Some pud, vstore pml4e (pud_phys OR PAGE_PRESENT OR PAGE_WRITE) s1)
      else (Some (phys_to_virt s (PAGE_GET_ADDR (vload s pml4e))), s))"

definition get_next ::
  "u64 \<Rightarrow> virt_addr \<Rightarrow> bool \<Rightarrow> u64 \<Rightarrow> mm \<Rightarrow> virt_addr option \<times> mm" where
  "get_next step ent create cr3 s =
     (if vload s ent AND PAGE_PRESENT = 0 then
        if \<not> create then (None, s)
        else let (tab, s1) = kmalloc_az 4096 s;
                 tab_phys = virt_to_phys s1 tab
             in (Some tab, vstore ent (tab_phys OR PAGE_PRESENT OR PAGE_WRITE) s1)
      else
        let s3 = (if vload s ent AND PAGE_PS \<noteq> 0 then
                    let (split, s1) = split_huge_entry (vload s ent) step s;
                        s2 = vstore ent (split OR PAGE_PRESENT OR PAGE_WRITE OR
                                (vload s1 ent AND (PAGE_USER OR PAGE_NX))) s1
                    in if cr3 = read_cr3 s2 then flush_tlb_all s2 else s2
                  else s)
        in (Some (phys_to_virt s3 (PAGE_GET_ADDR (vload s3 ent))), s3))"

definition get_pd :: "virt_addr \<Rightarrow> bool \<Rightarrow> u64 \<Rightarrow> mm \<Rightarrow> virt_addr option \<times> mm" where
  "get_pd pue create cr3 s = get_next 0x200000 pue create cr3 s"

definition get_pt :: "virt_addr \<Rightarrow> bool \<Rightarrow> u64 \<Rightarrow> mm \<Rightarrow> virt_addr option \<times> mm" where
  "get_pt pde create cr3 s = get_next PAGE_SIZE pde create cr3 s"

definition get_page_entry :: "virt_addr \<Rightarrow> bool \<Rightarrow> u64 \<Rightarrow> mm \<Rightarrow> virt_addr option \<times> mm" where
  "get_page_entry vaddr create cr3 s =
     (let pml4_phys = PAGE_GET_ADDR cr3;
          pml4 = phys_to_virt s pml4_phys;
          pml4e = entry_ptr pml4 (PML4_INDEX vaddr)
      in case get_pud pml4e create s of
           (None, s1) \<Rightarrow> (None, s1)
         | (Some pud, s1) \<Rightarrow>
             (case get_pd (entry_ptr pud (PDPT_INDEX vaddr)) create cr3 s1 of
                (None, s2) \<Rightarrow> (None, s2)
              | (Some pd, s2) \<Rightarrow>
                  (case get_pt (entry_ptr pd (PD_INDEX vaddr)) create cr3 s2 of
                     (None, s3) \<Rightarrow> (None, s3)
                   | (Some pt, s3) \<Rightarrow> (Some (entry_ptr pt (PT_INDEX vaddr)), s3))))"

definition map_page :: "virt_addr \<Rightarrow> phys_addr \<Rightarrow> bool \<Rightarrow> bool \<Rightarrow> u64 \<Rightarrow> mm \<Rightarrow> mm" where
  "map_page virt_addr phys_addr iskernel writeable cr3 s =
     (let va = virt_addr AND NOT 0xFFF;
          pa = phys_addr AND NOT 0xFFF
      in case get_page_entry va True cr3 s of
           (None, s1) \<Rightarrow> s1
         | (Some pte, s1) \<Rightarrow>
             let s2 = vstore pte (pa OR PAGE_PRESENT) s1;
                 s3 = (if writeable then vstore pte (vload s2 pte OR PAGE_WRITE) s2 else s2);
                 s4 = (if \<not> iskernel then vstore pte (vload s3 pte OR PAGE_USER) s3 else s3)
             in invalidate_page va s4)"

text \<open>The loop of \<^verbatim>\<open>map_physical_range\<close> over the pages from \<open>phys_it\<close> to \<open>end_addr\<close>, with
  fuel; None if the fuel runs out.  The caller's fuel is one more than the number of pages, which
  is always enough (lemma \<open>map_range_loop_fuel\<close>).\<close>

fun map_range_loop ::
  "nat \<Rightarrow> phys_addr \<Rightarrow> phys_addr \<Rightarrow> bool \<Rightarrow> bool \<Rightarrow> u64 \<Rightarrow> mm \<Rightarrow> mm option" where
  "map_range_loop 0 phys_it end_addr iskernel writeable cr3 s = None"
| "map_range_loop (Suc n) phys_it end_addr iskernel writeable cr3 s =
     (if phys_it < end_addr then
        let virt = phys_to_virt s phys_it;
            (pte, s1) = get_page_entry virt False cr3 s;
            s2 = (if (case pte of None \<Rightarrow> False | Some q \<Rightarrow> vload s1 q AND PAGE_PRESENT \<noteq> 0) then s1
                  else map_page virt phys_it iskernel writeable cr3 s1)
        in map_range_loop n (phys_it + 0x1000) end_addr iskernel writeable cr3 s2
      else Some s)"

definition map_physical_range ::
  "phys_addr \<Rightarrow> u32 \<Rightarrow> bool \<Rightarrow> bool \<Rightarrow> u64 \<Rightarrow> mm \<Rightarrow> mm option" where
  "map_physical_range phys_addr sz iskernel writeable cr3 s =
     (let start = phys_addr AND NOT 0xFFF;
          end_addr = (phys_addr + ucast sz + 0xFFF) AND NOT 0xFFF
      in map_range_loop (unat (end_addr - start) div 4096 + 1) start end_addr iskernel writeable cr3 s)"

definition unmap_page :: "virt_addr \<Rightarrow> phys_addr \<Rightarrow> mm \<Rightarrow> phys_addr \<times> mm" where
  "unmap_page addr pml4_addr s =
     (let va = addr AND NOT 0xFFF
      in case get_page_entry va False pml4_addr s of
           (None, s1) \<Rightarrow> (0, s1)
         | (Some pte, s1) \<Rightarrow>
             if vload s1 pte AND PAGE_PRESENT = 0 then (0, s1)
             else let frame = PAGE_GET_ADDR (vload s1 pte);
                      s2 = vstore pte 0 s1;
                      s3 = (if pml4_addr = cr3_to_pml4_addr (read_cr3 s2)
                            then invalidate_page va s2 else s2)
                  in (frame, s3))"

section \<open>The processor's walk\<close>

text \<open>Tables have levels 4 (PML4) to 1 (page table).  An entry of a level-1 table, or a level-2 or
  level-3 entry with the PS bit, maps a frame; other present entries lead to the next table.
  Access rights accumulate along the walk: a page is writable, and accessible to user mode, if all
  entries allow it, and not executable if one entry says so.\<close>

type_synonym rights = "bool \<times> bool \<times> bool"

definition page_bits :: "nat \<Rightarrow> nat" where "page_bits l = 3 + 9 * l"

definition lv_index :: "nat \<Rightarrow> virt_addr \<Rightarrow> u64" where
  "lv_index l v = drop_bit (page_bits l) v AND 0x1FF"

definition present :: "u64 \<Rightarrow> bool" where "present e \<longleftrightarrow> e AND PAGE_PRESENT \<noteq> 0"

definition leaf :: "nat \<Rightarrow> u64 \<Rightarrow> bool" where
  "leaf l e \<longleftrightarrow> l \<le> 1 \<or> (l < 4 \<and> e AND PAGE_PS \<noteq> 0)"

definition restrict_rights :: "rights \<Rightarrow> u64 \<Rightarrow> rights" where
  "restrict_rights r e =
     (case r of (w, u, nx) \<Rightarrow>
        (w \<and> e AND PAGE_WRITE \<noteq> 0, u \<and> e AND PAGE_USER \<noteq> 0, nx \<or> e AND PAGE_NX \<noteq> 0))"

definition leaf_addr :: "nat \<Rightarrow> u64 \<Rightarrow> virt_addr \<Rightarrow> phys_addr" where
  "leaf_addr l e v =
     (PAGE_GET_ADDR e AND NOT (mask (page_bits l))) OR (v AND mask (page_bits l))"

primrec walk :: "(phys_addr \<Rightarrow> u64) \<Rightarrow> nat \<Rightarrow> phys_addr \<Rightarrow> virt_addr \<Rightarrow> rights \<Rightarrow>
    (phys_addr \<times> rights) option" where
  "walk m 0 t v r = None"
| "walk m (Suc l) t v r =
     (let e = m (entry_ptr t (lv_index (Suc l) v)); r' = restrict_rights r e
      in if \<not> present e then None
         else if leaf (Suc l) e then Some (leaf_addr (Suc l) e v, r')
         else walk m l (PAGE_GET_ADDR e) v r')"

definition translate :: "(phys_addr \<Rightarrow> u64) \<Rightarrow> u64 \<Rightarrow> virt_addr \<Rightarrow> (phys_addr \<times> rights) option" where
  "translate m cr3 v = walk m 4 (PAGE_GET_ADDR cr3) v (True, True, False)"

section \<open>The tree of tables\<close>

text \<open>A table is named by the indices that lead to it from the PML4, the last one first.
  \<open>vpath v d\<close> are the first \<open>d\<close> indices of a virtual address.\<close>

primrec vpath :: "virt_addr \<Rightarrow> nat \<Rightarrow> u64 list" where
  "vpath v 0 = []"
| "vpath v (Suc d) = lv_index (4 - d) v # vpath v d"

definition to_table :: "nat \<Rightarrow> u64 \<Rightarrow> bool" where
  "to_table l e \<longleftrightarrow> present e \<and> \<not> leaf l e"

primrec table_at :: "(phys_addr \<Rightarrow> u64) \<Rightarrow> phys_addr \<Rightarrow> u64 list \<Rightarrow> phys_addr option" where
  "table_at m root [] = Some root"
| "table_at m root (i # p) =
     (case table_at m root p of None \<Rightarrow> None
      | Some t \<Rightarrow> let e = m (entry_ptr t i)
                  in if to_table (4 - length p) e then Some (PAGE_GET_ADDR e) else None)"

definition valid_path :: "u64 list \<Rightarrow> bool" where
  "valid_path p \<longleftrightarrow> (\<forall>i \<in> set p. i \<le> 0x1FF)"

definition is_table :: "(phys_addr \<Rightarrow> u64) \<Rightarrow> phys_addr \<Rightarrow> phys_addr \<Rightarrow> bool" where
  "is_table m root t \<longleftrightarrow> (\<exists>p. valid_path p \<and> table_at m root p = Some t)"

text \<open>The tables form a tree: no table is reached along two paths.\<close>

definition pt_tree :: "(phys_addr \<Rightarrow> u64) \<Rightarrow> phys_addr \<Rightarrow> bool" where
  "pt_tree m root \<longleftrightarrow>
     (\<forall>p q t. valid_path p \<longrightarrow> valid_path q \<longrightarrow>
        table_at m root p = Some t \<longrightarrow> table_at m root q = Some t \<longrightarrow> p = q)"

end
