(* ===== verification/Paging64_Tree.thy ===== *)
theory Paging64_Tree
  imports Paging64
begin

text \<open>
  Facts on page-table trees, independent of the operations: what a change of one entry does
  to the processor's walk and to the set of tables.
\<close>

section \<open>Addresses of entries\<close>

lemma PAGE_FRAME_MASK_mask: "PAGE_FRAME_MASK = mask 52 AND NOT (mask 12)"
  by (simp add: PAGE_FRAME_MASK_def mask_eq_exp_minus_1)

lemma unat_PAGE_GET_ADDR:
  "unat (PAGE_GET_ADDR x) = unat x mod 2 ^ 52 - unat x mod 2 ^ 12"
proof -
  have "PAGE_GET_ADDR x = (x AND mask 52) AND NOT (mask 12)"
    by (simp add: PAGE_GET_ADDR_def PAGE_FRAME_MASK_mask and.assoc)
  moreover have "unat x mod 2 ^ 52 mod 2 ^ 12 = unat x mod 2 ^ 12"
    by (simp add: mod_mod_cancel)
  ultimately show ?thesis
    by (simp only: unat_and_not_mask unat_and_mask)
qed

lemma PAGE_GET_ADDR_bounds:
  "unat (PAGE_GET_ADDR x) mod 4096 = 0" "unat (PAGE_GET_ADDR x) < 2 ^ 52"
proof -
  have "unat x mod 2 ^ 12 = unat x mod 2 ^ 52 mod 2 ^ 12"
    by (simp add: mod_mod_cancel)
  then show "unat (PAGE_GET_ADDR x) mod 4096 = 0"
    unfolding unat_PAGE_GET_ADDR by (simp add: minus_mod_eq_mult_div)
  show "unat (PAGE_GET_ADDR x) < 2 ^ 52"
    unfolding unat_PAGE_GET_ADDR by (simp add: less_imp_diff_less)
qed

lemma PAGE_GET_ADDR_idem [simp]: "PAGE_GET_ADDR (PAGE_GET_ADDR x) = PAGE_GET_ADDR x"
  by (simp add: PAGE_GET_ADDR_def and.assoc)

lemma unat_entry_ptr:
  assumes "PAGE_GET_ADDR t = t" "i \<le> 0x1FF"
  shows "unat (entry_ptr t i) = unat t + 8 * unat i"
proof -
  have i: "unat i \<le> 511"
    using assms(2) by (simp add: word_le_nat_alt)
  then have "unat (8 * i) = 8 * unat i"
    by (simp add: unat_word_ariths)
  then show ?thesis
    using i PAGE_GET_ADDR_bounds(2) [of t] assms(1)
    by (simp add: entry_ptr_def unat_plus_simple)
qed

lemma entry_ptr_inj:
  assumes "PAGE_GET_ADDR t = t" "PAGE_GET_ADDR t' = t'" "i \<le> 0x1FF" "j \<le> 0x1FF"
  shows "entry_ptr t i = entry_ptr t' j \<longleftrightarrow> t = t' \<and> i = j"
proof
  assume "entry_ptr t i = entry_ptr t' j"
  then have eq: "unat t + 8 * unat i = unat t' + 8 * unat j"
    using assms by (metis unat_entry_ptr)
  have m: "unat t mod 4096 = 0" "unat t' mod 4096 = 0"
    using PAGE_GET_ADDR_bounds(1) assms(1,2) by metis+
  have b: "8 * unat i < 4096" "8 * unat j < 4096"
    using assms(3,4) by (simp_all add: word_le_nat_alt)
  have "8 * unat i = (unat t + 8 * unat i) mod 4096"
    using m b by (simp add: mod_add_eq [symmetric, of "unat t"])
  also have "\<dots> = 8 * unat j"
    unfolding eq using m b by (simp add: mod_add_eq [symmetric, of "unat t'"])
  finally show "t = t' \<and> i = j"
    using eq by (simp add: word_unat_eq_iff)
qed simp

lemma lv_index_le [simp]: "lv_index l v \<le> 0x1FF"
  by (simp add: lv_index_def word_and_le1)

lemma vpath_valid [simp]: "valid_path (vpath v d)"
  by (induction d) (auto simp: valid_path_def)

lemma length_vpath [simp]: "length (vpath v d) = d"
  by (induction d) auto

lemma valid_path_Cons [simp]: "valid_path (i # p) \<longleftrightarrow> i \<le> 0x1FF \<and> valid_path p"
  by (auto simp: valid_path_def)

lemma valid_path_Nil [simp]: "valid_path []"
  by (simp add: valid_path_def)

lemma valid_path_append [simp]: "valid_path (p @ q) \<longleftrightarrow> valid_path p \<and> valid_path q"
  by (auto simp: valid_path_def)

lemma index_simps:
  "PML4_INDEX v = lv_index 4 v" "PDPT_INDEX v = lv_index 3 v" "PD_INDEX v = lv_index 2 v"
  "PT_INDEX v = lv_index 1 v"
  by (simp_all add: PML4_INDEX_def PDPT_INDEX_def PD_INDEX_def PT_INDEX_def lv_index_def
      page_bits_def)

section \<open>Tables\<close>

lemma table_at_addr:
  "table_at m root p = Some t \<Longrightarrow> PAGE_GET_ADDR root = root \<Longrightarrow> PAGE_GET_ADDR t = t"
  by (cases p) (auto simp: Let_def split: option.splits if_splits)

lemma is_table_addr: "is_table m root t \<Longrightarrow> PAGE_GET_ADDR root = root \<Longrightarrow> PAGE_GET_ADDR t = t"
  by (auto simp: is_table_def intro: table_at_addr)

lemma table_at_length: "table_at m root p = Some t \<Longrightarrow> length p \<le> 3"
proof (induction p arbitrary: t)
  case (Cons i p)
  then show ?case
    by (auto simp: Let_def to_table_def leaf_def split: option.splits if_splits)
qed simp

lemma table_at_is_table: "table_at m root p = Some t \<Longrightarrow> valid_path p \<Longrightarrow> is_table m root t"
  by (auto simp: is_table_def)

lemma table_at_suffix_None:
  "table_at m root p = None \<Longrightarrow> table_at m root (q @ p) = None"
  by (induction q) auto

lemma pt_treeD:
  "pt_tree m root \<Longrightarrow> table_at m root p = Some t \<Longrightarrow> table_at m root q = Some t \<Longrightarrow>
   valid_path p \<Longrightarrow> valid_path q \<Longrightarrow> p = q"
  by (auto simp: pt_tree_def)

text \<open>Memories that agree on all entries of all tables but one entry.\<close>

definition agree_but ::
  "(phys_addr \<Rightarrow> u64) \<Rightarrow> (phys_addr \<Rightarrow> u64) \<Rightarrow> phys_addr \<Rightarrow> phys_addr \<Rightarrow> u64 \<Rightarrow> bool" where
  "agree_but m m' root t0 i0 \<longleftrightarrow>
     (\<forall>t i. is_table m root t \<longrightarrow> i \<le> 0x1FF \<longrightarrow> (t, i) \<noteq> (t0, i0) \<longrightarrow>
        m' (entry_ptr t i) = m (entry_ptr t i))"

lemma agree_butD:
  "agree_but m m' root t0 i0 \<Longrightarrow> is_table m root t \<Longrightarrow> i \<le> 0x1FF \<Longrightarrow> (t, i) \<noteq> (t0, i0) \<Longrightarrow>
   m' (entry_ptr t i) = m (entry_ptr t i)"
  by (simp add: agree_but_def)

lemma agree_but_upd:
  assumes "PAGE_GET_ADDR root = root" "PAGE_GET_ADDR t0 = t0" "i0 \<le> 0x1FF"
  shows "agree_but m (m(entry_ptr t0 i0 := x)) root t0 i0"
  using assms by (auto simp: agree_but_def entry_ptr_inj is_table_addr)

text \<open>Outside the subtree below the changed entry, the walk reads the same entries.\<close>

lemma walk_outside:
  assumes tree: "pt_tree m root" and t0: "table_at m root p0 = Some t0" "valid_path p0"
    and agree: "agree_but m m' root t0 i0"
    and sub: "\<And>t r. table_at m root (vpath v (length p0)) = Some t \<Longrightarrow>
        vpath v (Suc (length p0)) = i0 # p0 \<Longrightarrow>
        walk m' (4 - length p0) t0 v r = walk m (4 - length p0) t0 v r"
  shows "table_at m root (vpath v d) = Some t \<Longrightarrow> d \<le> 4 \<Longrightarrow>
    walk m' (4 - d) t v r = walk m (4 - d) t v r"
proof (induction "4 - d" arbitrary: d t r)
  case (Suc l)
  then have d: "4 - d = Suc l" "d < 4" "4 - Suc d = l" by auto
  let ?i = "lv_index (4 - d) v"
  show ?case
  proof (cases "(t, ?i) = (t0, i0)")
    case True
    then have "vpath v d = p0"
      using pt_treeD [OF tree Suc.prems(1) _ vpath_valid t0(2)] t0(1) by simp
    then have "d = length p0" "vpath v (Suc (length p0)) = i0 # p0"
      using True length_vpath [of v d] by auto
    then show ?thesis
      using sub Suc.prems(1) True by simp
  next
    case False
    then have e: "m' (entry_ptr t ?i) = m (entry_ptr t ?i)"
      using agree_butD [OF agree table_at_is_table [OF Suc.prems(1)]] by simp
    have "walk m' l (PAGE_GET_ADDR (m (entry_ptr t ?i))) v r' =
          walk m l (PAGE_GET_ADDR (m (entry_ptr t ?i))) v r'"
      if "to_table (4 - d) (m (entry_ptr t ?i))" for r'
      using Suc.hyps(1) [of "Suc d"] that Suc.prems(1) d by (simp add: Let_def)
    then show ?thesis
      using e d(1) by (auto simp: Let_def to_table_def)
  qed
qed simp

text \<open>The tables outside the subtree below the changed entry stay where they are.\<close>

lemma table_at_outside:
  assumes tree: "pt_tree m root" and t0: "table_at m root p0 = Some t0" "valid_path p0"
    and agree: "agree_but m m' root t0 i0"
  shows "valid_path p \<Longrightarrow> \<nexists>q. p = q @ i0 # p0 \<Longrightarrow> table_at m' root p = table_at m root p"
proof (induction p)
  case (Cons i p)
  have ih: "table_at m' root p = table_at m root p"
    using Cons by (metis append_Cons valid_path_Cons)
  show ?case
  proof (cases "table_at m root p")
    case (Some t)
    have "(t, i) \<noteq> (t0, i0)"
    proof
      assume "(t, i) = (t0, i0)"
      then have "i # p = [] @ i0 # p0"
        using pt_treeD [OF tree Some _ _ t0(2)] t0(1) Cons.prems(1) by simp
      then show False using Cons.prems(2) by blast
    qed
    then have "m' (entry_ptr t i) = m (entry_ptr t i)"
      using Cons.prems(1) Some by (intro agree_butD [OF agree table_at_is_table]) auto
    then show ?thesis using ih Some by simp
  qed (use ih in simp)
qed simp

text \<open>An entry that led to no table now leads to a table \<open>n\<close> without tables below it.\<close>

lemma table_at_add:
  assumes tree: "pt_tree m root" and t0: "table_at m root p0 = Some t0" "valid_path p0"
    and agree: "agree_but m m' root t0 i0"
    and old: "\<not> to_table (4 - length p0) (m (entry_ptr t0 i0))"
    and new: "to_table (4 - length p0) (m' (entry_ptr t0 i0))" "PAGE_GET_ADDR (m' (entry_ptr t0 i0)) = n"
    and sub: "\<And>i. i \<le> 0x1FF \<Longrightarrow> \<not> to_table (3 - length p0) (m' (entry_ptr n i))"
    and p: "valid_path p"
  shows "table_at m' root p = (if p = i0 # p0 then Some n else table_at m root p)"
proof (cases "\<exists>q. p = q @ i0 # p0")
  case False
  then show ?thesis
    using table_at_outside [OF tree t0 agree p] by (metis append_Nil)
next
  case True
  then obtain q where q: "p = q @ i0 # p0" ..
  have old': "table_at m root (i0 # p0) = None"
    using t0 old by (simp add: Let_def)
  have "table_at m' root p0 = table_at m root p0"
    using table_at_outside [OF tree t0 agree t0(2)] by auto
  then have new': "table_at m' root (i0 # p0) = Some n"
    using t0 new by (simp add: Let_def)
  show ?thesis
  proof (cases q rule: rev_cases)
    case Nil
    then show ?thesis using q new' by simp
  next
    case (snoc q' i)
    have "table_at m' root (i # i0 # p0) = None"
      using new' sub [of i] p q snoc by (simp add: Let_def del: table_at.simps(2))
        (simp add: new' Let_def)
    then have "table_at m' root p = None"
      using table_at_suffix_None [of m' root "i # i0 # p0" q'] q snoc by simp
    moreover have "table_at m root p = None"
      using table_at_suffix_None [OF old', of q] q by simp
    ultimately show ?thesis using q snoc by simp
  qed
qed

lemma pt_tree_add:
  assumes tree: "pt_tree m root" and fresh: "\<not> is_table m root n"
    and add: "\<And>p. valid_path p \<Longrightarrow>
        table_at m' root p = (if p = q then Some n else table_at m root p)"
  shows "pt_tree m' root"
  unfolding pt_tree_def
proof (intro allI impI)
  fix p p' t
  assume "valid_path p" "valid_path p'" "table_at m' root p = Some t" "table_at m' root p' = Some t"
  then show "p = p'"
    using add tree fresh by (auto simp: is_table_def split: if_splits dest: pt_treeD)
qed

text \<open>An entry that leads to no table, before or after, does not change the tables.\<close>

lemma table_at_leaf_change:
  assumes tree: "pt_tree m root" and t0: "table_at m root p0 = Some t0" "valid_path p0"
    and agree: "agree_but m m' root t0 i0"
    and old: "\<not> to_table (4 - length p0) (m (entry_ptr t0 i0))"
    and new: "\<not> to_table (4 - length p0) (m' (entry_ptr t0 i0))"
    and p: "valid_path p"
  shows "table_at m' root p = table_at m root p"
proof (cases "\<exists>q. p = q @ i0 # p0")
  case True
  then obtain q where q: "p = q @ i0 # p0" ..
  have "table_at m' root p0 = table_at m root p0"
    using table_at_outside [OF tree t0 agree t0(2)] by auto
  then have "table_at m root (i0 # p0) = None" "table_at m' root (i0 # p0) = None"
    using t0 old new by (simp_all add: Let_def)
  then show ?thesis
    using table_at_suffix_None q by metis
qed (use table_at_outside [OF tree t0 agree p] in blast)

lemma pt_tree_cong:
  assumes "\<And>p. valid_path p \<Longrightarrow> table_at m' root p = table_at m root p"
  shows "pt_tree m' root = pt_tree m root" "is_table m' root t = is_table m root t"
  using assms by (auto simp: pt_tree_def is_table_def)

section \<open>Translation\<close>

text \<open>The rights collected on the way to the table at depth \<open>d\<close>.\<close>

primrec rights_at :: "(phys_addr \<Rightarrow> u64) \<Rightarrow> phys_addr \<Rightarrow> virt_addr \<Rightarrow> nat \<Rightarrow> rights" where
  "rights_at m root v 0 = (True, True, False)"
| "rights_at m root v (Suc d) =
     (case table_at m root (vpath v d) of
        None \<Rightarrow> rights_at m root v d
      | Some t \<Rightarrow> restrict_rights (rights_at m root v d) (m (entry_ptr t (lv_index (4 - d) v))))"

lemma rights_at_outside:
  assumes tree: "pt_tree m root" and t0: "table_at m root p0 = Some t0" "valid_path p0"
    and agree: "agree_but m m' root t0 i0"
  shows "d \<le> length p0 \<Longrightarrow> rights_at m' root v d = rights_at m root v d"
proof (induction d)
  case (Suc d)
  have "\<nexists>q. vpath v d = q @ i0 # p0"
    using Suc.prems length_vpath [of v d] by (metis Suc_le_lessD add_Suc_right add_lessD1
        length_Cons length_append less_not_refl not_add_less2 plus_nat.simps(2))
  then have t: "table_at m' root (vpath v d) = table_at m root (vpath v d)"
    by (rule table_at_outside [OF tree t0 agree vpath_valid])
  have "m' (entry_ptr t (lv_index (4 - d) v)) = m (entry_ptr t (lv_index (4 - d) v))"
    if "table_at m root (vpath v d) = Some t" for t
  proof -
    have "t \<noteq> t0"
      using pt_treeD [OF tree that _ vpath_valid t0(2)] t0(1) Suc.prems length_vpath [of v d] by force
    then show ?thesis
      using agree_butD [OF agree table_at_is_table [OF that vpath_valid] lv_index_le] by simp
  qed
  then show ?case
    using Suc t by (auto split: option.split)
qed simp

lemma translate_from_table:
  "table_at m (PAGE_GET_ADDR cr3) (vpath v d) = Some t \<Longrightarrow> d \<le> 3 \<Longrightarrow>
   translate m cr3 v = walk m (4 - d) t v (rights_at m (PAGE_GET_ADDR cr3) v d)"
proof (induction d arbitrary: t)
  case (Suc d)
  obtain t' where t': "table_at m (PAGE_GET_ADDR cr3) (vpath v d) = Some t'"
    using Suc.prems by (auto split: option.splits)
  let ?e = "m (entry_ptr t' (lv_index (4 - d) v))"
  have e: "to_table (4 - d) ?e" "PAGE_GET_ADDR ?e = t"
    using Suc.prems t' by (auto simp: Let_def split: if_splits)
  have "4 - d = Suc (4 - Suc d)"
    using Suc.prems by simp
  then have "walk m (4 - d) t' v r = walk m (4 - Suc d) t v (restrict_rights r ?e)" for r
    using e by (simp add: Let_def to_table_def)
  then show ?case
    using Suc.IH [OF t'] Suc.prems t' by simp
qed (simp add: translate_def)

lemma walk_step:
  "0 < l \<Longrightarrow> walk m l t v r =
     (let e = m (entry_ptr t (lv_index l v)); r' = restrict_rights r e
      in if \<not> present e then None
         else if leaf l e then Some (leaf_addr l e v, r')
         else walk m (l - 1) (PAGE_GET_ADDR e) v r')"
  by (cases l) (auto simp: Let_def)

lemma translate_stop:
  assumes "table_at m (PAGE_GET_ADDR cr3) (vpath v d) = Some t" "d \<le> 3"
    and "\<not> present (m (entry_ptr t (lv_index (4 - d) v)))"
  shows "translate m cr3 v = None"
proof -
  have "4 - d = Suc (3 - d)" using assms(2) by simp
  then show ?thesis
    using translate_from_table [OF assms(1,2)] assms(3) by (simp add: Let_def)
qed

end
