(* ===== verification/Paging64_Proofs.thy ===== *)
theory Paging64_Proofs
  imports Paging64_Tree
begin

text \<open>
  The paging operations against the processor's walk.  The invariant \<open>pt_inv\<close> says that the tables
  under a CR3 form a tree inside the direct map and that the next \<open>k\<close> pages the heap will hand out
  are none of them.
\<close>

section \<open>Bits of entries\<close>

lemma flag_bits:
  "x AND PAGE_PRESENT \<noteq> 0 \<longleftrightarrow> bit x 0" "x AND PAGE_WRITE \<noteq> 0 \<longleftrightarrow> bit x 1"
  "x AND PAGE_USER \<noteq> 0 \<longleftrightarrow> bit x 2" "x AND PAGE_PS \<noteq> 0 \<longleftrightarrow> bit x 7"
  "x AND PAGE_NX \<noteq> 0 \<longleftrightarrow> bit x 63"
  using and_exp_eq_0_iff_not_bit [of x 0] and_exp_eq_0_iff_not_bit [of x 1]
    and_exp_eq_0_iff_not_bit [of x 2] and_exp_eq_0_iff_not_bit [of x 7]
    and_exp_eq_0_iff_not_bit [of x 63]
  by (simp_all add: PAGE_PRESENT_def PAGE_WRITE_def PAGE_USER_def PAGE_PS_def PAGE_NX_def)

lemma flag_exps:
  "PAGE_PRESENT = 2 ^ 0" "PAGE_WRITE = 2 ^ 1" "PAGE_USER = 2 ^ 2" "PAGE_PS = 2 ^ 7"
  "PAGE_NX = 2 ^ 63"
  by (simp_all add: PAGE_PRESENT_def PAGE_WRITE_def PAGE_USER_def PAGE_PS_def PAGE_NX_def)

lemma bit_flags:
  "bit PAGE_PRESENT k \<longleftrightarrow> k = 0" "bit PAGE_WRITE k \<longleftrightarrow> k = 1" "bit PAGE_USER k \<longleftrightarrow> k = 2"
  "bit PAGE_PS k \<longleftrightarrow> k = 7" "bit PAGE_NX k \<longleftrightarrow> k = 63"
  unfolding flag_exps bit_exp_iff by auto

lemma bit_PAGE_FRAME_MASK: "bit PAGE_FRAME_MASK k \<longleftrightarrow> 12 \<le> k \<and> k < 52"
  by (auto simp: PAGE_FRAME_MASK_mask bit_simps)

lemma bit_PAGE_GET_ADDR: "bit (PAGE_GET_ADDR x) k \<longleftrightarrow> 12 \<le> k \<and> k < 52 \<and> bit x k"
  by (auto simp: PAGE_GET_ADDR_def bit_and_iff bit_PAGE_FRAME_MASK)

lemmas entry_bits = bit_flags bit_PAGE_FRAME_MASK bit_PAGE_GET_ADDR bit_and_iff bit_or_iff bit_not_iff

text \<open>A table entry built from a page address.\<close>

lemma new_entry:
  assumes "PAGE_GET_ADDR n = n"
  shows "PAGE_GET_ADDR (n OR PAGE_PRESENT OR PAGE_WRITE) = n"
    and "PAGE_GET_ADDR (n OR PAGE_PRESENT OR PAGE_WRITE OR (e AND (PAGE_USER OR PAGE_NX))) = n"
proof -
  have "bit n k \<Longrightarrow> 12 \<le> k \<and> k < 52" for k
    using bit_PAGE_GET_ADDR [of n k] assms by simp
  then show "PAGE_GET_ADDR (n OR PAGE_PRESENT OR PAGE_WRITE) = n"
    "PAGE_GET_ADDR (n OR PAGE_PRESENT OR PAGE_WRITE OR (e AND (PAGE_USER OR PAGE_NX))) = n"
    by (intro bit_word_eqI; auto simp: entry_bits dest: leD)+
qed

section \<open>Allocation of a table\<close>

definition next_frame :: "mm \<Rightarrow> phys_addr" where
  "next_frame s = page_align_up (placement_address s) - hhdm_offset s"

definition heap_room :: "mm \<Rightarrow> nat \<Rightarrow> bool" where
  "heap_room s k \<longleftrightarrow>
     unat (hhdm_offset s) mod 4096 = 0 \<and> unat (placement_address s) + 4095 < 2 ^ 64 \<and>
     unat (hhdm_offset s) \<le> unat (page_align_up (placement_address s)) \<and>
     unat (page_align_up (placement_address s)) + k * 4096 \<le> unat (kernel_virt_base s) \<and>
     unat (next_frame s) + k * 4096 \<le> 2 ^ 52"

definition same_layout :: "mm \<Rightarrow> mm \<Rightarrow> bool" where
  "same_layout s s' \<longleftrightarrow>
     hhdm_offset s' = hhdm_offset s \<and> kernel_virt_base s' = kernel_virt_base s \<and>
     kernel_phys_base s' = kernel_phys_base s \<and> reg_cr3 s' = reg_cr3 s \<and> reg_cr4 s' = reg_cr4 s"

lemma same_layout_windows:
  "same_layout s s' \<Longrightarrow> virt_to_phys s' = virt_to_phys s"
  "same_layout s s' \<Longrightarrow> phys_to_virt s' = phys_to_virt s"
  "same_layout s s' \<Longrightarrow> hhdm_covers s' = hhdm_covers s"
  by (auto simp: same_layout_def virt_to_phys_def phys_to_virt_def hhdm_covers_def fun_eq_iff)

lemma same_layout_refl [simp]: "same_layout s s"
  by (simp add: same_layout_def)

lemma same_layout_trans: "same_layout s s' \<Longrightarrow> same_layout s' s'' \<Longrightarrow> same_layout s s''"
  by (simp add: same_layout_def)

lemma page_align_up_id: "unat p mod 4096 = 0 \<Longrightarrow> page_align_up p = (p :: 'a::len word)"
  using unat_and_mask [of p 12]
  by (simp add: page_align_up_def mask12 unat_eq_0 [symmetric] del: unat_eq_0)

lemma heap_room_facts:
  assumes "heap_room s (Suc k)"
  shows "page_align_up (placement_address s) = phys_to_virt s (next_frame s)"
    and "unat (phys_to_virt s (next_frame s)) = unat (hhdm_offset s) + unat (next_frame s)"
    and "unat (next_frame s) mod 4096 = 0"
    and "PAGE_GET_ADDR (next_frame s) = next_frame s"
    and "unat (hhdm_offset s) + unat (next_frame s) + Suc k * 4096 \<le> unat (kernel_virt_base s)"
proof -
  let ?a = "page_align_up (placement_address s)" and ?n = "next_frame s"
  have al: "unat ?a mod 4096 = 0"
    using page_align_up_aligned(1) [of "placement_address s"] assms by (simp add: heap_room_def)
  show a: "?a = phys_to_virt s ?n"
    by (simp add: phys_to_virt_def next_frame_def)
  have n: "unat ?n = unat ?a - unat (hhdm_offset s)"
    using assms unfolding next_frame_def by (intro unat_minus_simple) (simp add: heap_room_def)
  show 1: "unat (phys_to_virt s ?n) = unat (hhdm_offset s) + unat ?n"
    using assms n a by (simp add: heap_room_def)
  show m: "unat ?n mod 4096 = 0"
    using al assms by (simp add: n heap_room_def mod_eq_0_iff_dvd)
  have "unat ?n < 2 ^ 52"
    using assms by (simp add: heap_room_def)
  then show "PAGE_GET_ADDR ?n = ?n"
    using m by (simp add: word_unat_eq_iff unat_PAGE_GET_ADDR)
  show "unat (hhdm_offset s) + unat ?n + Suc k * 4096 \<le> unat (kernel_virt_base s)"
    using assms 1 a by (simp add: heap_room_def)
qed

lemma kmalloc_az_table:
  assumes room: "heap_room s (Suc k)" and alloc: "kmalloc_az 4096 s = (v, s')"
  shows "v = phys_to_virt s (next_frame s)" "virt_to_phys s' v = next_frame s"
    and "pmem s' = (\<lambda>a. if a - next_frame s < 4096 then 0 else pmem s a)"
    and "same_layout s s'" "tlb s' = tlb s" "next_frame s' = next_frame s + 4096"
    and "unat (next_frame s') = unat (next_frame s) + 4096" "heap_room s' k"
proof -
  let ?n = "next_frame s"
  note F = heap_room_facts [OF room]
  have cov: "hhdm_covers s ?n"
    using F(2,5) by (simp add: hhdm_covers_def)
  have p: "placement_address s' = phys_to_virt s ?n + 4096" and v: "v = phys_to_virt s ?n"
    and s': "s' = memset_zero v 4096 (s\<lparr>placement_address := phys_to_virt s ?n + 4096\<rparr>)"
    using alloc unfolding kmalloc_az_def kmalloc_a_def Let_def F(1)
    by (auto simp: memset_zero_def)
  show "v = phys_to_virt s ?n" by (fact v)
  show lay: "same_layout s s'" and "tlb s' = tlb s"
    unfolding s' by (simp_all add: memset_zero_def same_layout_def)
  have vp: "virt_to_phys s v = ?n"
    using virt_to_phys_phys_to_virt [OF cov] v by simp
  then show "virt_to_phys s' v = ?n"
    by (simp add: same_layout_windows [OF lay])
  show "pmem s' = (\<lambda>a. if a - ?n < 4096 then 0 else pmem s a)"
    unfolding s' memset_zero_def using vp by (auto simp: fun_eq_iff)
  have up: "unat (placement_address s') = unat (hhdm_offset s) + unat ?n + 4096"
    unfolding p using F(2,5) unat_lt [of "kernel_virt_base s"] by (subst unat_plus_simple) auto
  have "unat (hhdm_offset s) mod 4096 = 0"
    using room by (simp add: heap_room_def)
  then have "unat (placement_address s') mod 4096 = 0"
    using F(3) unfolding up by (simp add: mod_eq_0_iff_dvd)
  then have al: "page_align_up (placement_address s') = placement_address s'"
    by (rule page_align_up_id)
  have nf: "next_frame s' = ?n + 4096"
    unfolding next_frame_def [of s'] al using p lay by (simp add: same_layout_def phys_to_virt_def)
  then show "next_frame s' = ?n + 4096" .
  show un: "unat (next_frame s') = unat ?n + 4096"
    unfolding nf using room by (subst unat_plus_simple) (auto simp: heap_room_def)
  have "unat (placement_address s') + 4095 < 2 ^ 64"
    using unat_lt [of "placement_address s'"] \<open>unat (placement_address s') mod 4096 = 0\<close>
    by (auto simp: mod_eq_0_iff_dvd elim!: dvdE)
  then show "heap_room s' k"
    using room F up un al lay by (auto simp: heap_room_def same_layout_def)
qed

section \<open>The invariant\<close>

definition pt_inv :: "mm \<Rightarrow> u64 \<Rightarrow> nat \<Rightarrow> bool" where
  "pt_inv s cr3 k \<longleftrightarrow>
     heap_room s k \<and> pt_tree (pmem s) (PAGE_GET_ADDR cr3) \<and>
     (\<forall>t. is_table (pmem s) (PAGE_GET_ADDR cr3) t \<longrightarrow>
        unat (hhdm_offset s) + unat t + 4096 \<le> unat (kernel_virt_base s) \<and>
        (unat t + 4096 \<le> unat (next_frame s) \<or> unat (next_frame s) + k * 4096 \<le> unat t))"

lemma pt_inv_mono:
  assumes "pt_inv s cr3 k" "k' \<le> k"
  shows "pt_inv s cr3 k'"
proof -
  have "k' * 4096 \<le> k * 4096" using assms(2) by simp
  then show ?thesis
    using assms(1) unfolding pt_inv_def heap_room_def by (meson add_left_mono order_trans)
qed

lemma pt_inv_table:
  assumes "pt_inv s cr3 k" "is_table (pmem s) (PAGE_GET_ADDR cr3) t"
  shows "PAGE_GET_ADDR t = t" "unat (hhdm_offset s) + unat t + 4096 \<le> unat (kernel_virt_base s)"
    "unat t + 4096 \<le> unat (next_frame s) \<or> unat (next_frame s) + k * 4096 \<le> unat t"
  using assms is_table_addr [OF assms(2)] by (auto simp: pt_inv_def)

text \<open>Entries of tables in the direct map, read and written by the kernel.\<close>

lemma entry_access:
  assumes "PAGE_GET_ADDR t = t" "unat (hhdm_offset s) + unat t + 4096 \<le> unat (kernel_virt_base s)"
    and "i \<le> 0x1FF"
  shows "virt_to_phys s (entry_ptr (phys_to_virt s t) i) = entry_ptr t i"
proof -
  have "unat i \<le> 511" using assms(3) by (simp add: word_le_nat_alt)
  then have "hhdm_covers s (entry_ptr t i)"
    using assms(2) unat_entry_ptr [OF assms(1,3)] by (simp add: hhdm_covers_def)
  moreover have "entry_ptr (phys_to_virt s t) i = phys_to_virt s (entry_ptr t i)"
    by (simp add: entry_ptr_def phys_to_virt_def)
  ultimately show ?thesis
    by (simp add: virt_to_phys_phys_to_virt)
qed

text \<open>A page of table entries as a range of addresses.\<close>

lemma entry_in_page:
  assumes "PAGE_GET_ADDR n = n" "PAGE_GET_ADDR t = t" "i \<le> 0x1FF"
  shows "entry_ptr t i - n < 4096 \<longleftrightarrow> t = n"
proof
  assume "entry_ptr t i - n < 4096"
  then have lt: "unat (entry_ptr t i - n) < 4096"
    by (simp add: word_less_nat_alt)
  define d where "d = entry_ptr t i - n"
  have e: "entry_ptr t i = n + d" by (simp add: d_def)
  have "unat n + unat d < 2 ^ LENGTH(64)"
    using lt PAGE_GET_ADDR_bounds(2) [of n] assms(1) by (simp add: d_def)
  then have eq: "unat t + 8 * unat i = unat n + unat d"
    using unat_entry_ptr [OF assms(2,3)] e unat_plus_simple [of n d] by simp
  have "unat t mod 4096 = 0" "unat n mod 4096 = 0"
    using PAGE_GET_ADDR_bounds(1) assms by metis+
  then obtain a b where ab: "unat t = 4096 * a" "unat n = 4096 * b"
    by (auto simp: mod_eq_0_iff_dvd elim!: dvdE)
  have "8 * unat i < 4096" using assms(3) by (simp add: word_le_nat_alt)
  then have "a = b"
    using eq lt unfolding ab d_def [symmetric]
    by (metis add.right_neutral div_less div_mult_self4 zero_neq_numeral)
  then show "t = n"
    using ab by (simp add: word_unat_eq_iff)
next
  assume "t = n"
  then have "entry_ptr t i - n = 8 * i" by (simp add: entry_ptr_def)
  moreover have "unat (8 * i) = 8 * unat i" "8 * unat i < 4096"
    using assms(3) by (simp_all add: word_le_nat_alt unat_word_ariths)
  ultimately show "entry_ptr t i - n < 4096"
    by (simp add: word_less_nat_alt)
qed

section \<open>Installing a table\<close>

lemma fresh_frame:
  assumes "pt_inv s cr3 (Suc k)"
  shows "\<not> is_table (pmem s) (PAGE_GET_ADDR cr3) (next_frame s)"
    and "PAGE_GET_ADDR (next_frame s) = next_frame s"
  using assms pt_inv_table(3) [OF assms, of "next_frame s"] heap_room_facts(4) [of s k]
  by (auto simp: pt_inv_def)

text \<open>An entry of a table of the tree that led nowhere, or mapped a huge page, is replaced by a
  pointer to the next page of the heap, whose entries lead to no tables, without changing what
  the walk from the entry yields.\<close>

lemma install_table:
  fixes s s' :: mm and cr3 :: u64
  defines "m \<equiv> pmem s" and "m' \<equiv> pmem s'" and "root \<equiv> PAGE_GET_ADDR cr3" and "n \<equiv> next_frame s"
  assumes inv: "pt_inv s cr3 (Suc k)"
    and s': "same_layout s s'" "heap_room s' k" "unat (next_frame s') = unat n + 4096"
    and t0: "table_at m root p0 = Some t0" "valid_path p0" "i0 \<le> 0x1FF" and d: "length p0 = d"
    and frame: "\<And>a. \<not> a - n < 4096 \<Longrightarrow> a \<noteq> entry_ptr t0 i0 \<Longrightarrow> m' a = m a"
    and old: "\<not> to_table (4 - d) (m (entry_ptr t0 i0))"
    and new: "to_table (4 - d) (m' (entry_ptr t0 i0))" "PAGE_GET_ADDR (m' (entry_ptr t0 i0)) = n"
    and sub: "\<And>i. i \<le> 0x1FF \<Longrightarrow> \<not> to_table (3 - d) (m' (entry_ptr n i))"
    and sem: "\<And>v r. vpath v (Suc d) = i0 # p0 \<Longrightarrow> walk m' (4 - d) t0 v r = walk m (4 - d) t0 v r"
  shows "pt_inv s' cr3 k" "translate m' cr3 = translate m cr3" "table_at m' root (i0 # p0) = Some n"
proof -
  have tree: "pt_tree m root" and root: "PAGE_GET_ADDR root = root"
    using inv by (simp_all add: pt_inv_def m_def root_def)
  have n: "\<not> is_table m root n" "PAGE_GET_ADDR n = n"
    using fresh_frame [OF inv] by (simp_all add: m_def root_def n_def)
  have agree: "agree_but m m' root t0 i0"
    unfolding agree_but_def
  proof (intro allI impI)
    fix t i
    assume t: "is_table m root t" "i \<le> 0x1FF" "(t, i) \<noteq> (t0, i0)"
    have "t \<noteq> n" using t(1) n(1) by auto
    then have "\<not> entry_ptr t i - n < 4096"
      using entry_in_page [OF n(2) is_table_addr [OF t(1) root] t(2)] by simp
    moreover have "entry_ptr t i \<noteq> entry_ptr t0 i0"
      using t t0 root by (simp add: entry_ptr_inj is_table_addr table_at_addr)
    ultimately show "m' (entry_ptr t i) = m (entry_ptr t i)"
      by (rule frame)
  qed
  have add: "table_at m' root p = (if p = i0 # p0 then Some n else table_at m root p)"
    if "valid_path p" for p
    using table_at_add [OF tree t0(1,2) agree _ _ new(2) _ that] old new(1) sub d by simp
  then show "table_at m' root (i0 # p0) = Some n"
    using t0 by (simp del: table_at.simps)
  have tree': "pt_tree m' root"
    using pt_tree_add [OF tree n(1) add] .
  have tabs: "t = n \<or> is_table m root t" if "is_table m' root t" for t
    using that add unfolding is_table_def by (metis option.inject)
  have room: "heap_room s (Suc k)" using inv by (simp add: pt_inv_def)
  show "pt_inv s' cr3 k"
    unfolding pt_inv_def
  proof (intro conjI allI impI)
    show "heap_room s' k" by (fact s')
    show "pt_tree (pmem s') (PAGE_GET_ADDR cr3)"
      using tree' by (simp add: m'_def root_def)
    fix t assume "is_table (pmem s') (PAGE_GET_ADDR cr3) t"
    then consider "t = n" | "is_table (pmem s) (PAGE_GET_ADDR cr3) t"
      using tabs by (auto simp: m_def m'_def root_def)
    then show "unat (hhdm_offset s') + unat t + 4096 \<le> unat (kernel_virt_base s')"
      "unat t + 4096 \<le> unat (next_frame s') \<or> unat (next_frame s') + k * 4096 \<le> unat t"
      using s' heap_room_facts(5) [OF room] pt_inv_table(2,3) [OF inv, of t]
      by (cases; auto simp: same_layout_def n_def)+
  qed
  show "translate m' cr3 = translate m cr3"
    using walk_outside [OF tree t0(1,2) agree, of _ 0 root] sem d
    by (simp add: translate_def fun_eq_iff root_def)
qed

text \<open>The loop that fills the new table.\<close>

lemma fill_table_layout:
  "same_layout s (fill_table j table base step flags s)"
  "placement_address (fill_table j table base step flags s) = placement_address s"
  "tlb (fill_table j table base step flags s) = tlb s"
  by (induction j) (auto simp: vstore_def same_layout_def)

lemma of_nat_le_511: "i \<le> 511 \<Longrightarrow> (of_nat i :: u64) \<le> 0x1FF" for i :: nat
  by (simp add: word_le_nat_alt unat_of_nat)

lemma fill_table_mem:
  fixes n base step flags :: u64
  assumes n: "PAGE_GET_ADDR n = n" "unat (hhdm_offset s) + unat n + 4096 \<le> unat (kernel_virt_base s)"
    and j: "j \<le> 512"
  defines "s' \<equiv> fill_table j (phys_to_virt s n) base step flags s"
  shows "\<And>i. i < j \<Longrightarrow> pmem s' (entry_ptr n (of_nat i)) = (base + of_nat i * step) OR flags"
    and "\<And>a. \<not> a - n < 4096 \<Longrightarrow> pmem s' a = pmem s a"
proof -
  have "(\<forall>i < j. pmem s' (entry_ptr n (of_nat i)) = (base + of_nat i * step) OR flags) \<and>
        (\<forall>a. \<not> a - n < 4096 \<longrightarrow> pmem s' a = pmem s a)"
    using j unfolding s'_def
  proof (induction j)
    case (Suc j)
    let ?s = "fill_table j (phys_to_virt s n) base step flags s"
    have lay: "virt_to_phys ?s = virt_to_phys s"
      by (rule same_layout_windows(1)) (rule fill_table_layout)
    have j: "(of_nat j :: u64) \<le> 0x1FF" using Suc.prems by (simp add: of_nat_le_511)
    have st: "pmem (fill_table (Suc j) (phys_to_virt s n) base step flags s) =
        (pmem ?s)(entry_ptr n (of_nat j) := (base + of_nat j * step) OR flags)"
      using entry_access [OF n j] by (simp add: vstore_def lay)
    have "entry_ptr n (of_nat i) \<noteq> entry_ptr n (of_nat j)" if "i < j" for i
    proof -
      have "(of_nat i :: u64) \<le> 0x1FF" "(of_nat i :: u64) \<noteq> of_nat j"
        using that Suc.prems by (simp_all add: of_nat_le_511 word_unat_eq_iff unat_of_nat)
      then show ?thesis using n j by (simp add: entry_ptr_inj)
    qed
    moreover have "a \<noteq> entry_ptr n (of_nat j)" if "\<not> a - n < 4096" for a
      using that entry_in_page [OF n(1) n(1) j] by auto
    ultimately show ?case
      unfolding st using Suc by (auto simp: less_Suc_eq)
  qed simp
  then show "\<And>i. i < j \<Longrightarrow> pmem s' (entry_ptr n (of_nat i)) = (base + of_nat i * step) OR flags"
    "\<And>a. \<not> a - n < 4096 \<Longrightarrow> pmem s' a = pmem s a"
    by simp_all
qed

section \<open>Splitting a huge page\<close>

lemma bit_high: "bit (x :: u64) k \<Longrightarrow> k < 64"
  using bit_imp_le_length [of x k] by simp

text \<open>The entries of the new table: entry \<open>i\<close> maps the \<open>i\<close>-th part of the huge page.\<close>

lemma bit_part_addr:
  fixes huge i :: u64
  assumes "i \<le> 0x1FF" "b + 9 < 64"
  shows "bit ((huge AND NOT (2 ^ b * 512 - 1)) + i * 2 ^ b) k \<longleftrightarrow>
    (if k < b then False else if k < b + 9 then bit i (k - b) else bit huge k)"
proof -
  have ib: "\<not> bit i k" if "9 \<le> k" for k
  proof -
    have "i = i AND mask 9"
      using assms(1) by (simp add: mask_eq_exp_minus_1 word_unat_eq_iff unat_and_mask [of i 9, unfolded mask_eq_exp_minus_1, simplified] word_le_nat_alt)
    then show ?thesis using that by (metis bit_and_iff bit_mask_iff not_le)
  qed
  have m: "(2 :: u64) ^ b * 512 - 1 = mask (b + 9)"
    by (simp add: mask_eq_exp_minus_1 power_add)
  have "(huge AND NOT (2 ^ b * 512 - 1)) + i * 2 ^ b =
        (huge AND NOT (mask (b + 9))) OR push_bit b i"
    unfolding m push_bit_eq_mult [symmetric]
    using ib by (intro disjunctive_add) (auto simp: bit_simps)
  then show ?thesis
    using ib assms(2) by (auto simp: bit_simps dest: bit_high)
qed

definition part_entry :: "nat \<Rightarrow> u64 \<Rightarrow> u64 \<Rightarrow> u64" where
  "part_entry l e i =
     ((PAGE_GET_ADDR e AND NOT (2 ^ page_bits l * 512 - 1)) + i * 2 ^ page_bits l) OR
     (if l = 1 then (e AND NOT PAGE_FRAME_MASK) AND NOT PAGE_PS else e AND NOT PAGE_FRAME_MASK)"

lemma bit_part_entry:
  assumes "i \<le> 0x1FF" "l = 1 \<or> l = 2" "k < 64"
  shows "bit (part_entry l e i) k \<longleftrightarrow>
    (if k < 12 \<or> 52 \<le> k then bit e k \<and> \<not> (k = 7 \<and> l = 1)
     else if k < page_bits l then False
     else if k < page_bits l + 9 then bit i (k - page_bits l)
     else bit e k)"
proof -
  have b: "12 \<le> page_bits l" "page_bits l + 9 \<le> 30"
    using assms(2) by (auto simp: page_bits_def)
  have "bit (part_entry l e i) k \<longleftrightarrow>
      (if k < page_bits l then False else if k < page_bits l + 9 then bit i (k - page_bits l)
       else bit (PAGE_GET_ADDR e) k) \<or>
      (bit e k \<and> (k < 12 \<or> 52 \<le> k) \<and> \<not> (k = 7 \<and> l = 1))"
    using bit_part_addr [OF assms(1), of "page_bits l" "PAGE_GET_ADDR e" k] b assms(3)
    unfolding part_entry_def bit_or_iff by (auto simp: entry_bits bit_not_iff)
  then show ?thesis
    using b by (auto simp: bit_PAGE_GET_ADDR)
qed

lemma part_entry_flags:
  assumes "i \<le> 0x1FF" "l = 1 \<or> l = 2"
  shows "present (part_entry l e i) = present e"
    and "leaf (Suc l) e \<Longrightarrow> leaf l (part_entry l e i)"
  using assms(2) by (auto simp: present_def leaf_def flag_bits bit_part_entry [OF assms])

lemma part_entry_rights:
  assumes "i \<le> 0x1FF" "l = 1 \<or> l = 2" "PAGE_GET_ADDR n = n"
  shows "restrict_rights (restrict_rights r (n OR PAGE_PRESENT OR PAGE_WRITE OR
            (e AND (PAGE_USER OR PAGE_NX)))) (part_entry l e i) = restrict_rights r e"
proof -
  have "bit n k \<Longrightarrow> 12 \<le> k \<and> k < 52" for k
    using bit_PAGE_GET_ADDR [of n k] assms(3) by simp
  then have "bit n 1 = False" "bit n 2 = False" "bit n 63 = False"
    by fastforce+
  then show ?thesis
    by (cases r) (auto simp: restrict_rights_def flag_bits bit_part_entry [OF assms(1,2)] entry_bits)
qed

lemma bit_lv_index: "bit (lv_index l v) k \<longleftrightarrow> k < 9 \<and> bit v (page_bits l + k)"
proof -
  have m: "(0x1FF :: u64) = mask 9" by (simp add: mask_eq_exp_minus_1)
  show ?thesis
    unfolding lv_index_def m by (auto simp: bit_and_iff bit_drop_bit_eq bit_mask_iff)
qed

lemma part_entry_addr:
  assumes "l = 1 \<or> l = 2"
  shows "leaf_addr l (part_entry l e (lv_index l v)) v = leaf_addr (Suc l) e v"
proof (rule bit_word_eqI)
  fix k assume "k < LENGTH(64)"
  then have k: "k < 64" by simp
  have b: "page_bits (Suc l) = page_bits l + 9" "12 \<le> page_bits l" "page_bits l + 9 \<le> 30"
    using assms by (auto simp: page_bits_def)
  show "bit (leaf_addr l (part_entry l e (lv_index l v)) v) k \<longleftrightarrow> bit (leaf_addr (Suc l) e v) k"
    using b k bit_part_entry [OF lv_index_le assms k, of e l v] bit_lv_index [of l v "k - page_bits l"]
    by (auto simp: leaf_addr_def bit_or_iff bit_and_iff bit_not_iff bit_mask_iff bit_PAGE_GET_ADDR)
qed

section \<open>The descents\<close>

text \<open>What one descent does: it keeps the invariant, the translation of every address and the
  layout, it adds nothing to the TLB, and it yields the next table on the path of the address.\<close>

definition descent_ok ::
  "mm \<Rightarrow> virt_addr \<Rightarrow> nat \<Rightarrow> bool \<Rightarrow> u64 \<Rightarrow> nat \<Rightarrow> virt_addr option \<times> mm \<Rightarrow> bool" where
  "descent_ok s v d create cr3 k res \<longleftrightarrow>
     (case res of (r, s') \<Rightarrow>
        pt_inv s' cr3 k \<and> same_layout s s' \<and> tlb s' \<subseteq> tlb s \<and>
        translate (pmem s') cr3 = translate (pmem s) cr3 \<and>
        (case r of
           None \<Rightarrow> \<not> create \<and> s' = s \<and> translate (pmem s) cr3 v = None
         | Some x \<Rightarrow> \<exists>t. x = phys_to_virt s t \<and>
                       table_at (pmem s') (PAGE_GET_ADDR cr3) (vpath v d) = Some t))"

text \<open>A fresh, empty table.\<close>

lemma install_empty:
  assumes inv: "pt_inv s cr3 (Suc k)"
    and t: "table_at (pmem s) (PAGE_GET_ADDR cr3) (vpath v d) = Some t" "d \<le> 2"
    and np: "\<not> present (pmem s (entry_ptr t (lv_index (4 - d) v)))"
    and alloc: "kmalloc_az 4096 s = (tab, s1)"
  shows "descent_ok s v (Suc d) True cr3 k
    (Some tab, vstore (entry_ptr (phys_to_virt s t) (lv_index (4 - d) v))
                 (virt_to_phys s1 tab OR PAGE_PRESENT OR PAGE_WRITE) s1)"
proof -
  let ?n = "next_frame s" and ?i = "lv_index (4 - d) v"
  let ?s' = "vstore (entry_ptr (phys_to_virt s t) ?i) (virt_to_phys s1 tab OR PAGE_PRESENT OR PAGE_WRITE) s1"
  have room: "heap_room s (Suc k)" using inv by (simp add: pt_inv_def)
  note K = kmalloc_az_table [OF room alloc]
  note T = pt_inv_table [OF inv table_at_is_table [OF t(1) vpath_valid]]
  note n = fresh_frame [OF inv]
  have tn: "t \<noteq> ?n" using n(1) table_at_is_table [OF t(1) vpath_valid] by auto
  have m': "pmem ?s' = (pmem s1)(entry_ptr t ?i := ?n OR PAGE_PRESENT OR PAGE_WRITE)"
    using entry_access [OF T(1,2) lv_index_le] K(2) same_layout_windows(1) [OF K(4)]
    by (simp add: vstore_def)
  have at: "pmem ?s' (entry_ptr t ?i) = ?n OR PAGE_PRESENT OR PAGE_WRITE"
    by (simp add: m')
  have frame: "pmem ?s' a = pmem s a" if "\<not> a - ?n < 4096" "a \<noteq> entry_ptr t ?i" for a
    using that by (simp add: m' K(3))
  have zero: "pmem ?s' (entry_ptr ?n i) = 0" if "i \<le> 0x1FF" for i
    using that tn n(2) T(1) entry_in_page [OF n(2) n(2) that]
    by (simp add: m' K(3) entry_ptr_inj)
  have tt: "to_table (4 - d) (?n OR PAGE_PRESENT OR PAGE_WRITE)"
  proof -
    have "\<not> bit ?n 7" using bit_PAGE_GET_ADDR [of ?n 7] n(2) by simp
    then show ?thesis
      using t(2) by (auto simp: to_table_def present_def leaf_def flag_bits entry_bits)
  qed
  have lay: "same_layout s ?s'"
    using K(4) by (simp add: same_layout_def vstore_def)
  have nf: "unat (next_frame ?s') = unat ?n + 4096" "heap_room ?s' k"
    using K(7,8) by (simp_all add: next_frame_def vstore_def heap_room_def)
  have np0: "present 0 = False" by (simp add: present_def)
  have sem: "walk (pmem ?s') (4 - d) t w r = walk (pmem s) (4 - d) t w r"
    if "vpath w (Suc d) = ?i # vpath v d" for w r
  proof -
    have i: "lv_index (4 - d) w = ?i" using that by simp
    have "walk (pmem s) (4 - d) t w r = None"
      using np t(2) by (subst walk_step) (simp_all add: Let_def i)
    moreover have "walk (pmem ?s') (3 - d) ?n w r' = None" for r'
      using zero [OF lv_index_le] np0 t(2) by (subst walk_step) (simp_all add: Let_def)
    then have "walk (pmem ?s') (4 - d) t w r = None"
      using tt n(2) t(2) by (subst walk_step) (simp_all add: Let_def i at to_table_def new_entry)
    ultimately show ?thesis by simp
  qed
  have old: "\<not> to_table (4 - d) (pmem s (entry_ptr t ?i))"
    using np by (simp add: to_table_def)
  have new: "to_table (4 - d) (pmem ?s' (entry_ptr t ?i))" "PAGE_GET_ADDR (pmem ?s' (entry_ptr t ?i)) = ?n"
    using tt n(2) unfolding at by (simp_all add: new_entry)
  have sub: "\<not> to_table (3 - d) (pmem ?s' (entry_ptr ?n i))" if "i \<le> 0x1FF" for i
    unfolding zero [OF that] by (simp add: to_table_def np0)
  note I = install_table [OF inv lay nf(2,1) t(1) vpath_valid lv_index_le length_vpath frame old new
      sub sem]
  have "tlb ?s' \<subseteq> tlb s" using K(5) by (simp add: vstore_def)
  then show ?thesis
    unfolding descent_ok_def prod.case option.case vpath.simps using I lay K(1) by blast
qed

text \<open>The table \<^verbatim>\<open>split_huge_entry\<close> builds.\<close>

lemma split_huge_entry_table:
  assumes room: "heap_room s (Suc k)" and l: "l = 1 \<or> l = 2"
    and split: "split_huge_entry e (2 ^ page_bits l) s = (n, s')"
  shows "n = next_frame s" "same_layout s s'" "tlb s' = tlb s"
    and "unat (next_frame s') = unat (next_frame s) + 4096" "heap_room s' k"
    and "\<And>i. i \<le> 0x1FF \<Longrightarrow> pmem s' (entry_ptr (next_frame s) i) = part_entry l e i"
    and "\<And>a. \<not> a - next_frame s < 4096 \<Longrightarrow> pmem s' a = pmem s a"
proof -
  let ?n = "next_frame s" and ?step = "2 ^ page_bits l :: u64"
  let ?base = "PAGE_GET_ADDR e AND NOT (?step * 512 - 1)"
  let ?flags = "if l = 1 then (e AND NOT PAGE_FRAME_MASK) AND NOT PAGE_PS else e AND NOT PAGE_FRAME_MASK"
  obtain tab s1 where alloc: "kmalloc_az 4096 s = (tab, s1)"
    by (cases "kmalloc_az 4096 s") auto
  note K = kmalloc_az_table [OF room alloc] and F = heap_room_facts [OF room]
  have step: "?step = PAGE_SIZE \<longleftrightarrow> l = 1"
    using l by (auto simp: page_bits_def PAGE_SIZE_def)
  have s': "s' = fill_table 512 tab ?base ?step ?flags s1" and n: "n = virt_to_phys s' tab"
    using split alloc step by (auto simp: split_huge_entry_def Let_def)
  have lay1: "same_layout s1 s'" "placement_address s' = placement_address s1" "tlb s' = tlb s1"
    unfolding s' by (rule fill_table_layout)+
  show lay: "same_layout s s'" and "tlb s' = tlb s"
    using same_layout_trans [OF K(4) lay1(1)] lay1(3) K(5) by simp_all
  show "n = ?n"
    unfolding n using same_layout_windows(1) [OF lay1(1)] K(2) by simp
  have "next_frame s' = next_frame s1"
    using lay1 by (simp add: next_frame_def same_layout_def)
  then show "unat (next_frame s') = unat ?n + 4096" "heap_room s' k"
    using K(7,8) lay1 by (simp_all add: heap_room_def same_layout_def)
  have tab: "tab = phys_to_virt s1 ?n"
    using K(1) same_layout_windows(2) [OF K(4)] by simp
  have bnd: "unat (hhdm_offset s1) + unat ?n + 4096 \<le> unat (kernel_virt_base s1)"
    using F(5) K(4) by (simp add: same_layout_def)
  note M = fill_table_mem [OF F(4) bnd order_refl, where base = ?base and step = ?step and
      flags = ?flags, folded tab, folded s']
  show "pmem s' (entry_ptr ?n i) = part_entry l e i" if "i \<le> 0x1FF" for i
  proof -
    have "unat i < 512" using that by (simp add: word_le_nat_alt)
    then show ?thesis
      using M(1) [of "unat i"] by (simp add: part_entry_def)
  qed
  show "pmem s' a = pmem s a" if "\<not> a - ?n < 4096" for a
    using M(2) [OF that] that by (simp add: K(3))
qed

lemma install_split:
  assumes inv: "pt_inv s cr3 (Suc k)"
    and t: "table_at (pmem s) (PAGE_GET_ADDR cr3) (vpath v d) = Some t" "d = 1 \<or> d = 2"
    and e: "pmem s (entry_ptr t (lv_index (4 - d) v)) = e" "present e" "e AND PAGE_PS \<noteq> 0"
    and split: "split_huge_entry e (2 ^ page_bits (3 - d)) s = (n, s1)"
  defines "s' \<equiv> vstore (entry_ptr (phys_to_virt s t) (lv_index (4 - d) v))
                 (n OR PAGE_PRESENT OR PAGE_WRITE OR (e AND (PAGE_USER OR PAGE_NX))) s1"
  shows "pt_inv s' cr3 k" "same_layout s s'" "tlb s' = tlb s"
    "translate (pmem s') cr3 = translate (pmem s) cr3"
    "table_at (pmem s') (PAGE_GET_ADDR cr3) (vpath v (Suc d)) = Some n"
    "pmem s1 (entry_ptr t (lv_index (4 - d) v)) = e"
    "PAGE_GET_ADDR (pmem s' (entry_ptr t (lv_index (4 - d) v))) = n"
proof -
  let ?i = "lv_index (4 - d) v"
  let ?e' = "n OR PAGE_PRESENT OR PAGE_WRITE OR (e AND (PAGE_USER OR PAGE_NX))"
  have room: "heap_room s (Suc k)" using inv by (simp add: pt_inv_def)
  have l: "3 - d = 1 \<or> 3 - d = 2" "Suc (3 - d) = 4 - d" using t(2) by auto
  note S = split_huge_entry_table [OF room l(1) split]
  note T = pt_inv_table [OF inv table_at_is_table [OF t(1) vpath_valid]]
  note N = fresh_frame [OF inv, folded S(1)]
  have tn: "t \<noteq> n" using N(1) table_at_is_table [OF t(1) vpath_valid] by auto
  have m': "pmem s' = (pmem s1)(entry_ptr t ?i := ?e')"
    using entry_access [OF T(1,2) lv_index_le] same_layout_windows(1) [OF S(2)]
    by (simp add: vstore_def s'_def)
  have at: "pmem s' (entry_ptr t ?i) = ?e'" by (simp add: m')
  have out: "\<not> entry_ptr t ?i - n < 4096"
    using entry_in_page [OF N(2) T(1) lv_index_le] tn by simp
  show "pmem s1 (entry_ptr t ?i) = e"
    using S(7) out e(1) S(1) by simp
  have frame: "pmem s' a = pmem s a" if "\<not> a - next_frame s < 4096" "a \<noteq> entry_ptr t ?i" for a
    using that S(7) by (simp add: m')
  have part: "pmem s' (entry_ptr n i) = part_entry (3 - d) e i" if "i \<le> 0x1FF" for i
    using that tn N(2) T(1) S(1,6) by (simp add: m' entry_ptr_inj)
  have lf: "leaf (4 - d) e" using t(2) e(3) by (auto simp: leaf_def)
  have tt: "to_table (4 - d) ?e'"
  proof -
    have "\<not> bit n 7" using bit_PAGE_GET_ADDR [of n 7] N(2) by simp
    then show ?thesis
      using t(2) by (auto simp: to_table_def present_def leaf_def flag_bits entry_bits)
  qed
  have pp: "present (part_entry (3 - d) e i)" "leaf (3 - d) (part_entry (3 - d) e i)"
    if "i \<le> 0x1FF" for i
    using part_entry_flags [OF that l(1), of e] e(2) lf l(2) by simp_all
  show lay: "same_layout s s'"
    using S(2) by (simp add: same_layout_def vstore_def s'_def)
  have nf: "unat (next_frame s') = unat (next_frame s) + 4096" "heap_room s' k"
    using S(4,5) by (simp_all add: next_frame_def vstore_def heap_room_def s'_def)
  have sem: "walk (pmem s') (4 - d) t w r = walk (pmem s) (4 - d) t w r"
    if "vpath w (Suc d) = ?i # vpath v d" for w r
  proof -
    have i: "lv_index (4 - d) w = ?i" using that by simp
    have "walk (pmem s) (4 - d) t w r = Some (leaf_addr (4 - d) e w, restrict_rights r e)"
      using e lf t(2) by (subst walk_step) (auto simp: Let_def i)
    moreover have "walk (pmem s') (3 - d) n w (restrict_rights r ?e') =
        Some (leaf_addr (4 - d) e w, restrict_rights r e)"
      using part [OF lv_index_le] pp [OF lv_index_le] t(2)
        part_entry_addr [OF l(1), of e w] part_entry_rights [OF lv_index_le l(1) N(2)] l(2)
      by (subst walk_step) (auto simp: Let_def)
    then have "walk (pmem s') (4 - d) t w r = Some (leaf_addr (4 - d) e w, restrict_rights r e)"
      using tt N(2) t(2) by (subst walk_step) (auto simp: Let_def i at to_table_def new_entry)
    ultimately show ?thesis by simp
  qed
  have old: "\<not> to_table (4 - d) (pmem s (entry_ptr t ?i))"
    using e(1) lf by (simp add: to_table_def)
  show "PAGE_GET_ADDR (pmem s' (entry_ptr t ?i)) = n"
    unfolding at by (rule new_entry(2) [OF N(2)])
  then have new: "to_table (4 - d) (pmem s' (entry_ptr t ?i))"
    "PAGE_GET_ADDR (pmem s' (entry_ptr t ?i)) = next_frame s"
    using tt S(1) unfolding at by simp_all
  have sub: "\<not> to_table (3 - d) (pmem s' (entry_ptr (next_frame s) i))" if "i \<le> 0x1FF" for i
    using part [OF that] pp(2) [OF that] S(1) by (simp add: to_table_def)
  note I = install_table [OF inv lay nf(2,1) t(1) vpath_valid lv_index_le length_vpath frame old new
      sub sem]
  show "pt_inv s' cr3 k" "translate (pmem s') cr3 = translate (pmem s) cr3"
    "table_at (pmem s') (PAGE_GET_ADDR cr3) (vpath v (Suc d)) = Some n" "tlb s' = tlb s"
    using I S(1,3) unfolding vpath.simps by (simp_all del: table_at.simps add: vstore_def s'_def)
qed

lemma next_table:
  assumes "table_at m root (vpath v d) = Some t" "to_table (4 - d) (m (entry_ptr t (lv_index (4 - d) v)))"
  shows "table_at m root (vpath v (Suc d)) = Some (PAGE_GET_ADDR (m (entry_ptr t (lv_index (4 - d) v))))"
  using assms by (simp add: Let_def)

lemma descent_stay:
  assumes "pt_inv s cr3 (Suc k)" "table_at (pmem s) (PAGE_GET_ADDR cr3) (vpath v d) = Some t" "d \<le> 2"
    and "\<not> present (pmem s (entry_ptr t (lv_index (4 - d) v)))"
  shows "descent_ok s v (Suc d) False cr3 k (None, s)"
  using assms pt_inv_mono [OF assms(1), of k] translate_stop [OF assms(2) _ assms(4)]
  by (simp add: descent_ok_def)

lemma descent_follow:
  assumes "pt_inv s cr3 (Suc k)" "table_at (pmem s) (PAGE_GET_ADDR cr3) (vpath v d) = Some t"
    and "to_table (4 - d) (pmem s (entry_ptr t (lv_index (4 - d) v)))"
  shows "descent_ok s v (Suc d) create cr3 k
    (Some (phys_to_virt s (PAGE_GET_ADDR (pmem s (entry_ptr t (lv_index (4 - d) v))))), s)"
  using pt_inv_mono [OF assms(1), of k] next_table [OF assms(2,3)]
  unfolding descent_ok_def by auto

lemma not_present_iff: "e AND PAGE_PRESENT = 0 \<longleftrightarrow> \<not> present e"
  by (simp add: present_def)

lemma get_pud_ok:
  assumes inv: "pt_inv s cr3 (Suc k)"
  shows "descent_ok s v 1 create cr3 k
    (get_pud (entry_ptr (phys_to_virt s (PAGE_GET_ADDR cr3)) (lv_index 4 v)) create s)"
proof -
  let ?root = "PAGE_GET_ADDR cr3"
  let ?e = "pmem s (entry_ptr ?root (lv_index 4 v))"
  have t: "table_at (pmem s) ?root (vpath v 0) = Some ?root" by simp
  note T = pt_inv_table [OF inv table_at_is_table [OF t vpath_valid]]
  have ld: "vload s (entry_ptr (phys_to_virt s ?root) (lv_index 4 v)) = ?e"
    using entry_access [OF T(1,2) lv_index_le] by (simp add: vload_def)
  obtain tab s1 where alloc: "kmalloc_az 4096 s = (tab, s1)"
    by (cases "kmalloc_az 4096 s") auto
  have "to_table 4 ?e" if "present ?e"
    using that by (simp add: to_table_def leaf_def)
  then show ?thesis
    using install_empty [OF inv t _ _ alloc] descent_stay [OF inv t] descent_follow [OF inv t]
    by (auto simp: get_pud_def ld not_present_iff alloc Let_def)
qed

lemma get_next_ok:
  assumes inv: "pt_inv s cr3 (Suc k)"
    and t: "table_at (pmem s) (PAGE_GET_ADDR cr3) (vpath v d) = Some t" "d = 1 \<or> d = 2"
  shows "descent_ok s v (Suc d) create cr3 k
    (get_next (2 ^ page_bits (3 - d)) (entry_ptr (phys_to_virt s t) (lv_index (4 - d) v)) create cr3 s)"
proof -
  let ?p = "entry_ptr (phys_to_virt s t) (lv_index (4 - d) v)"
  let ?e = "pmem s (entry_ptr t (lv_index (4 - d) v))"
  note T = pt_inv_table [OF inv table_at_is_table [OF t(1) vpath_valid]]
  have acc: "virt_to_phys s ?p = entry_ptr t (lv_index (4 - d) v)"
    using entry_access [OF T(1,2) lv_index_le] .
  have ld: "vload s ?p = ?e" using acc by (simp add: vload_def)
  obtain tab s1 where alloc: "kmalloc_az 4096 s = (tab, s1)"
    by (cases "kmalloc_az 4096 s") auto
  consider "\<not> present ?e" | "present ?e" "?e AND PAGE_PS = 0" | "present ?e" "?e AND PAGE_PS \<noteq> 0"
    by blast
  then show ?thesis
  proof cases
    case 1
    then show ?thesis
      using install_empty [OF inv t(1) _ _ alloc] descent_stay [OF inv t(1)] t(2)
      by (auto simp: get_next_def ld not_present_iff alloc Let_def)
  next
    case 2
    then have "to_table (4 - d) ?e" using t(2) by (auto simp: to_table_def leaf_def)
    then show ?thesis
      using 2 descent_follow [OF inv t(1)] by (simp add: get_next_def ld not_present_iff Let_def)
  next
    case 3
    obtain n s1 where split: "split_huge_entry ?e (2 ^ page_bits (3 - d)) s = (n, s1)"
      by (cases "split_huge_entry ?e (2 ^ page_bits (3 - d)) s") auto
    define s2 where
      "s2 = vstore ?p (n OR PAGE_PRESENT OR PAGE_WRITE OR (?e AND (PAGE_USER OR PAGE_NX))) s1"
    define s3 where "s3 = (if cr3 = read_cr3 s2 then flush_tlb_all s2 else s2)"
    note S = install_split [OF inv t refl 3 split, folded s2_def]
    have lay1: "virt_to_phys s1 = virt_to_phys s"
      using split_huge_entry_table(2) [OF _ _ split] inv t(2)
      by (intro same_layout_windows(1)) (auto simp: pt_inv_def)
    have ld1: "vload s1 ?p = ?e"
      using S(6) acc lay1 by (simp add: vload_def)
    have lay3: "same_layout s s3" and m3: "pmem s3 = pmem s2" and tlb3: "tlb s3 \<subseteq> tlb s"
      and nf: "next_frame s3 = next_frame s2"
      using S(2,3) unfolding s3_def by (auto simp: same_layout_def next_frame_def)
    have inv3: "pt_inv s3 cr3 k"
      using S(1) unfolding s3_def by (auto simp: pt_inv_def heap_room_def next_frame_def)
    have ld3: "PAGE_GET_ADDR (vload s3 ?p) = n"
      using S(7) acc m3 same_layout_windows(1) [OF lay3] by (simp add: vload_def)
    have "get_next (2 ^ page_bits (3 - d)) ?p create cr3 s =
        (Some (phys_to_virt s3 (PAGE_GET_ADDR (vload s3 ?p))), s3)"
      using 3 split ld1 by (simp add: get_next_def ld not_present_iff Let_def s3_def s2_def)
    then have "get_next (2 ^ page_bits (3 - d)) ?p create cr3 s = (Some (phys_to_virt s n), s3)"
      using ld3 same_layout_windows(2) [OF lay3] by simp
    then show ?thesis
      using inv3 lay3 tlb3 m3 S(4,5) by (simp add: descent_ok_def del: vpath.simps)
  qed
qed

lemma descent_ok_simps:
  "descent_ok s v d create cr3 k (None, s') \<longleftrightarrow>
     pt_inv s cr3 k \<and> s' = s \<and> \<not> create \<and> translate (pmem s) cr3 v = None"
  "descent_ok s v d create cr3 k (Some x, s') \<longleftrightarrow>
     pt_inv s' cr3 k \<and> same_layout s s' \<and> tlb s' \<subseteq> tlb s \<and>
     translate (pmem s') cr3 = translate (pmem s) cr3 \<and>
     (\<exists>t. x = phys_to_virt s t \<and> table_at (pmem s') (PAGE_GET_ADDR cr3) (vpath v d) = Some t)"
  by (auto simp: descent_ok_def)

lemma get_pd_ok:
  assumes "pt_inv s cr3 (Suc k)" "table_at (pmem s) (PAGE_GET_ADDR cr3) (vpath v 1) = Some t"
  shows "descent_ok s v 2 create cr3 k
    (get_pd (entry_ptr (phys_to_virt s t) (PDPT_INDEX v)) create cr3 s)"
proof -
  have "2 ^ page_bits (3 - 1) = (0x200000 :: u64)" "4 - 1 = (3 :: nat)" "Suc 1 = 2"
    by (simp_all add: page_bits_def)
  then show ?thesis
    using get_next_ok [OF assms, of create] by (simp only: get_pd_def index_simps) simp
qed

lemma get_pt_ok:
  assumes "pt_inv s cr3 (Suc k)" "table_at (pmem s) (PAGE_GET_ADDR cr3) (vpath v 2) = Some t"
  shows "descent_ok s v 3 create cr3 k
    (get_pt (entry_ptr (phys_to_virt s t) (PD_INDEX v)) create cr3 s)"
proof -
  have "2 ^ page_bits (3 - 2) = PAGE_SIZE" "4 - 2 = (2 :: nat)" "Suc 2 = 3"
    by (simp_all add: page_bits_def PAGE_SIZE_def)
  then show ?thesis
    using get_next_ok [OF assms, of create] by (simp only: get_pt_def index_simps) simp
qed

text \<open>The whole walk to the page-table entry.\<close>

definition entry_ok ::
  "mm \<Rightarrow> virt_addr \<Rightarrow> bool \<Rightarrow> u64 \<Rightarrow> nat \<Rightarrow> virt_addr option \<times> mm \<Rightarrow> bool" where
  "entry_ok s v create cr3 k res \<longleftrightarrow>
     (case res of (r, s') \<Rightarrow>
        pt_inv s' cr3 k \<and> same_layout s s' \<and> tlb s' \<subseteq> tlb s \<and>
        translate (pmem s') cr3 = translate (pmem s) cr3 \<and>
        (case r of
           None \<Rightarrow> \<not> create \<and> translate (pmem s) cr3 v = None
         | Some x \<Rightarrow> \<exists>t. x = entry_ptr (phys_to_virt s t) (lv_index 1 v) \<and>
                       table_at (pmem s') (PAGE_GET_ADDR cr3) (vpath v 3) = Some t))"

lemma entry_ok_stop:
  assumes "same_layout s s1" "tlb s1 \<subseteq> tlb s" "translate (pmem s1) cr3 = translate (pmem s) cr3"
    and "descent_ok s1 v d create cr3 k' (None, s2)" "k \<le> k'"
  shows "entry_ok s v create cr3 k (None, s2)"
  using assms by (auto simp: entry_ok_def descent_ok_simps intro: pt_inv_mono)

lemma get_page_entry_ok:
  assumes inv: "pt_inv s cr3 (k + 3)"
  shows "entry_ok s v create cr3 k (get_page_entry v create cr3 s)"
proof -
  have inv': "pt_inv s cr3 (Suc (Suc (Suc k)))" using inv by (simp add: eval_nat_numeral)
  let ?p1 = "entry_ptr (phys_to_virt s (PAGE_GET_ADDR cr3)) (PML4_INDEX v)"
  obtain r1 s1 where g1: "get_pud ?p1 create s = (r1, s1)" by (meson surj_pair)
  have 1: "descent_ok s v 1 create cr3 (Suc (Suc k)) (r1, s1)"
    using get_pud_ok [OF inv', of v create] g1 by (simp add: index_simps)
  show ?thesis
  proof (cases r1)
    case None
    then show ?thesis
      using g1 1 entry_ok_stop [of s s] by (simp add: get_page_entry_def)
  next
    case (Some pud)
    then obtain t1 where t1: "pud = phys_to_virt s1 t1"
        "table_at (pmem s1) (PAGE_GET_ADDR cr3) (vpath v 1) = Some t1"
      and i1: "pt_inv s1 cr3 (Suc (Suc k))" and l1: "same_layout s s1" and u1: "tlb s1 \<subseteq> tlb s"
      and x1: "translate (pmem s1) cr3 = translate (pmem s) cr3"
      using 1 by (auto simp: descent_ok_simps same_layout_windows simp del: vpath.simps)
    let ?p2 = "entry_ptr pud (PDPT_INDEX v)"
    obtain r2 s2 where g2: "get_pd ?p2 create cr3 s1 = (r2, s2)" by (meson surj_pair)
    have 2: "descent_ok s1 v 2 create cr3 (Suc k) (r2, s2)"
      using get_pd_ok [OF i1 t1(2), of create] g2 t1(1) by simp
    show ?thesis
    proof (cases r2)
      case None
      then show ?thesis
        using g1 g2 Some 2 entry_ok_stop [OF l1 u1 x1] by (simp add: get_page_entry_def)
    next
      case (Some pd)
      then obtain t2 where t2: "pd = phys_to_virt s2 t2"
          "table_at (pmem s2) (PAGE_GET_ADDR cr3) (vpath v 2) = Some t2"
        and i2: "pt_inv s2 cr3 (Suc k)" and l2: "same_layout s s2" and u2: "tlb s2 \<subseteq> tlb s"
        and x2: "translate (pmem s2) cr3 = translate (pmem s) cr3"
        using 2 l1 u1 x1
        by (auto simp: descent_ok_simps same_layout_windows simp del: vpath.simps
            intro: same_layout_trans)
      let ?p3 = "entry_ptr pd (PD_INDEX v)"
      obtain r3 s3 where g3: "get_pt ?p3 create cr3 s2 = (r3, s3)" by (meson surj_pair)
      have 3: "descent_ok s2 v 3 create cr3 k (r3, s3)"
        using get_pt_ok [OF i2 t2(2), of create] g3 t2(1) by simp
      have "get_page_entry v create cr3 s =
          (map_option (\<lambda>pt. entry_ptr pt (PT_INDEX v)) r3, s3)"
        using g1 g2 g3 \<open>r1 = Some pud\<close> Some
        by (simp add: get_page_entry_def Let_def split: option.split)
      then show ?thesis
        using 3 entry_ok_stop [OF l2 u2 x2, of v 3 create k s3 k] l2 u2 x2 same_layout_trans [OF l2]
        by (cases r3) (auto simp: entry_ok_def descent_ok_simps index_simps
            same_layout_windows [OF l2] simp del: vpath.simps)
    qed
  qed
qed

section \<open>Writing a page-table entry\<close>

text \<open>Addresses of the same 4 KiB page, as the processor sees them (48 bits).\<close>

definition same_page :: "virt_addr \<Rightarrow> virt_addr \<Rightarrow> bool" where
  "same_page v w \<longleftrightarrow> (v XOR w) AND 0x0000FFFFFFFFF000 = 0"

lemma same_page_bits: "same_page v w \<longleftrightarrow> (\<forall>k. 12 \<le> k \<longrightarrow> k < 48 \<longrightarrow> bit v k = bit w k)"
proof -
  have m: "(0x0000FFFFFFFFF000 :: u64) = mask 48 AND NOT (mask 12)"
    by (simp add: mask_eq_exp_minus_1)
  have "bit ((v XOR w) AND 0x0000FFFFFFFFF000) k \<longleftrightarrow> 12 \<le> k \<and> k < 48 \<and> bit v k \<noteq> bit w k" for k
    unfolding m by (auto simp: bit_and_iff bit_xor_iff bit_not_iff bit_mask_iff)
  then show ?thesis
    unfolding same_page_def bit_eq_iff by (auto simp: bit_0_eq)
qed

lemma lv_index_eq: "lv_index l v = lv_index l w \<longleftrightarrow> (\<forall>k<9. bit v (page_bits l + k) = bit w (page_bits l + k))"
proof
  assume "lv_index l v = lv_index l w"
  then show "\<forall>k<9. bit v (page_bits l + k) = bit w (page_bits l + k)"
    by (metis bit_lv_index)
qed (auto intro!: bit_word_eqI simp: bit_lv_index)

lemma split_range: "(\<forall>k. 12 \<le> k \<longrightarrow> k < 48 \<longrightarrow> P k) \<longleftrightarrow>
    (\<forall>k<9. P (39 + k)) \<and> (\<forall>k<9. P (30 + k)) \<and> (\<forall>k<9. P (21 + k)) \<and> (\<forall>k<9. P (12 + k))"
  for P :: "nat \<Rightarrow> bool"
proof -
  have "P k" if "\<forall>k<9. P (39 + k)" "\<forall>k<9. P (30 + k)" "\<forall>k<9. P (21 + k)" "\<forall>k<9. P (12 + k)"
    "12 \<le> k" "k < 48" for k
    using that(1) [rule_format, of "k - 39"] that(2) [rule_format, of "k - 30"]
      that(3) [rule_format, of "k - 21"] that(4) [rule_format, of "k - 12"] that(5,6)
    by (cases "k < 21"; cases "k < 30"; cases "k < 39") auto
  then show ?thesis by auto
qed

lemma same_page_vpath: "same_page v w \<longleftrightarrow> vpath v 4 = vpath w 4"
  unfolding same_page_bits split_range
  by (auto simp: eval_nat_numeral lv_index_eq page_bits_def)

lemma same_page_align [simp]: "same_page (v AND NOT 0xFFF) w = same_page v w"
  unfolding same_page_bits mask12 by (auto simp: bit_and_iff bit_not_iff bit_mask_iff)

lemma same_page_prefix: "same_page v w \<Longrightarrow> d \<le> 4 \<Longrightarrow> vpath v d = vpath w d"
  unfolding same_page_vpath
  by (auto simp: eval_nat_numeral le_Suc_eq)

lemma rights_at_same_page:
  "same_page v w \<Longrightarrow> d \<le> 4 \<Longrightarrow> rights_at m root v d = rights_at m root w d"
proof (induction d)
  case (Suc d)
  have "lv_index (4 - d) v = lv_index (4 - d) w"
    using same_page_prefix [OF Suc.prems] by simp
  then show ?case
    using Suc same_page_prefix [OF Suc.prems(1), of d] by (auto split: option.split)
qed simp

lemma store_pte:
  assumes inv: "pt_inv s cr3 k" and t: "table_at (pmem s) (PAGE_GET_ADDR cr3) (vpath v 3) = Some t"
  defines "p \<equiv> entry_ptr (phys_to_virt s t) (lv_index 1 v)"
  shows "vload s p = pmem s (entry_ptr t (lv_index 1 v))"
    and "vload (vstore p e s) p = e"
    and "pt_inv (vstore p e s) cr3 k"
    and "table_at (pmem (vstore p e s)) (PAGE_GET_ADDR cr3) (vpath v 3) = Some t"
    and "\<not> same_page v w \<Longrightarrow> translate (pmem (vstore p e s)) cr3 w = translate (pmem s) cr3 w"
    and "same_page v w \<Longrightarrow> translate (pmem (vstore p e s)) cr3 w =
          (if present e
           then Some (leaf_addr 1 e w, restrict_rights (rights_at (pmem s) (PAGE_GET_ADDR cr3) v 3) e)
           else None)"
    and "rights_at (pmem (vstore p e s)) (PAGE_GET_ADDR cr3) v 3 = rights_at (pmem s) (PAGE_GET_ADDR cr3) v 3"
proof -
  let ?root = "PAGE_GET_ADDR cr3" and ?i = "lv_index 1 v"
  let ?m' = "pmem (vstore p e s)"
  note T = pt_inv_table [OF inv table_at_is_table [OF t vpath_valid]]
  have acc: "virt_to_phys s p = entry_ptr t ?i"
    unfolding p_def using entry_access [OF T(1,2) lv_index_le] .
  show "vload s p = pmem s (entry_ptr t ?i)" "vload (vstore p e s) p = e"
    by (simp_all add: vload_def vstore_def acc)
  have m': "?m' = (pmem s)(entry_ptr t ?i := e)" by (simp add: vstore_def acc)
  have tree: "pt_tree (pmem s) ?root" using inv by (simp add: pt_inv_def)
  have agree: "agree_but (pmem s) ?m' ?root t ?i"
    unfolding m' using T(1) by (intro agree_but_upd) simp_all
  have lf: "\<not> to_table (4 - length (vpath v 3)) x" for x
    by (simp add: to_table_def leaf_def)
  have tabs: "table_at ?m' ?root q = table_at (pmem s) ?root q" if "valid_path q" for q
    using table_at_leaf_change [OF tree t vpath_valid agree lf lf that] .
  show t': "table_at ?m' ?root (vpath v 3) = Some t" using tabs [OF vpath_valid] t by simp
  show "pt_inv (vstore p e s) cr3 k"
    using inv pt_tree_cong [of ?m' ?root "pmem s", OF tabs]
    unfolding pt_inv_def by (simp add: heap_room_def next_frame_def vstore_def)
  have v4: "vpath w 4 = lv_index 1 w # vpath w 3" for w
    by (simp add: eval_nat_numeral)
  show "translate ?m' cr3 w = translate (pmem s) cr3 w" if "\<not> same_page v w"
  proof -
    have ne: "vpath w (Suc (length (vpath v 3))) \<noteq> ?i # vpath v 3"
      using that v4 [of v] unfolding same_page_vpath length_vpath by (simp del: vpath.simps)
    have "walk ?m' (4 - 0) ?root w r = walk (pmem s) (4 - 0) ?root w r" for r
      by (rule walk_outside [OF tree t vpath_valid agree]) (use ne in \<open>simp_all del: vpath.simps(2)\<close>)
    then show ?thesis by (simp add: translate_def)
  qed
  show r: "rights_at ?m' ?root v 3 = rights_at (pmem s) ?root v 3"
    using rights_at_outside [OF tree t vpath_valid agree, of 3 v] by simp
  assume sp: "same_page v w"
  have w3: "vpath w 3 = vpath v 3" "lv_index 1 w = ?i"
    using sp by (simp_all add: same_page_vpath v4 del: vpath.simps)
  show "translate ?m' cr3 w = (if present e
           then Some (leaf_addr 1 e w, restrict_rights (rights_at (pmem s) ?root v 3) e) else None)"
    using translate_from_table [of ?m' cr3 w 3 t] t' w3 r rights_at_same_page [OF sp, of 3]
    by (simp add: Let_def m' leaf_def del: vpath.simps)
qed

section \<open>Mapping and unmapping\<close>

lemma pt_inv_upd [simp]:
  "pt_inv (s\<lparr>tlb := T\<rparr>) cr3 k \<longleftrightarrow> pt_inv s cr3 k"
  by (simp add: pt_inv_def heap_room_def next_frame_def)

lemma translate_pte:
  assumes "table_at m (PAGE_GET_ADDR cr3) (vpath v 3) = Some t"
  shows "translate m cr3 v =
    (let e = m (entry_ptr t (lv_index 1 v))
     in if present e then Some (leaf_addr 1 e v, restrict_rights (rights_at m (PAGE_GET_ADDR cr3) v 3) e)
        else None)"
  using translate_from_table [OF assms] by (simp add: Let_def leaf_def)

lemma vstore_twice: "vstore p y (vstore p x s) = vstore p y s"
  by (simp add: vstore_def)

lemma vload_vstore: "vload (vstore p x s) p = x"
  by (simp add: vload_def vstore_def)

text \<open>The entry \<^verbatim>\<open>map_page\<close> builds in up to three writes.\<close>

definition pte_of :: "phys_addr \<Rightarrow> bool \<Rightarrow> bool \<Rightarrow> u64" where
  "pte_of pa iskernel writeable =
     (pa AND NOT 0xFFF) OR PAGE_PRESENT OR (if writeable then PAGE_WRITE else 0) OR
     (if iskernel then 0 else PAGE_USER)"

lemma map_page_eq:
  "map_page v pa iskernel writeable cr3 s =
     (case get_page_entry (v AND NOT 0xFFF) True cr3 s of
        (None, s1) \<Rightarrow> s1
      | (Some pte, s1) \<Rightarrow>
          invalidate_page (v AND NOT 0xFFF) (vstore pte (pte_of pa iskernel writeable) s1))"
proof -
  obtain r s1 where g: "get_page_entry (v AND NOT 0xFFF) True cr3 s = (r, s1)" by (meson surj_pair)
  show ?thesis
    unfolding map_page_def Let_def g
    by (cases r) (simp_all add: vstore_twice vload_vstore pte_of_def or.assoc)
qed

lemma pte_of_facts:
  "present (pte_of pa iskernel writeable)"
  "leaf_addr 1 (pte_of pa iskernel writeable) w = PAGE_GET_ADDR pa OR (w AND 0xFFF)"
  "pa < 2 ^ 52 \<Longrightarrow> restrict_rights (a, b, c) (pte_of pa iskernel writeable) =
     (a \<and> writeable, b \<and> \<not> iskernel, c)"
proof -
  have low: "bit (pa AND NOT (mask 12)) k = False" if "k < 12" for k
    using that by (simp add: bit_and_iff bit_not_iff bit_mask_iff)
  show "present (pte_of pa iskernel writeable)"
    by (simp add: present_def flag_bits pte_of_def entry_bits)
  show "leaf_addr 1 (pte_of pa iskernel writeable) w = PAGE_GET_ADDR pa OR (w AND 0xFFF)"
    unfolding mask12 pte_of_def leaf_addr_def page_bits_def
    by (rule bit_word_eqI) (auto simp: entry_bits bit_mask_iff)
  show "restrict_rights (a, b, c) (pte_of pa iskernel writeable) = (a \<and> writeable, b \<and> \<not> iskernel, c)"
    if "pa < 2 ^ 52"
  proof -
    have "unat (drop_bit 52 pa) = 0"
      using that by (simp add: unat_drop_bit_eq drop_bit_nat_def word_less_nat_alt)
    then have "drop_bit 52 pa = 0" by (simp only: unat_eq_0)
    then have "\<not> bit (drop_bit 52 pa) 11" by (simp only: bit_0_eq) simp
    then have "\<not> bit pa 63" by (simp add: bit_drop_bit_eq)
    then show ?thesis
      using low [of 1] low [of 2]
      by (auto simp: restrict_rights_def flag_bits pte_of_def entry_bits mask12)
  qed
qed

lemma map_page_step:
  assumes inv: "pt_inv s cr3 (k + 3)" and s'_def: "s' = map_page v pa iskernel writeable cr3 s"
  shows "pt_inv s' cr3 k" "same_layout s s'"
    "\<not> same_page v w \<Longrightarrow> translate (pmem s') cr3 w = translate (pmem s) cr3 w"
    "same_page v w \<Longrightarrow> translate (pmem s') cr3 w =
       Some (PAGE_GET_ADDR pa OR (w AND 0xFFF),
         restrict_rights (rights_at (pmem s') (PAGE_GET_ADDR cr3) v 3) (pte_of pa iskernel writeable))"
    "(v AND NOT 0xFFF, g) \<notin> tlb s'"
proof -
  define va where "va = v AND NOT 0xFFF"
  have sp: "same_page va x \<longleftrightarrow> same_page v x" for x
    unfolding va_def by (rule same_page_align)
  let ?e = "pte_of pa iskernel writeable"
  obtain r s1 where g: "get_page_entry va True cr3 s = (r, s1)" by (meson surj_pair)
  have ok: "entry_ok s va True cr3 k (r, s1)"
    using get_page_entry_ok [OF inv, of va True] g by simp
  then obtain t where r: "r = Some (entry_ptr (phys_to_virt s1 t) (lv_index 1 va))"
    and t: "table_at (pmem s1) (PAGE_GET_ADDR cr3) (vpath va 3) = Some t"
    and i1: "pt_inv s1 cr3 k" and l1: "same_layout s s1"
    and x1: "translate (pmem s1) cr3 = translate (pmem s) cr3"
    by (auto simp: entry_ok_def same_layout_windows split: option.splits)
  let ?p = "entry_ptr (phys_to_virt s1 t) (lv_index 1 va)"
  have s': "s' = invalidate_page va (vstore ?p ?e s1)"
    unfolding s'_def map_page_eq va_def [symmetric] g r by simp
  note S = store_pte [OF i1 t]
  show "pt_inv s' cr3 k" "same_layout s s'"
    unfolding s' using S(3) l1 by (simp_all add: invalidate_page_def same_layout_def vstore_def)
  have m: "pmem s' = pmem (vstore ?p ?e s1)" by (simp add: s' invalidate_page_def)
  show "\<not> same_page v w \<Longrightarrow> translate (pmem s') cr3 w = translate (pmem s) cr3 w"
    unfolding m using S(5) x1 sp by simp
  show "same_page v w \<Longrightarrow> translate (pmem s') cr3 w =
       Some (PAGE_GET_ADDR pa OR (w AND 0xFFF),
         restrict_rights (rights_at (pmem s') (PAGE_GET_ADDR cr3) v 3) ?e)"
    unfolding m
    using S(6,7) pte_of_facts(1,2) rights_at_same_page [of va v 3] sp [of v] sp [of w]
    by (simp add: same_page_def)
  show "(v AND NOT 0xFFF, g) \<notin> tlb s'"
    unfolding s' va_def invalidate_page_def by (simp only: and.assoc and.idem) simp
qed

lemma leaf_addr_base: "leaf_addr 1 e (v AND NOT 0xFFF) = PAGE_GET_ADDR e"
  unfolding mask12 leaf_addr_def page_bits_def
  by (rule bit_word_eqI) (auto simp: entry_bits bit_mask_iff)

lemma lv_index_same_page:
  "same_page v w \<Longrightarrow> 1 \<le> l \<Longrightarrow> l \<le> 4 \<Longrightarrow> lv_index l v = lv_index l w"
  unfolding same_page_vpath by (auto simp: eval_nat_numeral le_Suc_eq)

lemma walk_None_same_page:
  "same_page v w \<Longrightarrow> l \<le> 4 \<Longrightarrow> walk m l t v r = None \<longleftrightarrow> walk m l t w r = None"
proof (induction l arbitrary: t r)
  case (Suc l)
  then show ?case
    using lv_index_same_page [of v w "Suc l"] by (simp add: Let_def)
qed simp

lemma translate_None_same_page:
  "same_page v w \<Longrightarrow> translate m cr3 v = None \<longleftrightarrow> translate m cr3 w = None"
  unfolding translate_def by (rule walk_None_same_page) simp_all

lemma unmap_page_eq:
  assumes "get_page_entry (v AND NOT 0xFFF) False cr3 s = (r, s1)"
  shows "unmap_page v cr3 s =
    (case r of None \<Rightarrow> (0, s1)
     | Some pte \<Rightarrow>
         if present (vload s1 pte) then
           (PAGE_GET_ADDR (vload s1 pte),
            (if cr3 = cr3_to_pml4_addr (reg_cr3 s1)
             then invalidate_page (v AND NOT 0xFFF) (vstore pte 0 s1) else vstore pte 0 s1))
         else (0, s1))"
  unfolding unmap_page_def Let_def assms
  by (cases r) (auto simp: present_def read_cr3_def vstore_def)

lemma unmap_page_cases:
  assumes inv: "pt_inv s cr3 (k + 3)" and res: "unmap_page v cr3 s = (f, s')"
    and va: "va = v AND NOT 0xFFF"
  obtains (unmapped) "translate (pmem s) cr3 va = None" "f = 0" "pt_inv s' cr3 k" "same_layout s s'"
      "tlb s' \<subseteq> tlb s" "translate (pmem s') cr3 = translate (pmem s) cr3"
  | (mapped) s1 s2 t rt where "translate (pmem s) cr3 va = Some (f, rt)" "pt_inv s1 cr3 k"
      "same_layout s s1" "tlb s1 \<subseteq> tlb s" "translate (pmem s1) cr3 = translate (pmem s) cr3"
      "table_at (pmem s1) (PAGE_GET_ADDR cr3) (vpath va 3) = Some t"
      "s2 = vstore (entry_ptr (phys_to_virt s1 t) (lv_index 1 va)) 0 s1"
      "s' = (if cr3 = cr3_to_pml4_addr (reg_cr3 s1) then invalidate_page va s2 else s2)"
proof -
  obtain r s1 where ge: "get_page_entry va False cr3 s = (r, s1)" by (meson surj_pair)
  have ok: "entry_ok s va False cr3 k (r, s1)"
    using get_page_entry_ok [OF inv, of va False] ge by simp
  have i1: "pt_inv s1 cr3 k" and l1: "same_layout s s1" and u1: "tlb s1 \<subseteq> tlb s"
    and x1: "translate (pmem s1) cr3 = translate (pmem s) cr3"
    using ok by (auto simp: entry_ok_def)
  note eq = unmap_page_eq [OF ge [unfolded va], folded va]
  show thesis
  proof (cases r)
    case None
    then show thesis
      using ok res eq by (intro unmapped) (auto simp: entry_ok_def)
  next
    case (Some pte)
    then obtain t where pte: "pte = entry_ptr (phys_to_virt s1 t) (lv_index 1 va)"
      and t: "table_at (pmem s1) (PAGE_GET_ADDR cr3) (vpath va 3) = Some t"
      using ok by (auto simp: entry_ok_def same_layout_windows [OF l1])
    have "vload s1 pte = pmem s1 (entry_ptr t (lv_index 1 va))"
      using store_pte(1) [OF i1 t] pte by simp
    then have tr: "translate (pmem s) cr3 va = (if present (vload s1 pte) then Some (PAGE_GET_ADDR (vload s1 pte),
        restrict_rights (rights_at (pmem s1) (PAGE_GET_ADDR cr3) va 3) (vload s1 pte)) else None)"
      using translate_pte [OF t] x1 leaf_addr_base [of "vload s1 pte" v] by (simp add: Let_def va)
    show thesis
    proof (cases "present (vload s1 pte)")
      case True
      then show thesis
        using res eq Some pte tr by (intro mapped [OF _ i1 l1 u1 x1 t refl]) auto
    next
      case False
      then show thesis
        using res eq Some tr i1 l1 u1 x1 by (intro unmapped) auto
    qed
  qed
qed

lemma unmap_page_step:
  assumes inv: "pt_inv s cr3 (k + 3)" and res: "unmap_page v cr3 s = (f, s')"
  shows "pt_inv s' cr3 k" "same_layout s s'" "tlb s' \<subseteq> tlb s"
    "\<not> same_page v w \<Longrightarrow> translate (pmem s') cr3 w = translate (pmem s) cr3 w"
    "same_page v w \<Longrightarrow> translate (pmem s') cr3 w = None"
    "f = (case translate (pmem s) cr3 (v AND NOT 0xFFF) of None \<Rightarrow> 0 | Some (a, _) \<Rightarrow> a)"
    "translate (pmem s) cr3 (v AND NOT 0xFFF) \<noteq> None \<Longrightarrow> cr3 = cr3_to_pml4_addr (reg_cr3 s) \<Longrightarrow>
       (v AND NOT 0xFFF, g) \<notin> tlb s'"
proof -
  define va where "va = v AND NOT 0xFFF"
  have sp: "same_page va x \<longleftrightarrow> same_page v x" for x
    unfolding va_def by (rule same_page_align)
  have al: "va AND NOT 0xFFF = va"
    unfolding va_def by (simp only: and.assoc and.idem)
  let ?P = "pt_inv s' cr3 k \<and> same_layout s s' \<and> tlb s' \<subseteq> tlb s \<and>
    (\<not> same_page v w \<longrightarrow> translate (pmem s') cr3 w = translate (pmem s) cr3 w) \<and>
    (same_page v w \<longrightarrow> translate (pmem s') cr3 w = None) \<and>
    f = (case translate (pmem s) cr3 va of None \<Rightarrow> 0 | Some (a, _) \<Rightarrow> a) \<and>
    (translate (pmem s) cr3 va \<noteq> None \<longrightarrow> cr3 = cr3_to_pml4_addr (reg_cr3 s) \<longrightarrow> (va, g) \<notin> tlb s')"
  have ?P
    using inv res va_def
  proof (cases rule: unmap_page_cases)
    case unmapped
    then show ?thesis
      using translate_None_same_page [of va w] sp by auto
  next
    case (mapped s1 s2 t rt)
    have "present 0 = False" by (simp add: present_def)
    then have "same_page v w \<Longrightarrow> translate (pmem s2) cr3 w = None"
      using store_pte(6) [OF mapped(2,6), of w 0] mapped(7) sp by simp
    moreover have "pt_inv s2 cr3 k" "\<not> same_page v w \<Longrightarrow> translate (pmem s2) cr3 w = translate (pmem s) cr3 w"
      using store_pte(3,5) [OF mapped(2,6)] mapped(5,7) sp by simp_all
    moreover have "same_layout s s2" "tlb s2 = tlb s1" "reg_cr3 s1 = reg_cr3 s"
      using mapped(3,7) by (simp_all add: same_layout_def vstore_def)
    moreover have "invalidate_page va s2 = s2\<lparr>tlb := {e \<in> tlb s2. fst e \<noteq> va}\<rparr>"
      unfolding invalidate_page_def al ..
    ultimately show ?thesis
      using mapped(1,4,8) by (auto simp: same_layout_def)
  qed
  then show "pt_inv s' cr3 k" "same_layout s s'" "tlb s' \<subseteq> tlb s"
    "\<not> same_page v w \<Longrightarrow> translate (pmem s') cr3 w = translate (pmem s) cr3 w"
    "same_page v w \<Longrightarrow> translate (pmem s') cr3 w = None"
    "f = (case translate (pmem s) cr3 (v AND NOT 0xFFF) of None \<Rightarrow> 0 | Some (a, _) \<Rightarrow> a)"
    "translate (pmem s) cr3 (v AND NOT 0xFFF) \<noteq> None \<Longrightarrow> cr3 = cr3_to_pml4_addr (reg_cr3 s) \<Longrightarrow>
       (v AND NOT 0xFFF, g) \<notin> tlb s'"
    unfolding va_def by blast+
qed

section \<open>Mapping a physical range\<close>

lemma same_page_nat:
  "same_page v w \<longleftrightarrow> unat v div 4096 mod 2 ^ 36 = unat w div 4096 mod 2 ^ 36"
proof -
  have "same_page v w \<longleftrightarrow> take_bit 36 (drop_bit 12 v) = take_bit 36 (drop_bit 12 w)"
    unfolding same_page_bits
  proof
    assume *: "\<forall>k. 12 \<le> k \<longrightarrow> k < 48 \<longrightarrow> bit v k = bit w k"
    show "take_bit 36 (drop_bit 12 v) = take_bit 36 (drop_bit 12 w)"
      using * by (intro bit_word_eqI) (auto simp: bit_take_bit_iff bit_drop_bit_eq)
  next
    assume eq: "take_bit 36 (drop_bit 12 v) = take_bit 36 (drop_bit 12 w)"
    show "\<forall>k. 12 \<le> k \<longrightarrow> k < 48 \<longrightarrow> bit v k = bit w k"
    proof (intro allI impI)
      fix k :: nat assume "12 \<le> k" "k < 48"
      moreover from this have "k - 12 < 36" by simp
      ultimately show "bit v k = bit w k"
        using arg_cong [OF eq, of "\<lambda>x. bit x (k - 12)"]
        by (simp add: bit_take_bit_iff bit_drop_bit_eq)
    qed
  qed
  also have "\<dots> \<longleftrightarrow> unat (take_bit 36 (drop_bit 12 v)) = unat (take_bit 36 (drop_bit 12 w))"
    by (simp only: word_unat_eq_iff)
  finally show ?thesis
    by (simp only: unsigned_take_bit_eq unat_drop_bit_eq take_bit_nat_def drop_bit_nat_def) simp
qed

lemma same_page_distinct:
  assumes "0 < j" "j < 2 ^ 36"
  shows "\<not> same_page v (v + of_nat (j * 4096))"
proof
  assume "same_page v (v + of_nat (j * 4096))"
  moreover have "unat (v + of_nat (j * 4096)) = (unat v + j * 4096) mod 2 ^ 64"
    by (simp add: unat_word_ariths unat_of_nat mod_simps)
  moreover have "(unat v + j * 4096) mod 2 ^ 64 div 4096 mod 2 ^ 36 = (unat v div 4096 + j) mod 2 ^ 36"
  proof -
    have "x mod 2 ^ 64 div 4096 mod 2 ^ 36 = x div 4096 mod 2 ^ 36" for x :: nat
      using take_bit_drop_bit [of 36 12 x] take_bit_drop_bit [of 36 12 "take_bit 64 x"]
      by (simp add: take_bit_nat_def drop_bit_nat_def mod_mod_cancel)
    then show ?thesis by (simp add: add.commute)
  qed
  ultimately have "(unat v div 4096 + j) mod 2 ^ 36 = unat v div 4096 mod 2 ^ 36"
    by (simp add: same_page_nat)
  then have "2 ^ 36 dvd j"
    by (subst (asm) mod_eq_dvd_iff_nat) simp_all
  then show False using assms by (auto dest: dvd_imp_le)
qed

lemma map_range_iter:
  assumes inv: "pt_inv s cr3 (k + 6)" and ge: "get_page_entry (phys_to_virt s p) False cr3 s = (pte, s1)"
    and s2: "s2 = (if (case pte of None \<Rightarrow> False | Some q \<Rightarrow> vload s1 q AND PAGE_PRESENT \<noteq> 0) then s1
                   else map_page (phys_to_virt s p) p iskernel writeable cr3 s1)"
  shows "pt_inv s2 cr3 k" "same_layout s s2"
    "\<not> same_page (phys_to_virt s p) w \<Longrightarrow> translate (pmem s2) cr3 w = translate (pmem s) cr3 w"
    "same_page (phys_to_virt s p) w \<Longrightarrow> translate (pmem s) cr3 w = None \<Longrightarrow>
       \<exists>r. translate (pmem s2) cr3 w = Some (PAGE_GET_ADDR p OR (w AND 0xFFF), r)"
    "translate (pmem s) cr3 w \<noteq> None \<Longrightarrow> translate (pmem s2) cr3 w = translate (pmem s) cr3 w"
proof -
  let ?v = "phys_to_virt s p"
  have ok: "entry_ok s ?v False cr3 (k + 3) (pte, s1)"
    using get_page_entry_ok [of s cr3 "k + 3" ?v False] inv ge by (simp add: add.commute)
  have i1: "pt_inv s1 cr3 (k + 3)" and l1: "same_layout s s1"
    and x1: "translate (pmem s1) cr3 = translate (pmem s) cr3"
    using ok by (auto simp: entry_ok_def)
  let ?present = "case pte of None \<Rightarrow> False | Some q \<Rightarrow> vload s1 q AND PAGE_PRESENT \<noteq> 0"
  have pr: "?present \<longleftrightarrow> translate (pmem s) cr3 ?v \<noteq> None"
  proof (cases pte)
    case (Some q)
    then obtain t where "q = entry_ptr (phys_to_virt s1 t) (lv_index 1 ?v)"
      and t: "table_at (pmem s1) (PAGE_GET_ADDR cr3) (vpath ?v 3) = Some t"
      using ok by (auto simp: entry_ok_def same_layout_windows [OF l1])
    then show ?thesis
      using Some store_pte(1) [OF i1 t] translate_pte [OF t] x1
      by (simp add: Let_def present_def del: not_None_eq)
  qed (use ok in \<open>simp add: entry_ok_def\<close>)
  let ?P = "pt_inv s2 cr3 k \<and> same_layout s s2 \<and>
    (\<not> same_page ?v w \<longrightarrow> translate (pmem s2) cr3 w = translate (pmem s) cr3 w) \<and>
    (same_page ?v w \<longrightarrow> translate (pmem s) cr3 w = None \<longrightarrow>
       (\<exists>r. translate (pmem s2) cr3 w = Some (PAGE_GET_ADDR p OR (w AND 0xFFF), r))) \<and>
    (translate (pmem s) cr3 w \<noteq> None \<longrightarrow> translate (pmem s2) cr3 w = translate (pmem s) cr3 w)"
  have ?P
  proof (cases "?present")
    case True
    then have "s2 = s1" using s2 by simp
    moreover have "same_page ?v w \<Longrightarrow> translate (pmem s) cr3 w \<noteq> None"
      using pr True translate_None_same_page [of ?v w "pmem s" cr3] by simp
    ultimately show ?thesis
      using i1 l1 x1 pt_inv_mono [OF i1, of k] by auto
  next
    case False
    then have s2': "s2 = map_page ?v p iskernel writeable cr3 s1" using s2 by argo
    note M = map_page_step [OF i1 s2']
    have "same_page ?v w \<Longrightarrow> translate (pmem s) cr3 w = None"
      using pr False translate_None_same_page [of ?v w "pmem s" cr3] by (simp del: not_None_eq)
    then show ?thesis
      using M(1) same_layout_trans [OF l1 M(2)] M(3,4) [of w] x1
      by (cases "same_page ?v w") (simp_all del: not_None_eq split_paired_Ex)
  qed
  then show "pt_inv s2 cr3 k" "same_layout s s2"
    "\<not> same_page ?v w \<Longrightarrow> translate (pmem s2) cr3 w = translate (pmem s) cr3 w"
    "same_page ?v w \<Longrightarrow> translate (pmem s) cr3 w = None \<Longrightarrow>
       \<exists>r. translate (pmem s2) cr3 w = Some (PAGE_GET_ADDR p OR (w AND 0xFFF), r)"
    "translate (pmem s) cr3 w \<noteq> None \<Longrightarrow> translate (pmem s2) cr3 w = translate (pmem s) cr3 w"
    by blast+
qed

text \<open>The loop over \<open>n\<close> pages: it ends within \<open>n + 1\<close> tests; pages that were mapped keep their
  translation; the others are mapped to the frame of the same number; nothing else changes.\<close>

definition range_mapped :: "mm \<Rightarrow> mm \<Rightarrow> phys_addr \<Rightarrow> nat \<Rightarrow> u64 \<Rightarrow> bool" where
  "range_mapped s s' start n cr3 \<longleftrightarrow>
     (\<forall>w. translate (pmem s) cr3 w \<noteq> None \<longrightarrow> translate (pmem s') cr3 w = translate (pmem s) cr3 w) \<and>
     (\<forall>i<n. \<forall>w. same_page (phys_to_virt s (start + of_nat (i * 4096))) w \<longrightarrow>
        translate (pmem s) cr3 w = None \<longrightarrow>
        (\<exists>r. translate (pmem s') cr3 w =
               Some (PAGE_GET_ADDR (start + of_nat (i * 4096)) OR (w AND 0xFFF), r))) \<and>
     (\<forall>w. (\<forall>i<n. \<not> same_page (phys_to_virt s (start + of_nat (i * 4096))) w) \<longrightarrow>
        translate (pmem s') cr3 w = translate (pmem s) cr3 w)"

lemma range_mapped_step:
  assumes I: "\<And>w. \<not> same_page (phys_to_virt s p) w \<Longrightarrow> translate (pmem s2) cr3 w = translate (pmem s) cr3 w"
    "\<And>w. same_page (phys_to_virt s p) w \<Longrightarrow> translate (pmem s) cr3 w = None \<Longrightarrow>
       \<exists>r. translate (pmem s2) cr3 w = Some (PAGE_GET_ADDR p OR (w AND 0xFFF), r)"
    "\<And>w. translate (pmem s) cr3 w \<noteq> None \<Longrightarrow> translate (pmem s2) cr3 w = translate (pmem s) cr3 w"
    and lay: "same_layout s s2" and rest: "range_mapped s2 s' (p + 0x1000) n cr3" and n: "Suc n < 2 ^ 36"
  shows "range_mapped s s' p (Suc n) cr3"
proof -
  let ?P = "\<lambda>i. phys_to_virt s (p + of_nat (i * 4096))"
  have P: "phys_to_virt s2 = phys_to_virt s"
    "p + 0x1000 + of_nat (i * 4096) = p + of_nat (Suc i * 4096)" "?P 0 = phys_to_virt s p" for i
    by (simp_all add: same_layout_windows [OF lay] algebra_simps)
  have dist: "\<not> same_page (phys_to_virt s p) w" if "same_page (?P (Suc i)) w" "i < n" for i w
  proof
    assume "same_page (phys_to_virt s p) w"
    then have "same_page (phys_to_virt s p) (?P (Suc i))" using that(1) by (simp add: same_page_nat)
    moreover have "?P (Suc i) = phys_to_virt s p + of_nat (Suc i * 4096)"
      by (simp add: phys_to_virt_def algebra_simps)
    ultimately show False
      using same_page_distinct [of "Suc i" "phys_to_virt s p"] that(2) n by simp
  qed
  note R = rest [unfolded range_mapped_def P]
  show ?thesis
    unfolding range_mapped_def
  proof (intro conjI allI impI)
    fix w assume "translate (pmem s) cr3 w \<noteq> None"
    then show "translate (pmem s') cr3 w = translate (pmem s) cr3 w"
      using I(3) R by metis
  next
    fix i w assume i: "i < Suc n" and w: "same_page (?P i) w" "translate (pmem s) cr3 w = None"
    show "\<exists>r. translate (pmem s') cr3 w = Some (PAGE_GET_ADDR (p + of_nat (i * 4096)) OR (w AND 0xFFF), r)"
    proof (cases i)
      case 0
      then obtain r where "translate (pmem s2) cr3 w = Some (PAGE_GET_ADDR p OR (w AND 0xFFF), r)"
        using I(2) [of w] w P(3) by auto
      moreover from this have "translate (pmem s') cr3 w = translate (pmem s2) cr3 w"
        using R by (metis option.distinct(1))
      ultimately show ?thesis using 0 by (cases r) auto
    next
      case (Suc j)
      then have "translate (pmem s2) cr3 w = None"
        using I(1) [of w] dist [of j w] w i by simp
      then show ?thesis
        using R [THEN conjunct2, THEN conjunct1, rule_format, of j w] Suc w(1) i by simp
    qed
  next
    fix w assume out: "\<forall>i<Suc n. \<not> same_page (?P i) w"
    then have "\<not> same_page (phys_to_virt s p) w" "\<forall>i<n. \<not> same_page (?P (Suc i)) w"
      using P(3) by (metis zero_less_Suc, metis Suc_less_eq)
    then show "translate (pmem s') cr3 w = translate (pmem s) cr3 w"
      using I(1) R by metis
  qed
qed

lemma map_range_loop_ok:
  assumes "pt_inv s cr3 (k + 6 * n)" "unat e = unat p + n * 4096" "n < 2 ^ 36" "n < fuel"
  shows "\<exists>s'. map_range_loop fuel p e iskernel writeable cr3 s = Some s' \<and> pt_inv s' cr3 k \<and>
    same_layout s s' \<and> range_mapped s s' p n cr3"
  using assms
proof (induction n arbitrary: s p fuel)
  case 0
  then show ?case
    by (cases fuel) (auto simp: word_less_nat_alt range_mapped_def)
next
  case (Suc n)
  obtain f where f: "fuel = Suc f" "n < f" using Suc.prems(4) by (cases fuel) auto
  obtain pte s1 where ge: "get_page_entry (phys_to_virt s p) False cr3 s = (pte, s1)"
    by (meson surj_pair)
  define s2 where "s2 = (if (case pte of None \<Rightarrow> False | Some q \<Rightarrow> vload s1 q AND PAGE_PRESENT \<noteq> 0) then s1
                   else map_page (phys_to_virt s p) p iskernel writeable cr3 s1)"
  have "pt_inv s cr3 ((k + 6 * n) + 6)" using Suc.prems(1) by (simp add: algebra_simps)
  note I = map_range_iter [OF this ge s2_def]
  have lt: "p < e" using Suc.prems(2) by (simp add: word_less_nat_alt)
  have p1: "unat (p + 0x1000) = unat p + 4096"
    using Suc.prems(2) unat_lt [of e] by (subst unat_plus_simple) auto
  then have "unat e = unat (p + 0x1000) + n * 4096" using Suc.prems(2) by simp
  then obtain s' where s': "map_range_loop f (p + 0x1000) e iskernel writeable cr3 s2 = Some s'"
      "pt_inv s' cr3 k" "same_layout s2 s'" "range_mapped s2 s' (p + 0x1000) n cr3"
    using Suc.IH [OF I(1), of "p + 0x1000" f] Suc.prems(3) f(2) by auto
  have run: "map_range_loop fuel p e iskernel writeable cr3 s = Some s'"
    using f lt ge s'(1) by (simp add: Let_def s2_def)
  have "range_mapped s s' p (Suc n) cr3"
    using range_mapped_step [OF I(3,4,5,2) s'(4)] Suc.prems(3) by blast
  then show ?case
    using run s'(2) same_layout_trans [OF I(2) s'(3)] by blast
qed

lemma map_range_bounds:
  fixes p :: phys_addr and sz :: u32
  assumes "unat p + unat sz + 4095 < 2 ^ 64"
  defines "n \<equiv> (unat p mod 4096 + unat sz + 4095) div 4096"
  shows "unat ((p + ucast sz + 0xFFF) AND NOT 0xFFF) = unat (p AND NOT 0xFFF) + n * 4096"
    and "unat (((p + ucast sz + 0xFFF) AND NOT 0xFFF) - (p AND NOT 0xFFF)) div 4096 = n"
    and "n < 2 ^ 36"
proof -
  have usz: "unat (ucast sz :: u64) = unat sz"
    by (simp add: unat_ucast_up)
  obtain q r where p: "unat p = 4096 * q + r" "r < 4096"
    by (rule that [of "unat p div 4096" "unat p mod 4096"]) simp_all
  have 1: "unat (p + ucast sz) = unat p + unat sz"
    using assms(1) usz by (subst unat_plus_simple) simp_all
  have 2: "unat (p + ucast sz + 0xFFF) = unat p + unat sz + 4095"
    using assms(1) 1 by (subst unat_plus_simple) simp_all
  have mod_r: "unat p mod 4096 = r" using p by simp
  let ?x = "unat p + unat sz + 4095"
  have "unat ((p + ucast sz + 0xFFF) AND NOT 0xFFF) = ?x - ?x mod 4096"
    unfolding mask12 unat_and_not_mask 2 [unfolded mask12] by simp
  also have "\<dots> = ?x div 4096 * 4096" by (simp add: minus_mod_eq_div_mult)
  also have "?x div 4096 = q + n"
    unfolding n_def mod_r using p by (simp add: add.assoc)
  finally have e: "unat ((p + ucast sz + 0xFFF) AND NOT 0xFFF) = (q + n) * 4096" .
  have st: "unat (p AND NOT 0xFFF) = 4096 * q"
    unfolding mask12 unat_and_not_mask using p by simp
  show e': "unat ((p + ucast sz + 0xFFF) AND NOT 0xFFF) = unat (p AND NOT 0xFFF) + n * 4096"
    unfolding e st by (simp add: algebra_simps)
  show "unat (((p + ucast sz + 0xFFF) AND NOT 0xFFF) - (p AND NOT 0xFFF)) div 4096 = n"
    using e' by (subst unat_minus_simple) simp_all
  have "unat sz < 2 ^ 32" using unat_lt [of sz] by simp
  then show "n < 2 ^ 36"
    unfolding n_def by (simp add: div_less_iff_less_mult)
qed

text \<open>The fuel \<^verbatim>\<open>map_physical_range\<close> is given is enough.\<close>

lemma map_range_loop_fuel:
  assumes "unat p + unat sz + 4095 < 2 ^ 64"
    and "pt_inv s cr3 (k + 6 * ((unat p mod 4096 + unat sz + 4095) div 4096))"
  shows "\<exists>s'. map_physical_range p sz iskernel writeable cr3 s = Some s' \<and> pt_inv s' cr3 k \<and>
    same_layout s s' \<and>
    range_mapped s s' (p AND NOT 0xFFF) ((unat p mod 4096 + unat sz + 4095) div 4096) cr3"
  unfolding map_physical_range_def Let_def map_range_bounds(2) [OF assms(1)]
  using map_range_loop_ok [OF _ map_range_bounds(1,3) [OF assms(1)], of s cr3 k] assms(2)
  by (simp del: map_range_loop.simps)

section \<open>A boot-time address space\<close>

text \<open>An address space as the boot loader leaves it: a PML4 at 0x1000, a PDPT at 0x2000 for the direct
  map at 0xFFFF800000000000, and the first gigabyte mapped by one huge page.\<close>

definition boot_mm :: mm where
  "boot_mm = \<lparr>placement_address = 0xFFFF800000100000, hhdm_offset = 0xFFFF800000000000,
     kernel_phys_base = 0x200000, kernel_virt_base = 0xFFFFFFFF80000000,
     pmem = (\<lambda>_. 0)(0x1800 := 0x2003, 0x2000 := 0x83), reg_cr3 = 0x1000, reg_cr4 = 0, tlb = {}\<rparr>"

lemma boot_tables:
  assumes "valid_path p"
  shows "table_at (pmem boot_mm) 0x1000 p =
    (if p = [] then Some 0x1000 else if p = [256] then Some 0x2000 else None)"
  using assms
proof (induction p)
  case (Cons i p)
  have inj: "entry_ptr 0x1000 i = 0x1800 \<longleftrightarrow> i = 256" "entry_ptr 0x1000 i \<noteq> 0x2000"
    "entry_ptr 0x2000 i \<noteq> 0x1800" "entry_ptr 0x2000 i = 0x2000 \<longleftrightarrow> i = 0"
    using Cons.prems entry_ptr_inj [of "0x1000" "0x1000" i 256] entry_ptr_inj [of "0x1000" "0x2000" i 0]
      entry_ptr_inj [of "0x2000" "0x1000" i 256] entry_ptr_inj [of "0x2000" "0x2000" i 0]
    by (simp_all add: PAGE_GET_ADDR_def PAGE_FRAME_MASK_def, simp_all add: entry_ptr_def)
  show ?case
    using Cons inj
    by (auto simp: Let_def boot_mm_def to_table_def present_def leaf_def PAGE_PRESENT_def PAGE_PS_def
        PAGE_GET_ADDR_def PAGE_FRAME_MASK_def)
qed simp

lemma boot_inv: "k \<le> 1000 \<Longrightarrow> pt_inv boot_mm 0x1000 k"
proof -
  assume k: "k \<le> 1000"
  have nf: "next_frame boot_mm = 0x100000"
    by (simp add: next_frame_def boot_mm_def page_align_up_def)
  have root: "PAGE_GET_ADDR 0x1000 = 0x1000"
    by (simp add: PAGE_GET_ADDR_def PAGE_FRAME_MASK_def)
  have tabs: "is_table (pmem boot_mm) 0x1000 t \<Longrightarrow> unat t \<le> 0x2000" for t
    unfolding is_table_def using boot_tables by (auto split: if_splits)
  have "pt_tree (pmem boot_mm) 0x1000"
    unfolding pt_tree_def using boot_tables by (auto split: if_splits)
  moreover have "heap_room boot_mm k"
    using k unfolding heap_room_def nf by (simp add: boot_mm_def page_align_up_def)
  ultimately show ?thesis
    unfolding pt_inv_def root nf
    using tabs [THEN order_trans] by (auto simp: boot_mm_def [THEN arg_cong, of hhdm_offset]
        boot_mm_def [THEN arg_cong, of kernel_virt_base] dest!: tabs)
qed

end
