(* ===== verification/Paging64_Props.thy ===== *)
theory Paging64_Props
  imports Paging64_Proofs
begin

text \<open>
  The properties of four-level paging, with concrete instances on the boot-time address space.
\<close>

section \<open>Properties\<close>

text \<open>C5: Looking up a page-table entry is invisible to the processor: whether or not tables are created,
  and however many huge pages are split on the way, every virtual address keeps its translation and
  its access rights, the tables still form a tree, and an entry is returned whenever creation is
  allowed; if none is returned the address was unmapped.\<close>

theorem get_page_entry_transparent:
  assumes "pt_inv s cr3 (k + 3)" "get_page_entry v create cr3 s = (r, s')"
  shows "pt_inv s' cr3 k \<and> (\<forall>w. translate (pmem s') cr3 w = translate (pmem s) cr3 w) \<and>
    (create \<longrightarrow> r \<noteq> None) \<and> (r = None \<longrightarrow> translate (pmem s) cr3 v = None)"
  using get_page_entry_ok [OF assms(1), of v create] assms(2)
  by (auto simp: entry_ok_def split: option.splits)

theorem get_page_entry_transparent_witness:
  "\<exists>s'. get_page_entry 0xFFFF800000003000 False 0x1000 boot_mm = (fst (get_page_entry 0xFFFF800000003000 False 0x1000 boot_mm), s') \<and>
     pt_inv s' 0x1000 7 \<and> translate (pmem s') 0x1000 0xFFFF800012345678 = Some (0x12345678, True, False, False)"
proof -
  have t: "translate (pmem boot_mm) 0x1000 0xFFFF800012345678 = Some (0x12345678, True, False, False)"
    by code_simp
  obtain r s' where g: "get_page_entry 0xFFFF800000003000 False 0x1000 boot_mm = (r, s')"
    by (meson surj_pair)
  show ?thesis
    using get_page_entry_transparent [of boot_mm "0x1000" 7, OF boot_inv g] t g by auto
qed

text \<open>C1: After \<^verbatim>\<open>map_page\<close> every address of the page translates to the given frame, with the write
  and user rights asked for (as far as the upper levels allow them), every other page
  translates as before, and the TLB holds no stale entry for the page.\<close>

theorem map_page_correct:
  assumes "pt_inv s cr3 (k + 3)" "pa < 2 ^ 52" "s' = map_page v pa iskernel writeable cr3 s"
  shows "pt_inv s' cr3 k \<and>
    (\<forall>w. same_page v w \<longrightarrow>
       (case rights_at (pmem s') (PAGE_GET_ADDR cr3) v 3 of (a, b, c) \<Rightarrow>
          translate (pmem s') cr3 w =
            Some (PAGE_GET_ADDR pa OR (w AND 0xFFF), a \<and> writeable, b \<and> \<not> iskernel, c))) \<and>
    (\<forall>w. \<not> same_page v w \<longrightarrow> translate (pmem s') cr3 w = translate (pmem s) cr3 w) \<and>
    (\<forall>g. (v AND NOT 0xFFF, g) \<notin> tlb s')"
  using map_page_step [OF assms(1,3)] pte_of_facts(3) [OF assms(2)]
  by (auto split: prod.split)

theorem map_page_correct_witness:
  "\<exists>r. translate (pmem (map_page 0x400000 0x5000 True True 0x1000 boot_mm)) 0x1000 0x400123 = Some (0x5123, r) \<and>
     translate (pmem (map_page 0x400000 0x5000 True True 0x1000 boot_mm)) 0x1000 0xFFFF800012345678 =
       Some (0x12345678, True, False, False)"
proof -
  have t: "translate (pmem boot_mm) 0x1000 0xFFFF800012345678 = Some (0x12345678, True, False, False)"
    by code_simp
  have p: "same_page 0x400000 0x400123" "\<not> same_page 0x400000 0xFFFF800012345678"
    by (simp_all add: same_page_def)
  have a: "PAGE_GET_ADDR 0x5000 OR (0x400123 AND 0xFFF) = 0x5123"
    by (simp add: PAGE_GET_ADDR_def PAGE_FRAME_MASK_def)
  have M: "(0x5000 :: u64) < 2 ^ 52" by simp
  obtain x y z where "rights_at (pmem (map_page 0x400000 0x5000 True True 0x1000 boot_mm))
      (PAGE_GET_ADDR 0x1000) 0x400000 3 = (x, y, z)"
    by (metis prod_cases3)
  then show ?thesis
    using map_page_correct [of boot_mm "0x1000" 0 "0x5000", OF boot_inv M refl, of "0x400000" True True] t p a
    by auto
qed

text \<open>C3: \<^verbatim>\<open>unmap_page\<close> removes the translation of every address of the page and of no other page; it
  returns the frame the page was mapped to, or 0 if it was not mapped; and when it is given the
  address of the current PML4, no TLB entry survives for a page that was mapped.\<close>

theorem unmap_page_correct:
  assumes "pt_inv s cr3 (k + 3)" "unmap_page v cr3 s = (f, s')"
  shows "pt_inv s' cr3 k \<and>
    (\<forall>w. translate (pmem s') cr3 w = (if same_page v w then None else translate (pmem s) cr3 w)) \<and>
    f = (case translate (pmem s) cr3 (v AND NOT 0xFFF) of None \<Rightarrow> 0 | Some (a, _) \<Rightarrow> a) \<and>
    (translate (pmem s) cr3 (v AND NOT 0xFFF) \<noteq> None \<longrightarrow> cr3 = cr3_to_pml4_addr (reg_cr3 s) \<longrightarrow>
       (\<forall>g. (v AND NOT 0xFFF, g) \<notin> tlb s'))"
  using unmap_page_step [OF assms] by (auto simp del: not_None_eq)

theorem unmap_page_correct_witness:
  "\<exists>s'. unmap_page 0xFFFF800000003000 0x1000 boot_mm = (0x3000, s') \<and>
     translate (pmem s') 0x1000 0xFFFF800000003010 = None \<and>
     translate (pmem s') 0x1000 0xFFFF800012345678 = Some (0x12345678, True, False, False)"
proof -
  have t: "translate (pmem boot_mm) 0x1000 0xFFFF800012345678 = Some (0x12345678, True, False, False)"
    "translate (pmem boot_mm) 0x1000 (0xFFFF800000003000 AND NOT 0xFFF) = Some (0x3000, True, False, False)"
    by code_simp+
  have p: "same_page 0xFFFF800000003000 0xFFFF800000003010" "\<not> same_page 0xFFFF800000003000 0xFFFF800012345678"
    by (simp_all add: same_page_def)
  obtain f s' where u: "unmap_page 0xFFFF800000003000 0x1000 boot_mm = (f, s')" by (meson surj_pair)
  show ?thesis
    using unmap_page_correct [of boot_mm "0x1000" 0, OF boot_inv u] t p u by simp
qed

text \<open>C10: \<^verbatim>\<open>map_physical_range\<close> ends, leaves existing translations alone, maps every page of
  the range that was unmapped to the frame of that number in the direct map, and changes no other
  page.\<close>

theorem map_physical_range_correct:
  assumes "unat p + unat sz + 4095 < 2 ^ 64"
    and "pt_inv s cr3 (k + 6 * ((unat p mod 4096 + unat sz + 4095) div 4096))"
  shows "\<exists>s'. map_physical_range p sz iskernel writeable cr3 s = Some s' \<and> pt_inv s' cr3 k \<and>
    range_mapped s s' (p AND NOT 0xFFF) ((unat p mod 4096 + unat sz + 4095) div 4096) cr3"
  using map_range_loop_fuel [OF assms] by blast

theorem map_physical_range_correct_witness:
  "\<exists>s' r. map_physical_range 0xFED00010 0x400 True True 0x1000 boot_mm = Some s' \<and>
     translate (pmem s') 0x1000 0xFFFF8000FED00123 = Some (0xFED00123, r)"
proof -
  have t: "translate (pmem boot_mm) 0x1000 0xFFFF8000FED00123 = None"
    by code_simp
  have h: "unat (0xFED00010 :: u64) + unat (0x400 :: u32) + 4095 < 2 ^ 64"
    "pt_inv boot_mm 0x1000 (0 + 6 * ((unat (0xFED00010 :: u64) mod 4096 + unat (0x400 :: u32) + 4095) div 4096))"
    by (simp_all add: boot_inv)
  have a: "PAGE_GET_ADDR 0xFED00000 OR (0xFFFF8000FED00123 AND 0xFFF) = 0xFED00123"
    "same_page (phys_to_virt boot_mm 0xFED00000) 0xFFFF8000FED00123"
    by (simp_all add: PAGE_GET_ADDR_def PAGE_FRAME_MASK_def same_page_def phys_to_virt_def boot_mm_def)
  show ?thesis
    using map_physical_range_correct [OF h, of True True] t a by (auto simp: range_mapped_def)
qed


end
