(* ===== verification/Paging32.thy ===== *)
theory Paging32
  imports Kheap
begin

text \<open>
  Physical frames and two-level page tables of the i386 port, \<^verbatim>\<open>arch/i386/memory/paging.c\<close> and
  \<^verbatim>\<open>paging.h\<close>.

  Physical memory is identity mapped while the tables are built, so a pointer is an address; memory maps the
  address of a 32-bit word to its content, and the frame bitmap is part of that memory: a store past its
  end hits whatever lies there.  Running out of frames halts the machine, which is \<open>None\<close>.
\<close>

section \<open>State and entries\<close>

record mm32 =
  placement32 :: addr32
  mem32 :: "addr32 \<Rightarrow> u32"
  frames :: addr32
  nframes :: u32
  kernel_directory :: addr32
  current_directory :: addr32
  cr3_32 :: u32
  cr0_32 :: u32
  invalidated :: "addr32 set"

definition load32 :: "mm32 \<Rightarrow> addr32 \<Rightarrow> u32" where
  "load32 m a = mem32 m a"

definition store32 :: "addr32 \<Rightarrow> u32 \<Rightarrow> mm32 \<Rightarrow> mm32" where
  "store32 a v m = m\<lparr>mem32 := (mem32 m)(a := v)\<rparr>"

definition PDE_PRESENT :: u32 where "PDE_PRESENT = 1"
definition PDE_READ_WRITE :: u32 where "PDE_READ_WRITE = 2"
definition PDE_PAGE_TABLE_BASE_MASK :: u32 where "PDE_PAGE_TABLE_BASE_MASK = 0xFFFFF000"
definition CR0_PG :: u32 where "CR0_PG = 0x80000000"
definition PTE_PRESENT :: u32 where "PTE_PRESENT = 1"
definition PTE_READ_WRITE :: u32 where "PTE_READ_WRITE = 2"
definition PTE_USER_SUPERVISOR :: u32 where "PTE_USER_SUPERVISOR = 4"
definition PTE_FRAME_MASK :: u32 where "PTE_FRAME_MASK = 0xFFFFF000"

definition PTE_IS_PRESENT :: "u32 \<Rightarrow> bool" where
  "PTE_IS_PRESENT pte \<longleftrightarrow> pte AND PTE_PRESENT \<noteq> 0"

definition PTE_SET_PRESENT :: "u32 \<Rightarrow> u32" where
  "PTE_SET_PRESENT pte = pte OR PTE_PRESENT"

definition PTE_SET_WRITABLE :: "u32 \<Rightarrow> u32" where
  "PTE_SET_WRITABLE pte = pte OR PTE_READ_WRITE"

definition PTE_CLEAR_WRITABLE :: "u32 \<Rightarrow> u32" where
  "PTE_CLEAR_WRITABLE pte = pte AND NOT PTE_READ_WRITE"

definition PTE_SET_USER :: "u32 \<Rightarrow> u32" where
  "PTE_SET_USER pte = pte OR PTE_USER_SUPERVISOR"

definition PTE_CLEAR_USER :: "u32 \<Rightarrow> u32" where
  "PTE_CLEAR_USER pte = pte AND NOT PTE_USER_SUPERVISOR"

definition PTE_GET_FRAME :: "u32 \<Rightarrow> u32" where
  "PTE_GET_FRAME pte = drop_bit 12 (pte AND PTE_FRAME_MASK)"

definition PTE_SET_FRAME :: "u32 \<Rightarrow> u32 \<Rightarrow> u32" where
  "PTE_SET_FRAME pte frame = (pte AND NOT PTE_FRAME_MASK) OR push_bit 12 (frame AND 0xFFFFF)"

definition upd_pte :: "addr32 \<Rightarrow> (u32 \<Rightarrow> u32) \<Rightarrow> mm32 \<Rightarrow> mm32" where
  "upd_pte page f m = store32 page (f (load32 m page)) m"

section \<open>The frame bitmap\<close>

definition BITSET_INDEX :: "u32 \<Rightarrow> u32" where "BITSET_INDEX a = a div 32"
definition BITSET_OFFSET :: "u32 \<Rightarrow> u32" where "BITSET_OFFSET a = a mod 32"

text \<open>The address of \<^verbatim>\<open>frames[idx]\<close>.\<close>

definition frame_word :: "mm32 \<Rightarrow> u32 \<Rightarrow> addr32" where
  "frame_word m idx = frames m + 4 * idx"

definition set_frame :: "u32 \<Rightarrow> mm32 \<Rightarrow> mm32" where
  "set_frame frame_addr m =
     (let frame = frame_addr div 0x1000; idx = BITSET_INDEX frame; off = BITSET_OFFSET frame;
          a = frame_word m idx
      in store32 a (load32 m a OR push_bit (unat off) 1) m)"

definition clear_frame :: "u32 \<Rightarrow> mm32 \<Rightarrow> mm32" where
  "clear_frame frame_addr m =
     (let frame = frame_addr div 0x1000; idx = BITSET_INDEX frame; off = BITSET_OFFSET frame;
          a = frame_word m idx
      in store32 a (load32 m a AND NOT (push_bit (unat off) 1)) m)"

definition test_frame :: "u32 \<Rightarrow> mm32 \<Rightarrow> u32" where
  "test_frame frame_addr m =
     (let frame = frame_addr div 0x1000; idx = BITSET_INDEX frame; off = BITSET_OFFSET frame
      in load32 m (frame_word m idx) AND push_bit (unat off) 1)"

text \<open>The two loops of \<^verbatim>\<open>first_frame\<close>: the first clear bit of a word, and the first word that has one.\<close>

fun first_bit :: "u32 \<Rightarrow> nat list \<Rightarrow> nat option" where
  "first_bit w [] = None"
| "first_bit w (j # js) = (if w AND push_bit j 1 = 0 then Some j else first_bit w js)"

fun first_word :: "mm32 \<Rightarrow> nat list \<Rightarrow> u32" where
  "first_word m [] = -1"
| "first_word m (i # is) =
     (let w = load32 m (frame_word m (of_nat i))
      in if w = 0xFFFFFFFF then first_word m is
         else case first_bit w [0..<32] of
                Some j \<Rightarrow> of_nat i * 32 + of_nat j
              | None \<Rightarrow> first_word m is)"

definition first_frame :: "mm32 \<Rightarrow> u32" where
  "first_frame m = first_word m [0..<unat (BITSET_INDEX (nframes m))]"

definition alloc_frame :: "addr32 \<Rightarrow> bool \<Rightarrow> bool \<Rightarrow> mm32 \<Rightarrow> mm32 option" where
  "alloc_frame page iskernel writeable m =
     (if PTE_GET_FRAME (load32 m page) \<noteq> 0 then Some m
      else let idx = first_frame m
           in if idx = -1 then None
              else let m1 = set_frame (idx * 0x1000) m;
                       m2 = upd_pte page PTE_SET_PRESENT m1;
                       m3 = (if writeable then upd_pte page PTE_SET_WRITABLE m2 else m2);
                       m4 = (if \<not> iskernel then upd_pte page PTE_SET_USER m3 else m3)
                   in Some (upd_pte page (\<lambda>e. PTE_SET_FRAME e idx) m4))"

definition free_frame :: "addr32 \<Rightarrow> mm32 \<Rightarrow> mm32" where
  "free_frame page m =
     (let frame = PTE_GET_FRAME (load32 m page)
      in if frame = 0 then m else store32 page 0 (clear_frame (frame * 0x1000) m))"

section \<open>Page tables\<close>

definition cr3_to_directory :: "u32 \<Rightarrow> addr32" where
  "cr3_to_directory cr3 = cr3 AND PDE_PAGE_TABLE_BASE_MASK"

definition invalidate_page32 :: "addr32 \<Rightarrow> mm32 \<Rightarrow> mm32" where
  "invalidate_page32 a m = m\<lparr>invalidated := insert a (invalidated m)\<rparr>"

text \<open>\<^verbatim>\<open>memset\<close> of \<open>n\<close> words with 0.\<close>

primrec zero_words :: "nat \<Rightarrow> addr32 \<Rightarrow> mm32 \<Rightarrow> mm32" where
  "zero_words 0 a m = m"
| "zero_words (Suc n) a m = zero_words n a (store32 (a + 4 * of_nat n) 0 m)"

definition kmalloc32 :: "u32 \<Rightarrow> mm32 \<Rightarrow> addr32 \<times> mm32" where
  "kmalloc32 sz m = (let (r, p) = kmalloc sz (placement32 m) in (r, m\<lparr>placement32 := p\<rparr>))"

definition kmalloc_a32 :: "u32 \<Rightarrow> mm32 \<Rightarrow> addr32 \<times> mm32" where
  "kmalloc_a32 sz m = (let (r, p) = kmalloc_a sz (placement32 m) in (r, m\<lparr>placement32 := p\<rparr>))"

definition switch_page_directory :: "addr32 \<Rightarrow> mm32 \<Rightarrow> mm32" where
  "switch_page_directory dir m =
     m\<lparr>current_directory := dir, cr3_32 := dir, cr0_32 := cr0_32 m OR CR0_PG\<rparr>"

text \<open>\<^verbatim>\<open>get_page\<close>: a pointer to the page-table entry, 0 for none.\<close>

definition get_page :: "addr32 \<Rightarrow> bool \<Rightarrow> u32 \<Rightarrow> mm32 \<Rightarrow> addr32 \<times> mm32" where
  "get_page addr create cr3 m =
     (let dir = cr3_to_directory cr3;
          pde_addr = dir + 4 * drop_bit 22 addr;
          pde = load32 m pde_addr
      in if pde AND PDE_PRESENT = 0 \<and> \<not> create then (0, m)
         else let m2 = (if pde AND PDE_PRESENT = 0 then
                          let (pt, m1) = kmalloc_a32 4096 m
                          in store32 pde_addr (pt OR PDE_PRESENT OR PDE_READ_WRITE) (zero_words 1024 pt m1)
                        else m);
                  page_table = load32 m2 pde_addr AND PDE_PAGE_TABLE_BASE_MASK
              in (page_table + 4 * (drop_bit 12 addr AND 0x3FF), m2))"

text \<open>One round of the loop of \<^verbatim>\<open>map_physical_range\<close>, and the loop; it runs for the pages the caller's
  bounds give.\<close>

definition identity_entry :: "addr32 \<Rightarrow> bool \<Rightarrow> bool \<Rightarrow> u32 \<Rightarrow> u32" where
  "identity_entry addr iskernel writeable e0 =
     (let e1 = PTE_SET_PRESENT e0;
          e2 = (if writeable then PTE_SET_WRITABLE e1 else PTE_CLEAR_WRITABLE e1);
          e3 = (if \<not> iskernel then PTE_SET_USER e2 else PTE_CLEAR_USER e2)
      in PTE_SET_FRAME e3 (addr div 0x1000))"

definition map_physical_page :: "addr32 \<Rightarrow> bool \<Rightarrow> bool \<Rightarrow> u32 \<Rightarrow> mm32 \<Rightarrow> mm32" where
  "map_physical_page addr iskernel writeable cr3 m =
     (let pde_addr = cr3_to_directory cr3 + 4 * drop_bit 22 addr;
          m1 = (if writeable then store32 pde_addr (load32 m pde_addr OR PDE_READ_WRITE) m else m);
          (page, m2) = get_page addr True cr3 m1
      in if page \<noteq> 0 then
           invalidate_page32 addr (set_frame addr (upd_pte page (identity_entry addr iskernel writeable) m2))
         else m2)"

text \<open>Both bounds are page aligned, so the loop variable meets \<^verbatim>\<open>end\<close> exactly and does not wrap.\<close>

definition map_physical_range32 :: "addr32 \<Rightarrow> u32 \<Rightarrow> bool \<Rightarrow> bool \<Rightarrow> u32 \<Rightarrow> mm32 \<Rightarrow> mm32" where
  "map_physical_range32 phys_start len iskernel writeable cr3 m =
     (let start = phys_start AND 0xFFFFF000; stop = (phys_start + len + 0xFFF) AND 0xFFFFF000
      in fold (\<lambda>i. map_physical_page (start + 0x1000 * of_nat i) iskernel writeable cr3)
           [0..<(unat stop - unat start) div 0x1000] m)"

definition map_page32 :: "addr32 \<Rightarrow> addr32 \<Rightarrow> bool \<Rightarrow> bool \<Rightarrow> u32 \<Rightarrow> mm32 \<Rightarrow> mm32" where
  "map_page32 virt0 phys0 iskernel writeable cr3 m =
     (let virt = virt0 AND 0xFFFFF000; phys = phys0 AND 0xFFFFF000;
          (page, m1) = get_page virt True cr3 m
      in if page = 0 then m1
         else let m2 = upd_pte page (\<lambda>e. PTE_SET_FRAME e (phys div 0x1000)) m1;
                  m3 = upd_pte page PTE_SET_PRESENT m2;
                  m4 = upd_pte page (if writeable then PTE_SET_WRITABLE else PTE_CLEAR_WRITABLE) m3;
                  m5 = (if \<not> iskernel then upd_pte page PTE_SET_USER m4 else m4)
              in invalidate_page32 virt (set_frame phys m5))"

definition unmap_page32 :: "addr32 \<Rightarrow> u32 \<Rightarrow> mm32 \<Rightarrow> addr32 \<times> mm32" where
  "unmap_page32 virt0 cr3 m =
     (let virt = virt0 AND 0xFFFFF000; (page, m1) = get_page virt False cr3 m
      in if page = 0 \<or> \<not> PTE_IS_PRESENT (load32 m1 page) then (0, m1)
         else let frame = load32 m1 page AND PTE_FRAME_MASK;
                  m2 = store32 page 0 m1;
                  m3 = (if cr3_32 m2 = cr3 then invalidate_page32 virt m2 else m2)
              in (frame, m3))"

definition is_page_mapped :: "addr32 \<Rightarrow> u32 \<Rightarrow> mm32 \<Rightarrow> bool" where
  "is_page_mapped virt cr3 m =
     (let (page, m1) = get_page virt False cr3 m in page \<noteq> 0 \<and> PTE_IS_PRESENT (load32 m1 page))"

section \<open>Bringing paging up\<close>

text \<open>The loop that maps the kernel: one frame for each page below the limit, None if the frames run out.\<close>

fun identity_loop :: "nat list \<Rightarrow> u32 \<Rightarrow> mm32 \<Rightarrow> mm32 option" where
  "identity_loop [] cr3 m = Some m"
| "identity_loop (i # is) cr3 m =
     (let (page, m1) = get_page (0x1000 * of_nat i) True cr3 m
      in case alloc_frame page True True m1 of None \<Rightarrow> None | Some m2 \<Rightarrow> identity_loop is cr3 m2)"

definition init_paging32 :: "mm32 \<Rightarrow> mm32 option" where
  "init_paging32 m0 =
     (let nf = 0x4000000 div 0x1000;
          (fr, m1) = kmalloc32 (BITSET_INDEX nf * 4) (m0\<lparr>nframes := nf\<rparr>);
          m2 = zero_words (unat (BITSET_INDEX nf)) fr (m1\<lparr>frames := fr\<rparr>);
          (kd, m3) = kmalloc_a32 4096 m2;
          m4 = zero_words 1024 kd m3;
          cr3 = kd;
          stop = placement32 m4 + 0x800000
      in case identity_loop [0..<(unat stop + 0xFFF) div 0x1000] cr3
                (m4\<lparr>kernel_directory := kd, current_directory := kd\<rparr>) of
           None \<Rightarrow> None
         | Some m5 \<Rightarrow>
             let m6 = map_physical_range32 0x80000 0x80000 True True cr3 m5;
                 m7 = map_physical_range32 0x7fe0000 0x20000 True True cr3 m6;
                 m8 = map_physical_range32 0xE0000 0x20000 True True cr3 m7;
                 m9 = map_physical_range32 0xFEC00000 0x1000 True True cr3 m8;
                 m10 = map_physical_range32 0xFEE00000 0x1000 True True cr3 m9
             in Some (switch_page_directory kd m10))"

text \<open>The words \<^verbatim>\<open>page_fault\<close> prints for the bits of the error code, before it halts the machine.\<close>

definition page_fault_words :: "u32 \<Rightarrow> string list" where
  "page_fault_words err_code =
     (let present = err_code AND 0x1; rw = err_code AND 0x2; us = err_code AND 0x4;
          reserved = err_code AND 0x8; fetch = err_code AND 0x10
      in (if present = 0 then [''not present ''] else []) @
         (if rw \<noteq> 0 then [''read-only ''] else []) @
         (if us \<noteq> 0 then [''user-mode ''] else []) @
         (if reserved \<noteq> 0 then [''reserved ''] else []) @
         (if fetch \<noteq> 0 then [''instruction-fetch ''] else []))"

end
