(* ===== verification/Paging32_Proofs.thy ===== *)
theory Paging32_Proofs
  imports Paging32
begin

text \<open>
  The frame bitmap of the i386 port is a set of frame numbers, its search finds the least free frame, and the
  table built by \<^verbatim>\<open>init_paging\<close> is the identity.
\<close>

section \<open>The bitmap as a set\<close>

definition used :: "mm32 \<Rightarrow> nat \<Rightarrow> bool" where
  "used m f \<longleftrightarrow> bit (load32 m (frame_word m (of_nat (f div 32)))) (f mod 32)"

lemma load_store32 [simp]: "load32 (store32 a v m) b = (if b = a then v else load32 m b)"
  by (simp add: load32_def store32_def)

lemma store32_fields [simp]:
  "frames (store32 a v m) = frames m" "nframes (store32 a v m) = nframes m"
  "placement32 (store32 a v m) = placement32 m"
  by (simp_all add: store32_def)

lemma frame_word_store [simp]: "frame_word (store32 a v m) i = frame_word m i"
  by (simp add: frame_word_def)

lemma frame_word_inj:
  assumes "i < 2 ^ 15" "j < 2 ^ 15" "frame_word m (of_nat i) = frame_word m (of_nat j)"
  shows "i = j"
proof -
  have "(4 * of_nat i :: u32) = 4 * of_nat j" using assms(3) by (simp add: frame_word_def)
  then have "(of_nat (4 * i) :: u32) = of_nat (4 * j)" by simp
  then have "unat (of_nat (4 * i) :: u32) = unat (of_nat (4 * j) :: u32)" by simp
  then show ?thesis using assms(1,2) by (simp only: unat_of_nat take_bit_nat_def) simp
qed

lemma frame_parts:
  fixes a :: u32
  defines "f \<equiv> unat a div 4096"
  shows "BITSET_INDEX (a div 0x1000) = of_nat (f div 32)" "unat (BITSET_OFFSET (a div 0x1000)) = f mod 32"
    "f < 2 ^ 20"
proof -
  have f: "unat (a div 0x1000) = f" by (simp add: f_def unat_div)
  show "unat (BITSET_OFFSET (a div 0x1000)) = f mod 32"
    using f by (simp add: BITSET_OFFSET_def unat_mod)
  have "unat (BITSET_INDEX (a div 0x1000)) = f div 32"
    using f by (simp add: BITSET_INDEX_def unat_div)
  then show "BITSET_INDEX (a div 0x1000) = of_nat (f div 32)"
    using of_nat_unat [of "BITSET_INDEX (a div 0x1000)", where 'a = u32] by simp
  show "f < 2 ^ 20" using unat_lt [of a] by (simp add: f_def less_mult_imp_div_less)
qed

lemma bit_set_word: "j < 32 \<Longrightarrow> bit (w OR 2 ^ k :: u32) j \<longleftrightarrow> bit w j \<or> j = k"
  "j < 32 \<Longrightarrow> bit (w AND NOT (2 ^ k) :: u32) j \<longleftrightarrow> bit w j \<and> j \<noteq> k"
  by (auto simp: bit_simps)

lemma frame_eq: "g div 32 = f div 32 \<Longrightarrow> g mod 32 = f mod 32 \<Longrightarrow> g = (f :: nat)"
  by (metis div_mod_decomp)

lemma used_set_frame:
  assumes "g < 2 ^ 20"
  shows "used (set_frame a m) g \<longleftrightarrow> used m g \<or> g = unat a div 4096"
proof -
  let ?f = "unat a div 4096"
  note P = frame_parts [of a]
  have idx: "g div 32 < 2 ^ 15" "?f div 32 < 2 ^ 15" using assms P(3) by (simp_all add: less_mult_imp_div_less)
  show ?thesis
  proof (cases "g div 32 = ?f div 32")
    case True
    then show ?thesis
      using P frame_eq [of g ?f] by (auto simp: used_def set_frame_def Let_def bit_set_word)
  next
    case False
    then have "frame_word m (of_nat (g div 32)) \<noteq> frame_word m (of_nat (?f div 32))"
      using frame_word_inj [OF idx] by blast
    moreover have "g \<noteq> ?f" using False by auto
    ultimately show ?thesis using P by (simp add: used_def set_frame_def Let_def)
  qed
qed

lemma used_clear_frame:
  assumes "g < 2 ^ 20"
  shows "used (clear_frame a m) g \<longleftrightarrow> used m g \<and> g \<noteq> unat a div 4096"
proof -
  let ?f = "unat a div 4096"
  note P = frame_parts [of a]
  have idx: "g div 32 < 2 ^ 15" "?f div 32 < 2 ^ 15" using assms P(3) by (simp_all add: less_mult_imp_div_less)
  show ?thesis
  proof (cases "g div 32 = ?f div 32")
    case True
    then show ?thesis
      using P frame_eq [of g ?f] by (auto simp: used_def clear_frame_def Let_def bit_set_word)
  next
    case False
    then have "frame_word m (of_nat (g div 32)) \<noteq> frame_word m (of_nat (?f div 32))"
      using frame_word_inj [OF idx] by blast
    moreover have "g \<noteq> ?f" using False by auto
    ultimately show ?thesis using P by (simp add: used_def clear_frame_def Let_def)
  qed
qed

lemma test_frame_used: "test_frame a m \<noteq> 0 \<longleftrightarrow> used m (unat a div 4096)"
  using frame_parts [of a] by (simp add: test_frame_def used_def Let_def and_exp_eq_0_iff_not_bit)

section \<open>The search for a free frame\<close>

lemma first_bit_find: "first_bit w js = find (\<lambda>j. \<not> bit w j) js"
  by (induction js) (simp_all add: and_exp_eq_0_iff_not_bit)

definition word_frames :: "nat \<Rightarrow> nat list" where
  "word_frames i = map (\<lambda>j. 32 * i + j) [0..<32]"

lemma find_append: "find P (xs @ ys) = (case find P xs of None \<Rightarrow> find P ys | Some x \<Rightarrow> Some x)"
  by (induction xs) auto

lemma find_map: "find P (map f xs) = map_option f (find (P \<circ> f) xs)"
  by (induction xs) auto

lemma find_word:
  "find (\<lambda>f. \<not> used m f) (word_frames i) =
     map_option (\<lambda>j. 32 * i + j) (first_bit (load32 m (frame_word m (of_nat i))) [0..<32])"
proof -
  have "first_bit (load32 m (frame_word m (of_nat i))) [0..<32] =
      find (\<lambda>j. \<not> bit (load32 m (frame_word m (of_nat i))) j) [0..<32]"
    by (rule first_bit_find)
  also have "\<dots> = find ((\<lambda>f. \<not> used m f) \<circ> (\<lambda>j. 32 * i + j)) [0..<32]"
    by (rule find_cong) (auto simp: used_def)
  finally show ?thesis by (simp add: word_frames_def find_map)
qed

lemma first_word_find:
  "first_word m is = (case find (\<lambda>f. \<not> used m f) (concat (map word_frames is)) of None \<Rightarrow> -1 | Some f \<Rightarrow> of_nat f)"
proof (induction "is")
  case (Cons i "is")
  have "first_bit 0xFFFFFFFF [0..<32] = None" by code_simp
  then show ?case
    using Cons find_word [of m i]
    by (auto simp: find_append Let_def split: option.splits)
qed simp

lemma concat_word_frames: "concat (map word_frames [0..<k]) = [0..<32 * k]"
proof (induction k)
  case (Suc k)
  have "word_frames k = [32 * k..<32 * k + 32]"
    unfolding word_frames_def by (rule nth_equalityI) auto
  then show ?case using Suc upt_add_eq_append [of 0 "32 * k" 32] by (simp add: add.commute)
qed simp

lemma first_frame_find:
  "first_frame m = (case find (\<lambda>f. \<not> used m f) [0..<32 * (unat (nframes m) div 32)] of None \<Rightarrow> -1 | Some f \<Rightarrow> of_nat f)"
  by (simp add: first_frame_def first_word_find concat_word_frames BITSET_INDEX_def unat_div)

lemma find_upt:
  "find P [0..<n] = Some f \<longleftrightarrow> f < n \<and> P f \<and> (\<forall>g<f. \<not> P g)" "find P [0..<n] = None \<longleftrightarrow> (\<forall>f<n. \<not> P f)"
  by (auto simp: find_Some_iff find_None_iff)

section \<open>The identity map\<close>

text \<open>The directory at \<open>d\<close> and the tables behind it, as an array of words.\<close>

definition cell :: "mm32 \<Rightarrow> addr32 \<Rightarrow> nat \<Rightarrow> u32" where
  "cell m d w = load32 m (d + 4 * of_nat w)"

definition table_base :: "addr32 \<Rightarrow> nat \<Rightarrow> addr32" where
  "table_base d i = d + 0x1000 * of_nat (Suc i)"

text \<open>The layout of memory: the bitmap below the directory, the heap right behind the last of \<open>t\<close> tables.\<close>

definition layout32 :: "mm32 \<Rightarrow> addr32 \<Rightarrow> nat \<Rightarrow> bool" where
  "layout32 m d t \<longleftrightarrow> d AND 0xFFF = 0 \<and> t \<le> 1024 \<and> unat d + 0x1000 * 1026 < 2 ^ 32 \<and>
     unat (frames m) + 0x800 \<le> unat d \<and> unat (nframes m) = 16384 \<and> placement32 m = table_base d t"

text \<open>With \<open>t\<close> tables, each page below \<open>k\<close> is mapped to the frame of its own number, and nothing else is.\<close>

definition identity_inv :: "nat \<Rightarrow> nat \<Rightarrow> addr32 \<Rightarrow> mm32 \<Rightarrow> bool" where
  "identity_inv t k d m \<longleftrightarrow> layout32 m d t \<and>
     (\<forall>i<1024. cell m d i = (if i < t then table_base d i OR 3 else 0)) \<and>
     (\<forall>p<1024 * t. cell m d (1024 + p) = (if p < k then push_bit 12 (of_nat p) OR 3 else 0)) \<and>
     (\<forall>f<16384. used m f \<longleftrightarrow> f < k)"

lemma unat_offset:
  assumes "unat d + 4 * w < 2 ^ 32"
  shows "unat (d + 4 * of_nat w :: u32) = unat d + 4 * w"
proof -
  have "4 * of_nat w = (of_nat (4 * w) :: u32)" by simp
  moreover have "unat (of_nat (4 * w) :: u32) = 4 * w"
    using assms by (intro unat_of_nat_small) simp
  ultimately show ?thesis using assms unat_plus_simple [of d "of_nat (4 * w)"] by simp
qed

lemma cell_address_inj:
  assumes "unat d + 4 * w < 2 ^ 32" "unat d + 4 * v < 2 ^ 32" "d + 4 * of_nat w = (d + 4 * of_nat v :: u32)"
  shows "w = v"
  using arg_cong [OF assms(3), of unat] unat_offset [OF assms(1)] unat_offset [OF assms(2)] by simp

lemma cell_store:
  assumes "unat d + 4 * w < 2 ^ 32" "unat d + 4 * v < 2 ^ 32"
  shows "cell (store32 (d + 4 * of_nat v) x m) d w = (if w = v then x else cell m d w)"
  using cell_address_inj [OF assms] by (auto simp: cell_def)

lemma frame_word_not_cell:
  assumes "layout32 m d t" "i < 512" "w < 1024 * 1026"
  shows "frame_word m (of_nat i) \<noteq> d + 4 * of_nat w"
proof -
  have "unat (frame_word m (of_nat i)) = unat (frames m) + 4 * i"
    unfolding frame_word_def using assms unat_lt [of d] by (intro unat_offset) (simp add: layout32_def)
  moreover have "unat (d + 4 * of_nat w) = unat d + 4 * w"
    using assms by (intro unat_offset) (simp add: layout32_def)
  ultimately show ?thesis using assms by (auto simp: layout32_def dest: arg_cong [of _ _ unat])
qed

lemma used_store_cell:
  assumes "layout32 m d t" "w < 1024 * 1026" "f < 16384"
  shows "used (store32 (d + 4 * of_nat w) x m) f = used m f"
  using frame_word_not_cell [OF assms(1) _ assms(2), of "f div 32"] assms(3)
  by (simp add: used_def less_mult_imp_div_less)

lemma table_base_cell: "table_base d i + 4 * of_nat j = d + 4 * of_nat (1024 + (1024 * i + j))"
  by (simp add: table_base_def algebra_simps)

lemma layout32_store [simp]: "layout32 (store32 a x m) d t = layout32 m d t"
  by (simp add: layout32_def)

lemma base_mask: "PDE_PAGE_TABLE_BASE_MASK = NOT (mask 12)"
  by (simp add: PDE_PAGE_TABLE_BASE_MASK_def mask_eq_exp_minus_1)

lemma table_base_aligned:
  assumes "layout32 m d t"
  shows "table_base d i AND 0xFFF = 0" "page_align_up (table_base d i) = table_base d i"
    "(table_base d i OR 3) AND PDE_PAGE_TABLE_BASE_MASK = table_base d i" "(table_base d i OR 3) AND PDE_PRESENT \<noteq> 0"
proof -
  have "unat d mod 4096 = 0"
    using assms unat_and_mask [of d 12] by (simp add: layout32_def mask12)
  then have "4096 dvd (unat d + 4096 * Suc i) mod 2 ^ 32"
    by (simp add: dvd_mod_iff dvd_eq_mod_eq_0 [symmetric] dvd_add_left_iff)
  moreover have "unat (table_base d i) = (unat d + 4096 * Suc i) mod 2 ^ 32"
  proof -
    have "table_base d i = of_nat (unat d + 4096 * Suc i)" by (simp add: table_base_def)
    then show ?thesis by (simp only: unat_of_nat_mod) simp
  qed
  ultimately have "unat (table_base d i) mod 4096 = 0" by (simp only: dvd_eq_mod_eq_0)
  then show a: "table_base d i AND 0xFFF = 0"
    using unat_and_mask [of "table_base d i" 12] by (simp add: mask12 word_unat_eq_iff)
  then show "page_align_up (table_base d i) = table_base d i" by (simp add: page_align_up_def)
  have low: "\<not> bit (table_base d i) n" if "n < 12" for n
    using arg_cong [OF a, of "\<lambda>w. bit w n"] that by (simp add: mask12 bit_simps)
  show "(table_base d i OR 3) AND PDE_PAGE_TABLE_BASE_MASK = table_base d i"
  proof (rule bit_word_eqI)
    fix n :: nat assume "n < LENGTH(32)"
    then have n: "n < 32" by simp
    have three: "(3 :: u32) = mask 2" by (simp add: mask_eq_exp_minus_1)
    show "bit ((table_base d i OR 3) AND PDE_PAGE_TABLE_BASE_MASK) n = bit (table_base d i) n"
      unfolding base_mask three using n low [of n] by (auto simp: bit_simps)
  qed
  have "bit ((table_base d i OR 3) AND PDE_PRESENT) 0"
    by (simp add: PDE_PRESENT_def bit_simps)
  then show "(table_base d i OR 3) AND PDE_PRESENT \<noteq> 0" by (metis bit_0_eq bot_apply bot_bool_def)
qed

lemma page_address:
  assumes "k < 16384"
  shows "drop_bit 22 (0x1000 * of_nat k :: u32) = of_nat (k div 1024)"
    "drop_bit 12 (0x1000 * of_nat k :: u32) AND 0x3FF = of_nat (k mod 1024)"
    "unat (of_nat k * 0x1000 :: u32) div 4096 = k"
proof -
  have "(0x1000 * of_nat k :: u32) = of_nat (4096 * k)" by simp
  then have u: "unat (0x1000 * of_nat k :: u32) = 4096 * k"
    using assms unat_of_nat_small [of "4096 * k", where 'a = 32] by simp
  have eq: "w = of_nat n" if "unat w = n" for w :: u32 and n
    using that of_nat_unat [of w, where 'a = u32] by simp
  show "drop_bit 22 (0x1000 * of_nat k :: u32) = of_nat (k div 1024)"
  proof (rule eq)
    have "unat (drop_bit 22 (0x1000 * of_nat k :: u32)) = 4096 * k div 2 ^ 22"
      using u by (simp only: unat_drop_bit)
    also have "\<dots> = k div 1024" by simp
    finally show "unat (drop_bit 22 (0x1000 * of_nat k :: u32)) = k div 1024" .
  qed
  show "drop_bit 12 (0x1000 * of_nat k :: u32) AND 0x3FF = of_nat (k mod 1024)"
  proof (rule eq)
    have "(0x3FF :: u32) = mask 10" by (simp add: mask_eq_exp_minus_1)
    then have "unat (drop_bit 12 (0x1000 * of_nat k :: u32) AND 0x3FF) = (4096 * k div 2 ^ 12) mod 2 ^ 10"
      using u by (simp only: unat_and_mask unat_drop_bit)
    also have "\<dots> = k mod 1024" by simp
    finally show "unat (drop_bit 12 (0x1000 * of_nat k :: u32) AND 0x3FF) = k mod 1024" .
  qed
  show "unat (of_nat k * 0x1000 :: u32) div 4096 = k" using u by (simp add: mult.commute)
qed

lemma zero_words_load:
  "load32 (zero_words n a m) x = (if \<exists>i<n. x = a + 4 * of_nat i then 0 else load32 m x)"
  by (induction n arbitrary: m) (auto simp: Ex_less_Suc)

lemma zero_words_fields [simp]:
  "frames (zero_words n a m) = frames m" "nframes (zero_words n a m) = nframes m"
  "placement32 (zero_words n a m) = placement32 m" "frame_word (zero_words n a m) i = frame_word m i"
  by (induction n arbitrary: m) simp_all

lemma directory_aligned: "layout32 m d t \<Longrightarrow> cr3_to_directory d = d"
proof -
  assume "layout32 m d t"
  then have "d AND mask 12 = 0" by (simp add: layout32_def mask12)
  then show ?thesis using and_not_mask_eq [of d 12] by (simp only: cr3_to_directory_def base_mask) simp
qed

text \<open>Adding a table behind the last one.\<close>

definition new_table :: "nat \<Rightarrow> addr32 \<Rightarrow> mm32 \<Rightarrow> mm32" where
  "new_table t d m = store32 (d + 4 * of_nat t) (table_base d t OR 3)
     (zero_words 1024 (table_base d t) (m\<lparr>placement32 := table_base d (Suc t)\<rparr>))"

lemma new_table_cell:
  assumes "layout32 m d t" "t < 1024" "w < 1024 * 1026"
  shows "cell (new_table t d m) d w =
    (if w = t then table_base d t OR 3 else if 1024 + 1024 * t \<le> w \<and> w < 1024 + 1024 * t + 1024 then 0 else cell m d w)"
proof -
  have lim: "unat d + 4 * v < 2 ^ 32" if "v < 1024 * 1026" for v
    using assms(1) that by (simp add: layout32_def)
  have "(\<exists>i<1024. d + 4 * of_nat w = table_base d t + 4 * of_nat i) \<longleftrightarrow> 1024 + 1024 * t \<le> w \<and> w < 1024 + 1024 * t + 1024"
  proof safe
    fix i :: nat assume i: "i < 1024" "d + 4 * of_nat w = table_base d t + 4 * of_nat i"
    then have "w = 1024 + (1024 * t + i)"
      unfolding table_base_cell using cell_address_inj [OF lim lim] assms(2,3) by simp
    then show "1024 + 1024 * t \<le> w" "w < 1024 + 1024 * t + 1024" using i by simp_all
  next
    assume w: "1024 + 1024 * t \<le> w" "w < 1024 + 1024 * t + 1024"
    then have "w = 1024 + (1024 * t + (w - 1024 - 1024 * t))" "w - 1024 - 1024 * t < 1024" by simp_all
    then show "\<exists>i<1024. d + 4 * of_nat w = table_base d t + 4 * of_nat i"
      unfolding table_base_cell by metis
  qed
  then show ?thesis
    using cell_store [OF lim lim, of w t] assms(2,3)
    by (simp add: new_table_def cell_def zero_words_load load32_def [of "m\<lparr>placement32 := _\<rparr>"] load32_def [of m])
qed

lemma new_table_inv:
  assumes "identity_inv t k d m" "k \<le> 1024 * t" "t < 16"
  shows "identity_inv (Suc t) k d (new_table t d m)"
proof -
  have L: "layout32 m d t" using assms by (simp add: identity_inv_def)
  then have L': "layout32 (new_table t d m) d (Suc t)"
    using assms(3) by (simp add: layout32_def new_table_def)
  have "used (new_table t d m) f = used m f" if "f < 16384" for f
  proof -
    have f: "frame_word m (of_nat (f div 32)) \<noteq> d + 4 * of_nat w" if "w < 1024 * 1026" for w
      using frame_word_not_cell [OF L _ that] \<open>f < 16384\<close> by (simp add: less_mult_imp_div_less)
    have "frame_word m (of_nat (f div 32)) \<noteq> table_base d t + 4 * of_nat i" if "i < 1024" for i
      unfolding table_base_cell using that assms(3) by (intro f) simp
    moreover have "frame_word (m\<lparr>placement32 := x\<rparr>) i = frame_word m i" "load32 (m\<lparr>placement32 := x\<rparr>) a = load32 m a" for x i a
      by (simp_all add: frame_word_def load32_def)
    ultimately show ?thesis
      using f [of t] assms(3) by (auto simp: used_def new_table_def zero_words_load)
  qed
  moreover have "cell (new_table t d m) d i = (if i < Suc t then table_base d i OR 3 else 0)" if "i < 1024" for i
    using that new_table_cell [OF L, of i] assms by (auto simp: identity_inv_def less_Suc_eq)
  moreover have "cell (new_table t d m) d (1024 + p) = (if p < k then push_bit 12 (of_nat p) OR 3 else 0)"
    if "p < 1024 * Suc t" for p
    using that new_table_cell [OF L, of "1024 + p"] assms by (auto simp: identity_inv_def)
  ultimately show ?thesis using L' assms(1) by (simp add: identity_inv_def)
qed

lemma get_page_identity:
  assumes inv: "identity_inv t k d m" and k: "k < 16384" "k \<le> 1024 * t" "1024 * t \<le> k + 1023"
  obtains m1 where "get_page (0x1000 * of_nat k) True d m = (d + 4 * of_nat (1024 + k), m1)"
    "identity_inv ((k + 1024) div 1024) k d m1"
proof (cases "k div 1024 < t")
  case True
  have L: "layout32 m d t" using inv by (simp add: identity_inv_def)
  have t: "(k + 1024) div 1024 = t" using True k(3) by simp
  have "cell m d (k div 1024) = table_base d (k div 1024) OR 3"
    using inv True k(1) by (simp add: identity_inv_def less_mult_imp_div_less)
  then have "get_page (0x1000 * of_nat k) True d m = (table_base d (k div 1024) + 4 * of_nat (k mod 1024), m)"
    using table_base_aligned [OF L] directory_aligned [OF L] page_address [OF k(1)]
    by (simp add: get_page_def cell_def Let_def)
  then show thesis using that [of m] inv t unfolding table_base_cell by simp
next
  case False
  then have eq: "k = 1024 * t" using k by simp
  then have kt: "k = 1024 * t" "k div 1024 = t" "k mod 1024 = 0" "t < 16" using k(1) by simp_all
  have L: "layout32 m d t" using inv by (simp add: identity_inv_def)
  have "cell m d t = 0" using inv kt by (simp add: identity_inv_def)
  moreover have "table_base d t + 4096 = table_base d (Suc t)" by (simp add: table_base_def algebra_simps)
  moreover have "load32 (new_table t d m) (d + 4 * of_nat t) = table_base d t OR 3" by (simp add: new_table_def)
  ultimately have "get_page (0x1000 * of_nat k) True d m = (table_base d t + 4 * of_nat (k mod 1024), new_table t d m)"
    using table_base_aligned [OF L] directory_aligned [OF L] page_address [OF k(1)] kt L
    by (simp add: get_page_def cell_def Let_def kmalloc_a32_def kmalloc_a_def new_table_def PDE_PRESENT_def PDE_READ_WRITE_def
      layout32_def or.assoc)
  moreover have "identity_inv ((k + 1024) div 1024) k d (new_table t d m)"
    using new_table_inv [OF inv] kt by simp
  ultimately show thesis using that kt unfolding table_base_cell by simp
qed

lemma first_frame_least:
  assumes "unat (nframes m) = 16384" "k < 16384" "\<And>f. f < 16384 \<Longrightarrow> used m f \<longleftrightarrow> f < k"
  shows "first_frame m = of_nat k"
proof -
  have "find (\<lambda>f. \<not> used m f) [0..<16384] = Some k"
    using assms(2,3) by (auto simp: find_upt(1))
  then show ?thesis using assms(1) by (simp add: first_frame_find)
qed

lemma entry_value:
  assumes "k < 16384"
  shows "PTE_SET_FRAME (PTE_SET_WRITABLE (PTE_SET_PRESENT 0)) (of_nat k) = push_bit 12 (of_nat k) OR 3"
proof -
  have "(of_nat k :: u32) AND 0xFFFFF = of_nat k"
  proof -
    have m: "(0xFFFFF :: u32) = mask 20" by (simp add: mask_eq_exp_minus_1)
    have "unat ((of_nat k :: u32) AND 0xFFFFF) = unat (of_nat k :: u32)"
      using assms unat_of_nat_small [of k, where 'a = 32] by (simp only: m unat_and_mask) simp
    then show ?thesis by (simp add: word_unat_eq_iff)
  qed
  moreover have "(3 :: u32) AND NOT PTE_FRAME_MASK = 3" by (simp add: PTE_FRAME_MASK_def)
  ultimately show ?thesis
    by (simp add: PTE_SET_FRAME_def PTE_SET_WRITABLE_def PTE_SET_PRESENT_def PTE_PRESENT_def PTE_READ_WRITE_def or.commute)
qed

lemma alloc_frame_identity:
  assumes inv: "identity_inv t k d m" and k: "k < 16384" "k < 1024 * t"
  obtains m1 where "alloc_frame (d + 4 * of_nat (1024 + k)) True True m = Some m1" "identity_inv t (Suc k) d m1"
proof -
  let ?page = "d + 4 * of_nat (1024 + k)" and ?w = "frame_word m (of_nat (k div 32))"
  let ?m1 = "set_frame (of_nat k * 0x1000) m"
  let ?m2 = "store32 ?page (push_bit 12 (of_nat k) OR 3) ?m1"
  have L: "layout32 m d t" using inv by (simp add: identity_inv_def)
  have t: "t \<le> 1024" using L by (simp add: layout32_def)
  have lim: "unat d + 4 * v < 2 ^ 32" if "v < 1024 * 1026" for v using L that by (simp add: layout32_def)
  have m1: "?m1 = store32 ?w (load32 m ?w OR push_bit (k mod 32) 1) m"
    using frame_parts [of "of_nat k * 0x1000"] page_address(3) [OF k(1)] by (simp add: set_frame_def Let_def)
  have cell1: "cell ?m1 d v = cell m d v" if "v < 1024 * 1026" for v
    unfolding m1 cell_def using frame_word_not_cell [OF L _ that, of "k div 32"] k(1) by (auto simp: less_mult_imp_div_less)
  have zero: "load32 m ?page = 0" "load32 ?m1 ?page = 0"
    using inv k(2) cell1 [of "1024 + k"] t unfolding cell_def [symmetric] by (simp_all add: identity_inv_def)
  have "first_frame m = of_nat k"
    using inv k(1) by (intro first_frame_least) (auto simp: identity_inv_def layout32_def)
  moreover have "(of_nat k :: u32) \<noteq> -1"
  proof
    assume "(of_nat k :: u32) = -1"
    then have "(of_nat (Suc k) :: u32) = 0" by simp
    then show False using k(1) unat_of_nat_small [of "Suc k", where 'a = 32] by simp
  qed
  ultimately have r: "alloc_frame ?page True True m = Some ?m2"
    using zero entry_value [OF k(1)]
    by (simp add: alloc_frame_def Let_def PTE_GET_FRAME_def upd_pte_def store32_def load32_def)
  have lay: "layout32 ?m1 d t" using L unfolding m1 by simp
  have c2: "cell ?m2 d v = (if v = 1024 + k then push_bit 12 (of_nat k) OR 3 else cell m d v)" if "v < 1024 * 1026" for v
    using cell_store [OF lim [OF that] lim, of "1024 + k"] cell1 [OF that] k(2) t by simp
  have "used ?m2 f \<longleftrightarrow> f < Suc k" if "f < 16384" for f
  proof -
    have "used ?m2 f = used ?m1 f" using k(2) t by (intro used_store_cell [OF lay _ that]) simp
    also have "\<dots> \<longleftrightarrow> used m f \<or> f = k" using that page_address(3) [OF k(1)] by (subst used_set_frame) simp_all
    finally show ?thesis using inv that by (auto simp: identity_inv_def)
  qed
  moreover have "cell ?m2 d i = (if i < t then table_base d i OR 3 else 0)" if "i < 1024" for i
    using that c2 [of i] inv by (simp add: identity_inv_def)
  moreover have "cell ?m2 d (1024 + p) = (if p < Suc k then push_bit 12 (of_nat p) OR 3 else 0)" if "p < 1024 * t" for p
    using that c2 [of "1024 + p"] inv t by (auto simp: identity_inv_def less_Suc_eq)
  ultimately have "identity_inv t (Suc k) d ?m2" using lay by (simp add: identity_inv_def)
  then show thesis using that r by blast
qed

lemma identity_loop_ok:
  "identity_inv ((k + 1023) div 1024) k d m \<Longrightarrow> k + n \<le> 16384 \<Longrightarrow>
   \<exists>m'. identity_loop [k..<k + n] d m = Some m' \<and> identity_inv ((k + n + 1023) div 1024) (k + n) d m'"
proof (induction n arbitrary: k m)
  case (Suc n)
  have "k < 16384" "k \<le> 1024 * ((k + 1023) div 1024)" "1024 * ((k + 1023) div 1024) \<le> k + 1023"
    using Suc.prems(2) by simp_all
  from get_page_identity [OF Suc.prems(1) this] obtain m1 where
    g: "get_page (0x1000 * of_nat k) True d m = (d + 4 * of_nat (1024 + k), m1)" and
    i1: "identity_inv ((k + 1024) div 1024) k d m1" by blast
  have "k < 1024 * ((k + 1024) div 1024)" by simp
  from alloc_frame_identity [OF i1 \<open>k < 16384\<close> this] obtain m2 where
    a: "alloc_frame (d + 4 * of_nat (1024 + k)) True True m1 = Some m2" and
    i2: "identity_inv ((k + 1024) div 1024) (Suc k) d m2" by blast
  have "identity_inv ((Suc k + 1023) div 1024) (Suc k) d m2" using i2 by (simp add: add.commute)
  from Suc.IH [OF this] Suc.prems(2) obtain m' where
    "identity_loop [Suc k..<Suc k + n] d m2 = Some m'" "identity_inv ((Suc k + n + 1023) div 1024) (Suc k + n) d m'" by auto
  moreover have "[k..<k + Suc n] = k # [Suc k..<Suc k + n]" by (simp add: upt_conv_Cons)
  ultimately show ?case using g a by simp
qed simp

section \<open>Translation\<close>

text \<open>What the processor makes of an address: the physical address and whether it may be written.\<close>

definition translate32 :: "mm32 \<Rightarrow> addr32 \<Rightarrow> nat \<Rightarrow> (nat \<times> bool) option" where
  "translate32 m d va =
     (let pde = load32 m (d + 4 * of_nat (va div 2 ^ 22))
      in if \<not> bit pde 0 then None
         else let pte = load32 m ((pde AND NOT (mask 12)) + 4 * of_nat (va div 2 ^ 12 mod 2 ^ 10))
              in if \<not> bit pte 0 then None
                 else Some (unat (pte AND NOT (mask 12)) + va mod 2 ^ 12, bit pde 1 \<and> bit pte 1))"

lemma bit_or_3: "bit (w OR 3 :: u32) 0" "bit (w OR 3 :: u32) (Suc 0)"
  by (simp_all add: bit_simps)

lemma translate_identity:
  assumes inv: "identity_inv t k d m" and p: "va div 4096 < k" "k \<le> 1024 * t" "k \<le> 16384"
  shows "translate32 m d va = Some (va, True)"
proof -
  define q where "q = va div 4096"
  have L: "layout32 m d t" using inv by (simp add: identity_inv_def)
  have i: "va div 2 ^ 22 = q div 1024" "va div 2 ^ 12 mod 2 ^ 10 = q mod 1024"
    by (simp_all add: q_def div_mult2_eq [symmetric])
  have qt: "q div 1024 < t" "q div 1024 < 1024" using p by (simp_all add: q_def less_mult_imp_div_less)
  then have "load32 m (d + 4 * of_nat (q div 1024)) = table_base d (q div 1024) OR 3"
    using inv by (simp add: identity_inv_def cell_def)
  moreover have "(table_base d (q div 1024) OR 3) AND NOT (mask 12) = table_base d (q div 1024)"
    using table_base_aligned(3) [OF L] unfolding base_mask .
  moreover have "load32 m (table_base d (q div 1024) + 4 * of_nat (q mod 1024)) = push_bit 12 (of_nat q) OR 3"
    unfolding table_base_cell cell_def [symmetric] using inv p by (simp add: identity_inv_def q_def [symmetric])
  moreover have "unat ((push_bit 12 (of_nat q) OR 3) AND NOT (mask 12) :: u32) = 4096 * q"
  proof -
    have "(push_bit 12 (of_nat q) OR 3) AND NOT (mask 12) = (push_bit 12 (of_nat q) :: u32)"
    proof (rule bit_word_eqI)
      fix n :: nat assume "n < LENGTH(32)"
      have three: "(3 :: u32) = mask 2" by (simp add: mask_eq_exp_minus_1)
      show "bit ((push_bit 12 (of_nat q) OR 3) AND NOT (mask 12) :: u32) n = bit (push_bit 12 (of_nat q) :: u32) n"
        unfolding three by (auto simp: bit_simps)
    qed
    also have "\<dots> = of_nat (4096 * q)" by (simp add: push_bit_eq_mult mult.commute)
    finally show ?thesis using p unat_of_nat_small [of "4096 * q", where 'a = 32] by (simp add: q_def)
  qed
  ultimately show ?thesis
    unfolding translate32_def i Let_def by (simp add: bit_or_3 q_def)
qed

section \<open>Properties\<close>

text \<open>C33: the frame bitmap is a set of frames.  Marking a frame adds it, clearing removes it, testing asks for
  it, and the search returns the least free frame below the limit, or -1 when there is none.\<close>

theorem frame_bitmap_is_set:
  assumes "g < 2 ^ 20"
  shows "(used (set_frame a m) g \<longleftrightarrow> used m g \<or> g = unat a div 4096) \<and>
    (used (clear_frame a m) g \<longleftrightarrow> used m g \<and> g \<noteq> unat a div 4096) \<and>
    (test_frame a m \<noteq> 0 \<longleftrightarrow> used m (unat a div 4096)) \<and>
    (first_frame m = (case find (\<lambda>f. \<not> used m f) [0..<32 * (unat (nframes m) div 32)] of None \<Rightarrow> -1 | Some f \<Rightarrow> of_nat f))"
  using used_set_frame [OF assms] used_clear_frame [OF assms] test_frame_used first_frame_find by auto

definition empty_mm32 :: mm32 where
  "empty_mm32 = \<lparr>placement32 = 0x102000, mem32 = (\<lambda>_. 0), frames = 0x100000, nframes = 16384, kernel_directory = 0x101000,
     current_directory = 0x101000, cr3_32 = 0, cr0_32 = 0, invalidated = {}\<rparr>"

theorem frame_bitmap_is_set_witness:
  "used (set_frame 0x5000 empty_mm32) 5 \<and> \<not> used (set_frame 0x5000 empty_mm32) 4"
  using frame_bitmap_is_set [of 5 "0x5000" empty_mm32] frame_bitmap_is_set [of 4 "0x5000" empty_mm32]
  by (simp add: used_def empty_mm32_def load32_def)

text \<open>C12: the kernel is identity mapped.  The loop of \<^verbatim>\<open>init_paging\<close> takes whatever frame is free first and never
  asks for a particular one; from an empty bitmap and an empty directory it nevertheless ends with every
  page mapped, writable, to the frame of its own number, for as many pages as there are frames.\<close>

theorem init_paging_identity:
  assumes "identity_inv 0 0 d m" "n \<le> 16384"
  shows "\<exists>m'. identity_loop [0..<n] d m = Some m' \<and>
    (\<forall>va<4096 * n. translate32 m' d va = Some (va, True)) \<and> (\<forall>f<16384. used m' f \<longleftrightarrow> f < n)"
proof -
  obtain m' where m': "identity_loop [0..<n] d m = Some m'" "identity_inv ((n + 1023) div 1024) n d m'"
    using identity_loop_ok [of 0 d m n] assms by auto
  then have "translate32 m' d va = Some (va, True)" if "va < 4096 * n" for va
    using that assms(2) by (intro translate_identity [OF m'(2)]) (simp_all add: less_mult_imp_div_less)
  then show ?thesis using m' by (auto simp: identity_inv_def)
qed

lemma empty_identity: "identity_inv 0 0 0x101000 empty_mm32"
  by (simp add: identity_inv_def layout32_def empty_mm32_def cell_def load32_def used_def table_base_def frame_word_def)

theorem init_paging_identity_witness:
  "\<exists>m'. identity_loop [0..<3000] 0x101000 empty_mm32 = Some m' \<and> translate32 m' 0x101000 0x2ABCD = Some (0x2ABCD, True)"
  using init_paging_identity [OF empty_identity, of 3000] by auto

text \<open>The bitmap has 512 words, for 64 MiB, but \<^verbatim>\<open>map_physical_range\<close> marks the frames of device memory in it
  too: for the local APIC at 0xFEE00000 the word stored to lies far behind the bitmap.\<close>

lemma bitmap_overrun:
  "frame_word m (BITSET_INDEX (0xFEE00000 div 0x1000)) = frames m + 4 * 32624 \<and> BITSET_INDEX 16384 = 512 \<and>
   load32 (set_frame 0xFEE00000 m) (frames m + 4 * 32624) = load32 m (frames m + 4 * 32624) OR 1"
  by (simp add: frame_word_def BITSET_INDEX_def BITSET_OFFSET_def set_frame_def Let_def)

end
