(* ===== verification/Process.thy ===== *)
theory Process
  imports Paging64 Klist Irq
begin

text \<open>
  The process table, kernel stacks, context switch and fork of
  \<^verbatim>\<open>kernel/scheduler/process.c\<close>, \<^verbatim>\<open>arch/x86_64/switch.c\<close> and \<^verbatim>\<open>arch/x86_64/asm/swtch.S\<close>.

  The state is one record: memory, the machine registers that survive a switch, the process table,
  the store of the intrusive lists and the CPU record.  A function that can panic returns \<open>Inl\<close>; a lock
  that is never released is \<open>Inl Deadlock\<close>, a null pointer followed \<open>Inl NullDeref\<close>.  Addresses of code (\<^verbatim>\<open>forkret\<close>, the resume point of
  a forked child) are link-time constants and are fields of the state.  Log output is not modelled.
\<close>

section \<open>State\<close>

datatype process_state = UNUSED | READY | RUNNING | SLEEPING | ZOMBIE

datatype vm_type = STACK | HEAP

text \<open>The \<^verbatim>\<open>list_head\<close> objects of the kernel: the queue heads \<^verbatim>\<open>mlfq[i]\<close> and \<^verbatim>\<open>ready\<close>; the
  \<^verbatim>\<open>sched\<close> and \<^verbatim>\<open>addrspace.vm_list\<close> members of the process in a table slot; and the \<^verbatim>\<open>node\<close>
  member of the region at an address.\<close>

datatype kobj = Mlfq nat | ReadyQ | Sched nat | VmList nat | VmNode virt_addr

text \<open>A \<^verbatim>\<open>struct process *\<close>: a slot of the table, or \<^verbatim>\<open>bootstrap_proc\<close>.\<close>

datatype procref = Proc nat | Bootstrap

record vm_region =
  vr_flags :: u64
  vr_type :: vm_type
  vr_start :: virt_addr
  vr_end :: virt_addr

record process =
  pid :: u8
  pname :: string
  parent :: "procref option"
  pstate :: process_state
  pml4_addr :: phys_addr
  context_sp :: virt_addr
  entry :: u64

record regs =
  rsp :: u64
  rbp :: u64
  rbx :: u64
  r12 :: u64
  r13 :: u64
  r14 :: u64
  r15 :: u64
  rip :: u64
  rflags :: u64

record kstate =
  kmm :: mm
  kregs :: regs
  processes :: "process list"
  bootstrap_proc :: process
  glbl_pid :: u8
  lists :: "kobj list_head"
  regions :: "virt_addr \<Rightarrow> vm_region"
  task :: procref
  scheduler_proc :: "procref option"
  mlfq_lock :: bool
  tick_count :: u32
  forkret_addr :: u64
  child_resume_addr :: u64

datatype kstop = Panic string | Deadlock | NullDeref

type_synonym 'a kres = "kstop + 'a"

definition NUM_PROCESSES :: nat where "NUM_PROCESSES = 10"
definition KSTACK_PAGES :: u64 where "KSTACK_PAGES = 32"
definition KSTACK_SIZE :: u64 where "KSTACK_SIZE = (KSTACK_PAGES + 1) * PAGE_SIZE"

definition empty_process :: process where
  "empty_process = \<lparr>pid = 0, pname = [], parent = None, pstate = UNUSED, pml4_addr = 0,
     context_sp = 0, entry = 0\<rparr>"

definition get_proc :: "kstate \<Rightarrow> procref \<Rightarrow> process" where
  "get_proc s p = (case p of Proc i \<Rightarrow> processes s ! i | Bootstrap \<Rightarrow> bootstrap_proc s)"

definition upd_proc :: "procref \<Rightarrow> (process \<Rightarrow> process) \<Rightarrow> kstate \<Rightarrow> kstate" where
  "upd_proc p f s =
     (case p of
        Proc i \<Rightarrow> s\<lparr>processes := (processes s)[i := f (processes s ! i)]\<rparr>
      | Bootstrap \<Rightarrow> s\<lparr>bootstrap_proc := f (bootstrap_proc s)\<rparr>)"

definition upd_lists :: "(kobj list_head \<Rightarrow> kobj list_head) \<Rightarrow> kstate \<Rightarrow> kstate" where
  "upd_lists f s = s\<lparr>lists := f (lists s)\<rparr>"

definition kirq_save :: "kstate \<Rightarrow> u64 \<times> kstate" where
  "kirq_save s = (let (flags, r) = irq_save (rflags (kregs s)) in (flags, s\<lparr>kregs := (kregs s)\<lparr>rflags := r\<rparr>\<rparr>))"

definition kirq_restore :: "u64 \<Rightarrow> kstate \<Rightarrow> kstate" where
  "kirq_restore flags s = s\<lparr>kregs := (kregs s)\<lparr>rflags := irq_restore flags (rflags (kregs s))\<rparr>\<rparr>"

section \<open>Stacks\<close>

definition FL_VM_READ :: u64 where "FL_VM_READ = 2"
definition FL_VM_WRITE :: u64 where "FL_VM_WRITE = 4"

text \<open>\<^verbatim>\<open>sizeof(struct vm_region)\<close> in the x86-64 ABI.\<close>

definition sizeof_vm_region :: u32 where "sizeof_vm_region = 48"

definition alloc_stack :: "kstate \<Rightarrow> (virt_addr \<times> kstate) kres" where
  "alloc_stack s =
     (let m = kmm s;
          (stack, p1) = kmalloc_a (ucast KSTACK_SIZE) (placement_address m);
          (vma_stack, p2) = kmalloc sizeof_vm_region p1;
          m1 = m\<lparr>placement_address := p2\<rparr>
      in if stack = 0 \<or> vma_stack = 0 then Inl (Panic ''alloc_stack: could not allocate stack for process'')
         else
           let r = \<lparr>vr_flags = FL_VM_READ OR FL_VM_WRITE, vr_type = STACK, vr_start = stack,
                    vr_end = stack + KSTACK_SIZE\<rparr>;
               s1 = s\<lparr>kmm := m1, regions := (regions s)(vma_stack := r)\<rparr>;
               (guard_frame, m2) = unmap_page (vr_start r) (read_cr3 m1) m1
           in if guard_frame = 0 then Inl (Panic ''alloc_stack: guard page was not mapped in the first place'')
              else Inr (vma_stack, s1\<lparr>kmm := m2\<rparr>))"

text \<open>\<open>stack_p[-n] = x\<close> for a word pointer.\<close>

definition stack_put :: "virt_addr \<Rightarrow> nat \<Rightarrow> u64 \<Rightarrow> mm \<Rightarrow> mm" where
  "stack_put stack_p n x m = vstore (stack_p - 8 * of_nat n) x m"

definition init_stack :: "procref \<Rightarrow> u64 \<Rightarrow> kstate \<Rightarrow> (virt_addr \<times> kstate) kres" where
  "init_stack p fn s =
     (case alloc_stack s of Inl e \<Rightarrow> Inl e
      | Inr (vma_stack, s1) \<Rightarrow>
          let stack_p = vr_end (regions s1 vma_stack);
              m = stack_put stack_p 8 0 (stack_put stack_p 7 0 (stack_put stack_p 6 0
                    (stack_put stack_p 5 0 (stack_put stack_p 4 0 (stack_put stack_p 3 0
                      (stack_put stack_p 2 fn (stack_put stack_p 1 0 (kmm s1))))))));
              s2 = s1\<lparr>kmm := m\<rparr>
          in Inr (vma_stack, upd_proc p (\<lambda>q. q\<lparr>context_sp := stack_p - 64\<rparr>) s2))"

section \<open>Context switch\<close>

definition myproc :: "kstate \<Rightarrow> procref \<times> kstate" where
  "myproc s = (let (flags, s1) = kirq_save s; ret = task s1 in (ret, kirq_restore flags s1))"

text \<open>Stack instructions of the processor, on the registers and memory.\<close>

definition push :: "u64 \<Rightarrow> kstate \<Rightarrow> kstate" where
  "push x s =
     (let sp = rsp (kregs s) - 8
      in s\<lparr>kregs := (kregs s)\<lparr>rsp := sp\<rparr>, kmm := vstore sp x (kmm s)\<rparr>)"

definition pop :: "kstate \<Rightarrow> u64 \<times> kstate" where
  "pop s =
     (let sp = rsp (kregs s) in (vload (kmm s) sp, s\<lparr>kregs := (kregs s)\<lparr>rsp := sp + 8\<rparr>\<rparr>))"

text \<open>The pushes \<^verbatim>\<open>swtch\<close> and \<^verbatim>\<open>clone_parent_base_frame\<close> share, and the pops that undo them.\<close>

definition push_callee :: "kstate \<Rightarrow> kstate" where
  "push_callee s =
     (let r = kregs s
      in push (r15 r) (push (r14 r) (push (r13 r) (push (r12 r) (push (rbx r) (push (rbp r) s))))))"

definition pop_callee :: "kstate \<Rightarrow> kstate" where
  "pop_callee s =
     (let (a, s1) = pop s; (b, s2) = pop s1; (c, s3) = pop s2; (d, s4) = pop s3; (e, s5) = pop s4;
          (f, s6) = pop s5
      in s6\<lparr>kregs := (kregs s6)\<lparr>r15 := a, r14 := b, r13 := c, r12 := d, rbx := e, rbp := f\<rparr>\<rparr>)"

definition ret :: "kstate \<Rightarrow> kstate" where
  "ret s = (let (a, s1) = pop s in s1\<lparr>kregs := (kregs s1)\<lparr>rip := a\<rparr>\<rparr>)"

text \<open>\<^verbatim>\<open>swtch(&old->context.sp, new_sp, new_cr3)\<close>, entered by a call: the return address is on the stack.\<close>

definition swtch :: "procref \<Rightarrow> virt_addr \<Rightarrow> phys_addr \<Rightarrow> kstate \<Rightarrow> kstate" where
  "swtch old new_sp new_cr3 s =
     (let s1 = push_callee s;
          s2 = upd_proc old (\<lambda>q. q\<lparr>context_sp := rsp (kregs s1)\<rparr>) s1;
          s3 = s2\<lparr>kregs := (kregs s2)\<lparr>rsp := new_sp\<rparr>, kmm := write_cr3 new_cr3 (kmm s2)\<rparr>
      in ret (pop_callee s3))"

text \<open>\<^verbatim>\<open>ctx_switch\<close> up to the moment the other context runs; \<open>ret_addr\<close> is the address after its call of
  \<^verbatim>\<open>swtch\<close>.  What follows the call, the restoring of the interrupt flag, runs when something
  switches back and is part of the steps of that context.\<close>

definition ctx_switch :: "u64 \<Rightarrow> procref \<Rightarrow> kstate \<Rightarrow> u64 \<times> kstate" where
  "ctx_switch ret_addr new s =
     (let (flags, s1) = kirq_save s;
          (old, s2) = myproc s1;
          s3 = s2\<lparr>task := new\<rparr>
      in (flags, swtch old (context_sp (get_proc s3 new)) (pml4_addr (get_proc s3 new)) (push ret_addr s3)))"

section \<open>The process table\<close>

text \<open>The search of \<^verbatim>\<open>alloc_process\<close> for a free slot.\<close>

fun find_unused :: "process list \<Rightarrow> nat \<Rightarrow> nat option" where
  "find_unused [] i = None"
| "find_unused (p # ps) i = (if pstate p = UNUSED then Some i else find_unused ps (Suc i))"

text \<open>The part \<^verbatim>\<open>alloc_process\<close> and \<^verbatim>\<open>alloc_process_no_entry\<close> share: the slot is cleared, numbered
  and named, and its region list is initialised.  Clearing the slot clears its \<^verbatim>\<open>list_head\<close>
  members too.\<close>

definition claim_slot :: "nat \<Rightarrow> string \<Rightarrow> kstate \<Rightarrow> kstate" where
  "claim_slot i name s =
     (let s1 = s\<lparr>processes := (processes s)[i := empty_process]\<rparr>;
          s2 = upd_lists (\<lambda>h. set_prev (Ptr (VmList i)) NULL (set_next (Ptr (VmList i)) NULL
                 (set_prev (Ptr (Sched i)) NULL (set_next (Ptr (Sched i)) NULL h)))) s1;
          s3 = upd_proc (Proc i) (\<lambda>q. q\<lparr>pid := glbl_pid s2, parent := None, pstate := READY,
                 pname := name\<rparr>) s2;
          s4 = s3\<lparr>glbl_pid := glbl_pid s3 + 1\<rparr>
      in upd_lists (INIT_LIST_HEAD (Ptr (VmList i))) s4)"

definition alloc_process :: "string \<Rightarrow> u64 \<Rightarrow> kstate \<Rightarrow> (procref option \<times> kstate) kres" where
  "alloc_process name fn s =
     (let (flags, s1) = kirq_save s
      in case find_unused (processes s1) 0 of
           None \<Rightarrow> Inr (None, kirq_restore flags s1)
         | Some i \<Rightarrow>
             let s2 = claim_slot i name s1;
                 s3 = upd_proc (Proc i) (\<lambda>q. q\<lparr>pml4_addr := cr3_to_pml4_addr (read_cr3 (kmm s2)),
                        entry := fn\<rparr>) s2
             in case init_stack (Proc i) (forkret_addr s3) s3 of
                  Inl e \<Rightarrow> Inl e
                | Inr (stack_region, s4) \<Rightarrow>
                    Inr (Some (Proc i), kirq_restore flags
                      (upd_lists (list_add (Ptr (VmNode stack_region)) (Ptr (VmList i))) s4)))"

definition alloc_process_no_entry :: "string \<Rightarrow> kstate \<Rightarrow> (procref option \<times> kstate) kres" where
  "alloc_process_no_entry name s =
     (let (flags, s1) = kirq_save s
      in case find_unused (processes s1) 0 of
           None \<Rightarrow> Inr (None, kirq_restore flags s1)
         | Some i \<Rightarrow>
             let s2 = claim_slot i name s1;
                 s3 = upd_proc (Proc i) (\<lambda>q. q\<lparr>pml4_addr := PAGE_GET_ADDR (read_cr3 (kmm s2))\<rparr>) s2
             in case alloc_stack s3 of
                  Inl e \<Rightarrow> Inl e
                | Inr (stack_region, s4) \<Rightarrow>
                    Inr (Some (Proc i), kirq_restore flags
                      (upd_lists (list_add (Ptr (VmNode stack_region)) (Ptr (VmList i))) s4)))"

text \<open>The walk of \<^verbatim>\<open>find_stack\<close> along the region list; it does not end on a list that is not a ring
  and holds no stack, so it is a partial function.\<close>

partial_function (option) find_stack_loop ::
  "kobj lptr \<Rightarrow> kobj lptr \<Rightarrow> kstate \<Rightarrow> (virt_addr kres) option" where
  "find_stack_loop pos head s =
     (if pos = head then Some (Inl (Panic ''find_stack: process has no stack region''))
      else case pos of
             Ptr (VmNode r) \<Rightarrow>
               if vr_type (regions s r) = STACK then Some (Inr r)
               else find_stack_loop (lnext (lists s) pos) head s
           | _ \<Rightarrow> None)"

definition find_stack :: "nat \<Rightarrow> kstate \<Rightarrow> (virt_addr kres) option" where
  "find_stack i s = find_stack_loop (lnext (lists s) (Ptr (VmList i))) (Ptr (VmList i)) s"

section \<open>fork\<close>

text \<open>\<^verbatim>\<open>memcpy\<close> of \<open>n\<close> words, ascending.\<close>

primrec memcpy_words :: "nat \<Rightarrow> virt_addr \<Rightarrow> virt_addr \<Rightarrow> mm \<Rightarrow> mm" where
  "memcpy_words 0 dst src m = m"
| "memcpy_words (Suc n) dst src m =
     (let m' = memcpy_words n dst src m
      in vstore (dst + 8 * of_nat n) (vload m' (src + 8 * of_nat n)) m')"

definition FORK_FRAME_FP_SLOT :: nat where "FORK_FRAME_FP_SLOT = 5"

text \<open>The loop that rebases the chain of saved frame pointers; None if the chain has a cycle.\<close>

partial_function (option) rebase_chain ::
  "virt_addr \<Rightarrow> virt_addr \<Rightarrow> virt_addr \<Rightarrow> u64 \<Rightarrow> mm \<Rightarrow> mm option" where
  "rebase_chain slot frame stop delta m =
     (if frame \<le> vload m slot \<and> vload m slot < stop then
        let m' = vstore slot (vload m slot + delta) m
        in rebase_chain (vload m' slot) frame stop delta m'
      else Some m)"

definition clone_stack_rebased :: "nat \<Rightarrow> virt_addr \<Rightarrow> kstate \<Rightarrow> (kstate kres) option" where
  "clone_stack_rebased child frame s =
     (let (me, s1) = myproc s
      in case (case me of Proc i \<Rightarrow> find_stack i s1 | Bootstrap \<Rightarrow> None) of
           None \<Rightarrow> None
         | Some (Inl e) \<Rightarrow> Some (Inl e)
         | Some (Inr pr) \<Rightarrow>
             (case find_stack child s1 of
                None \<Rightarrow> None
              | Some (Inl e) \<Rightarrow> Some (Inl e)
              | Some (Inr cr) \<Rightarrow>
                  let parent_stack_top = vr_end (regions s1 pr);
                      child_stack_top = vr_end (regions s1 cr);
                      delta = child_stack_top - parent_stack_top;
                      child_frame = frame + delta;
                      m1 = memcpy_words (unat (parent_stack_top - frame) div 8) child_frame frame (kmm s1);
                      slot = child_frame + 8 * of_nat FORK_FRAME_FP_SLOT
                  in map_option
                       (\<lambda>m2. Inr (upd_proc (Proc child) (\<lambda>q. q\<lparr>context_sp := child_frame\<rparr>) (s1\<lparr>kmm := m2\<rparr>)))
                       (rebase_chain slot frame parent_stack_top delta m1)))"

text \<open>\<^verbatim>\<open>clone_parent_base_frame\<close>, entered by a call (the return address into \<^verbatim>\<open>fork\<close> is on the stack), up to
  its return in the parent.\<close>

definition clone_parent_base_frame :: "nat \<Rightarrow> kstate \<Rightarrow> (kstate kres) option" where
  "clone_parent_base_frame child s =
     (let s1 = push_callee (push (child_resume_addr s) s);
          frame = rsp (kregs s1)
      in map_option (map_sum id (\<lambda>s2.
           let s3 = pop_callee s2
           in ret (s3\<lparr>kregs := (kregs s3)\<lparr>rsp := rsp (kregs s3) + 8\<rparr>\<rparr>)))
           (clone_stack_rebased child frame s1))"

end
