(* ===== verification/Process_Props.thy ===== *)
theory Process_Props
  imports Process
begin

text \<open>
  The context switch.  A frame is what \<^verbatim>\<open>swtch\<close> leaves on a stack: the six callee-saved registers below the
  return address.  The lemmas show that saving pushes a frame, that loading pops it, and so that a
  process that is switched away from and back to goes on where it was, as long as its frame is left
  alone; and that a context that switches to itself does not.
\<close>

section \<open>Access to the direct map\<close>

definition in_direct :: "mm \<Rightarrow> virt_addr \<Rightarrow> bool" where
  "in_direct m v \<longleftrightarrow> v < kernel_virt_base m"

definition stack_room :: "mm \<Rightarrow> virt_addr \<Rightarrow> bool" where
  "stack_room m sp \<longleftrightarrow> list_all (in_direct m) [sp, sp - 8, sp - 16, sp - 24, sp - 32, sp - 40, sp - 48]"

lemma in_direct_vstore [simp]: "in_direct (vstore v x m) w = in_direct m w"
  by (simp add: in_direct_def vstore_def)

lemma vload_vstore_direct:
  "in_direct m v \<Longrightarrow> in_direct m w \<Longrightarrow> vload (vstore v x m) w = (if w = v then x else vload m w)"
  by (auto simp: in_direct_def vload_def vstore_def virt_to_phys_def)

section \<open>Frames\<close>

record frame =
  f_rbp :: u64
  f_rbx :: u64
  f_r12 :: u64
  f_r13 :: u64
  f_r14 :: u64
  f_r15 :: u64
  f_ret :: u64

text \<open>The frame whose lowest word is at \<open>sp\<close>, and the one that the registers and the return address on top of the
  stack make.\<close>

definition frame_at :: "mm \<Rightarrow> virt_addr \<Rightarrow> frame" where
  "frame_at m sp = \<lparr>f_rbp = vload m (sp + 40), f_rbx = vload m (sp + 32), f_r12 = vload m (sp + 24),
     f_r13 = vload m (sp + 16), f_r14 = vload m (sp + 8), f_r15 = vload m sp, f_ret = vload m (sp + 48)\<rparr>"

definition live_frame :: "kstate \<Rightarrow> frame" where
  "live_frame s = (let r = kregs s in \<lparr>f_rbp = rbp r, f_rbx = rbx r, f_r12 = r12 r, f_r13 = r13 r, f_r14 = r14 r,
     f_r15 = r15 r, f_ret = vload (kmm s) (rsp r)\<rparr>)"

definition resumed :: "kstate \<Rightarrow> frame" where
  "resumed s = (let r = kregs s in \<lparr>f_rbp = rbp r, f_rbx = rbx r, f_r12 = r12 r, f_r13 = r13 r, f_r14 = r14 r,
     f_r15 = r15 r, f_ret = rip r\<rparr>)"

lemma push_callee_regs: "rsp (kregs (push_callee s)) = rsp (kregs s) - 48"
  by (simp add: push_callee_def push_def Let_def)

lemma push_callee_load:
  assumes "stack_room (kmm s) (rsp (kregs s))" "in_direct (kmm s) w"
    and "w \<notin> set [rsp (kregs s) - 8, rsp (kregs s) - 16, rsp (kregs s) - 24, rsp (kregs s) - 32, rsp (kregs s) - 40,
      rsp (kregs s) - 48]"
  shows "vload (kmm (push_callee s)) w = vload (kmm s) w"
  using assms by (simp add: push_callee_def push_def Let_def stack_room_def vload_vstore_direct)

lemma push_callee_frame:
  assumes "stack_room (kmm s) (rsp (kregs s))"
  shows "frame_at (kmm (push_callee s)) (rsp (kregs s) - 48) = live_frame s"
  using assms by (simp add: frame_at_def live_frame_def push_callee_def push_def Let_def stack_room_def vload_vstore_direct)

lemma push_callee_windows: "in_direct (kmm (push_callee s)) v = in_direct (kmm s) v"
  by (simp add: push_callee_def push_def Let_def)

lemma pop_callee_frame:
  "resumed (ret (pop_callee s)) = frame_at (kmm s) (rsp (kregs s))"
  "rsp (kregs (ret (pop_callee s))) = rsp (kregs s) + 56"
  "kmm (ret (pop_callee s)) = kmm s"
  by (simp_all add: ret_def pop_callee_def pop_def Let_def resumed_def frame_at_def add.assoc)

text \<open>What \<^verbatim>\<open>swtch\<close> does in terms of frames.\<close>

definition valid_ref :: "kstate \<Rightarrow> procref \<Rightarrow> bool" where
  "valid_ref s p \<longleftrightarrow> (case p of Proc i \<Rightarrow> i < length (processes s) | Bootstrap \<Rightarrow> True)"

lemma push_callee_procs [simp]:
  "processes (push_callee s) = processes s" "bootstrap_proc (push_callee s) = bootstrap_proc s"
  by (simp_all add: push_callee_def push_def Let_def)

lemma upd_proc_simps [simp]:
  "kmm (upd_proc p f s) = kmm s" "kregs (upd_proc p f s) = kregs s"
  "valid_ref s p \<Longrightarrow> get_proc (upd_proc p f s) p = f (get_proc s p)"
  by (auto simp: upd_proc_def get_proc_def valid_ref_def split: procref.split)

lemma procs_after_load [simp]:
  "processes (ret (pop_callee s)) = processes s" "bootstrap_proc (ret (pop_callee s)) = bootstrap_proc s"
  by (simp_all add: ret_def pop_callee_def pop_def Let_def)

lemma get_proc_cong: "processes s = processes t \<Longrightarrow> bootstrap_proc s = bootstrap_proc t \<Longrightarrow> get_proc s p = get_proc t p"
  by (simp add: get_proc_def split: procref.split)

lemma vload_write_cr3 [simp]: "vload (write_cr3 c m) v = vload m v" "in_direct (write_cr3 c m) v = in_direct m v"
  by (simp_all add: write_cr3_def vload_def virt_to_phys_def in_direct_def)

lemma frame_at_write_cr3 [simp]: "frame_at (write_cr3 c m) sp = frame_at m sp"
  by (simp add: frame_at_def)

lemma swtch_frames:
  "resumed (swtch old sp c s) = frame_at (kmm (push_callee s)) sp"
  "rsp (kregs (swtch old sp c s)) = sp + 56"
  "vload (kmm (swtch old sp c s)) v = vload (kmm (push_callee s)) v"
  "valid_ref s old \<Longrightarrow> context_sp (get_proc (swtch old sp c s) old) = rsp (kregs s) - 48"
proof -
  show "resumed (swtch old sp c s) = frame_at (kmm (push_callee s)) sp" "rsp (kregs (swtch old sp c s)) = sp + 56"
    "vload (kmm (swtch old sp c s)) v = vload (kmm (push_callee s)) v"
    by (simp_all add: swtch_def Let_def pop_callee_frame)
  assume "valid_ref s old"
  then have v: "valid_ref (push_callee s) old" by (cases old) (simp_all add: valid_ref_def)
  define s2 where "s2 = upd_proc old (\<lambda>q. q\<lparr>context_sp := rsp (kregs s) - 48\<rparr>) (push_callee s)"
  have "get_proc (swtch old sp c s) old = get_proc s2 old"
    by (rule get_proc_cong) (simp_all add: swtch_def Let_def s2_def push_callee_regs)
  also have "context_sp \<dots> = rsp (kregs s) - 48"
    using v by (simp add: s2_def)
  finally show "context_sp (get_proc (swtch old sp c s) old) = rsp (kregs s) - 48" .
qed

text \<open>The words of a frame are left alone.\<close>

definition frame_words :: "virt_addr \<Rightarrow> virt_addr list" where
  "frame_words sp = [sp, sp - 8, sp - 16, sp - 24, sp - 32, sp - 40, sp - 48]"

lemma frame_at_cong:
  "\<forall>w\<in>set (frame_words sp). vload m w = vload m' w \<Longrightarrow> frame_at m (sp - 48) = frame_at m' (sp - 48)"
  by (simp add: frame_at_def frame_words_def)

section \<open>Properties\<close>

text \<open>C7: a process that is switched away from and back to goes on where it was.  Let \<^verbatim>\<open>swtch\<close> save a process, and
  let anything happen that leaves the saved stack pointer and the seven words of its frame alone.  A
  later \<^verbatim>\<open>swtch\<close> to it, from another stack, restores its callee-saved registers, its stack pointer and
  continues at its return address, in the address space asked for.\<close>

theorem context_switch_roundtrip:
  assumes "stack_room (kmm s) (rsp (kregs s))" and "valid_ref s old"
    and "s1 = swtch old nsp nc s"
    and "context_sp (get_proc s2 old) = context_sp (get_proc s1 old)"
    and "\<forall>w\<in>set (frame_words (rsp (kregs s))). vload (kmm s2) w = vload (kmm s1) w \<and> in_direct (kmm s2) w"
    and "stack_room (kmm s2) (rsp (kregs s2))"
    and "set (frame_words (rsp (kregs s))) \<inter> set (tl (frame_words (rsp (kregs s2)))) = {}"
    and "s3 = swtch other (context_sp (get_proc s2 old)) c s2"
  shows "resumed s3 = live_frame s \<and> rsp (kregs s3) = rsp (kregs s) + 8 \<and> reg_cr3 (kmm s3) = c"
proof -
  let ?sp = "rsp (kregs s)"
  have sp: "context_sp (get_proc s2 old) = ?sp - 48"
    using assms(4) swtch_frames(4) [OF assms(2)] assms(3) by simp
  have "vload (kmm (push_callee s2)) w = vload (kmm (push_callee s)) w" if w: "w \<in> set (frame_words ?sp)" for w
  proof -
    have "w \<notin> set (tl (frame_words (rsp (kregs s2))))" using w assms(7) by blast
    then have "vload (kmm (push_callee s2)) w = vload (kmm s2) w"
      using assms(5) w by (intro push_callee_load [OF assms(6)]) (auto simp: frame_words_def)
    then show ?thesis
      using assms(5) w by (simp add: assms(3) swtch_frames(3))
  qed
  then have "resumed s3 = live_frame s"
    unfolding assms(8) sp swtch_frames(1) push_callee_frame [OF assms(1), symmetric]
    by (intro frame_at_cong) blast
  moreover have "rsp (kregs s3) = ?sp + 8"
    unfolding assms(8) sp swtch_frames(2) by simp
  moreover have "reg_cr3 (kmm s3) = c"
    by (simp add: assms(8) swtch_def Let_def pop_callee_frame write_cr3_def)
  ultimately show ?thesis by blast
qed

definition demo_state :: kstate where
  "demo_state = \<lparr>
     kmm = \<lparr>placement_address = 0, hhdm_offset = 0, kernel_phys_base = 0, kernel_virt_base = 0x100000,
       pmem = (\<lambda>_. 0)(0x8000 := 0x77, 0x9000 := 0x88), reg_cr3 = 0, reg_cr4 = 0, tlb = {}\<rparr>,
     kregs = \<lparr>rsp = 0x8000, rbp = 1, rbx = 2, r12 = 3, r13 = 4, r14 = 5, r15 = 6, rip = 0, rflags = 0\<rparr>,
     processes = [empty_process, empty_process\<lparr>context_sp := 0x8FD0\<rparr>], bootstrap_proc = empty_process, glbl_pid = 0,
     lists = \<lparr>lnext = \<lambda>_. NULL, lprev = \<lambda>_. NULL\<rparr>,
     regions = \<lambda>_. \<lparr>vr_flags = 0, vr_type = STACK, vr_start = 0, vr_end = 0\<rparr>, task = Proc 0, scheduler_proc = None,
     mlfq_lock = False, tick_count = 0, forkret_addr = 0, child_resume_addr = 0\<rparr>"

theorem context_switch_roundtrip_witness:
  "let s1 = swtch (Proc 0) 0x8FD0 0x2000 demo_state; s3 = swtch (Proc 1) (context_sp (get_proc s1 (Proc 0))) 0x1000 s1
   in rip (kregs s1) = 0x88 \<and> resumed s3 = live_frame demo_state \<and> rsp (kregs s3) = 0x8008 \<and> reg_cr3 (kmm s3) = 0x1000"
proof -
  define s1 where "s1 = swtch (Proc 0) 0x8FD0 0x2000 demo_state"
  define s3 where "s3 = swtch (Proc 1) (context_sp (get_proc s1 (Proc 0))) 0x1000 s1"
  have d: "rsp (kregs demo_state) = 0x8000" "kernel_virt_base (kmm demo_state) = 0x100000" "valid_ref demo_state (Proc 0)"
    by (simp_all add: demo_state_def valid_ref_def)
  have room: "stack_room (kmm demo_state) (rsp (kregs demo_state))"
    unfolding d(1) by (simp add: stack_room_def in_direct_def d)
  have "kernel_virt_base (kmm s1) = 0x100000"
    by (simp add: s1_def swtch_def Let_def pop_callee_frame write_cr3_def push_callee_def push_def vstore_def d)
  then have dir: "in_direct (kmm s1) w \<longleftrightarrow> w < 0x100000" for w
    by (simp add: in_direct_def)
  have sp1: "rsp (kregs s1) = 0x9008" by (simp add: s1_def swtch_frames)
  have "resumed s3 = live_frame demo_state \<and> rsp (kregs s3) = rsp (kregs demo_state) + 8 \<and> reg_cr3 (kmm s3) = 0x1000"
    by (rule context_switch_roundtrip [OF room d(3) s1_def refl _ _ _ s3_def])
      (simp_all add: d sp1 dir frame_words_def stack_room_def)
  moreover have "f_ret (resumed s1) = 0x88"
  proof -
    have "vload (kmm (push_callee demo_state)) 0x9000 = vload (kmm demo_state) 0x9000"
      by (rule push_callee_load [OF room]) (simp_all add: d in_direct_def)
    also have "\<dots> = 0x88" by (simp add: demo_state_def vload_def virt_to_phys_def)
    finally show ?thesis unfolding s1_def swtch_frames(1) frame_at_def by simp
  qed
  ultimately show ?thesis
    unfolding Let_def s1_def [symmetric] s3_def [symmetric] d(1) by (simp add: resumed_def Let_def)
qed

text \<open>C39: a context that switches to itself does not go on where it was.  The stack pointer handed to \<^verbatim>\<open>swtch\<close> is read
  before the new one is saved, so the CPU continues from the frame of the previous switch.  The timer
  handler does this when it interrupts the scheduler, which runs with interrupts on.\<close>

theorem ctx_switch_to_self:
  assumes "task s = p" and "valid_ref s p" and "(fl, s') = ctx_switch ra p s"
  shows "rsp (kregs s') = context_sp (get_proc s p) + 56 \<and>
    context_sp (get_proc s' p) = rsp (kregs s) - 56"
proof -
  define t where "t = push ra ((snd (myproc (snd (kirq_save s))))\<lparr>task := p\<rparr>)"
  have t: "rsp (kregs t) = rsp (kregs s) - 8" "processes t = processes s" "bootstrap_proc t = bootstrap_proc s"
    by (simp_all add: t_def push_def myproc_def kirq_save_def kirq_restore_def Let_def split: prod.split)
  have s': "s' = swtch p (context_sp (get_proc s p)) (pml4_addr (get_proc s p)) t"
    using assms(1,3) by (auto simp: ctx_switch_def t_def Let_def myproc_def kirq_save_def kirq_restore_def get_proc_def
        split: prod.splits procref.splits)
  have v: "valid_ref t p" using assms(2) by (cases p) (simp_all add: valid_ref_def t)
  show ?thesis
    unfolding s' swtch_frames(2) swtch_frames(4) [OF v] t by simp
qed

theorem ctx_switch_to_self_witness:
  "rsp (kregs (snd (ctx_switch 0x55 (Proc 1) (demo_state\<lparr>task := Proc 1\<rparr>)))) = 0x9008 \<and>
   context_sp (get_proc (snd (ctx_switch 0x55 (Proc 1) (demo_state\<lparr>task := Proc 1\<rparr>))) (Proc 1)) = 0x7FC8"
  using ctx_switch_to_self [of "demo_state\<lparr>task := Proc 1\<rparr>" "Proc 1"
      "fst (ctx_switch 0x55 (Proc 1) (demo_state\<lparr>task := Proc 1\<rparr>))"
      "snd (ctx_switch 0x55 (Proc 1) (demo_state\<lparr>task := Proc 1\<rparr>))" "0x55"]
  by (simp add: valid_ref_def demo_state_def get_proc_def)

end
