(* ===== verification/Scheduler.thy ===== *)
theory Scheduler
  imports Process
begin

text \<open>
  The multilevel feedback queue, \<^verbatim>\<open>kernel/scheduler/scheduler.c\<close>, the fork that feeds it
  (\<^verbatim>\<open>kernel/scheduler/process.c\<close>) and the timer handler that preempts (\<^verbatim>\<open>kernel/time.c\<close>).

  The loop of \<^verbatim>\<open>scheduler()\<close> is split where it switches to a process: \<open>scheduler_pick\<close> is one pass up to
  the switch, \<open>scheduler_back\<close> what follows when the process hands the CPU back.  Its local variables
  \<^verbatim>\<open>p\<close> and \<^verbatim>\<open>level\<close>, which live on the scheduler's stack across the switch, are passed between the two.
\<close>

section \<open>Operations\<close>

definition NUM_PRIORITY_LEVELS :: int where "NUM_PRIORITY_LEVELS = 3"

definition init_levels :: "kobj list_head \<Rightarrow> kobj list_head" where
  "init_levels h = fold (\<lambda>i. INIT_LIST_HEAD (Ptr (Mlfq i))) [0..<nat NUM_PRIORITY_LEVELS] h"

definition init_scheduler :: "kstate \<Rightarrow> kstate" where
  "init_scheduler s =
     (let s1 = upd_lists (INIT_LIST_HEAD (Ptr ReadyQ)) s
      in (upd_lists init_levels s1)\<lparr>mlfq_lock := False\<rparr>)"

definition klock :: "kstate \<Rightarrow> kstate kres" where
  "klock s = (case spinlock (mlfq_lock s) of None \<Rightarrow> Inl Deadlock | Some l \<Rightarrow> Inr (s\<lparr>mlfq_lock := l\<rparr>))"

definition krelease :: "kstate \<Rightarrow> kstate" where
  "krelease s = s\<lparr>mlfq_lock := release (mlfq_lock s)\<rparr>"

definition sched_enqueue :: "nat \<Rightarrow> int \<Rightarrow> kstate \<Rightarrow> kstate kres" where
  "sched_enqueue p level s =
     (if level < 0 \<or> NUM_PRIORITY_LEVELS \<le> level then Inl (Panic ''sched_enqueue: priority level out of range'')
      else let (flags, s1) = kirq_save s
           in case klock s1 of Inl e \<Rightarrow> Inl e
              | Inr s2 \<Rightarrow>
                  let s3 = upd_lists (list_add_tail (Ptr (Sched p)) (Ptr (Mlfq (nat level)))) s2
                  in Inr (kirq_restore flags (krelease s3)))"

definition demote :: "int \<Rightarrow> int" where
  "demote level = (if level + 1 < NUM_PRIORITY_LEVELS then level + 1 else level)"

text \<open>The search loop of \<^verbatim>\<open>scheduler\<close>: the first entry of the first level that is not empty, taken off its
  list, with its level.  An entry that is not a process would be a corrupted queue.\<close>

fun claim_first :: "nat list \<Rightarrow> kobj list_head \<Rightarrow> (kobj lptr \<times> nat) option \<times> kobj list_head" where
  "claim_first [] h = (None, h)"
| "claim_first (i # is) h =
     (if list_empty_careful (Ptr (Mlfq i)) h then claim_first is h
      else let p = list_first_entry (Ptr (Mlfq i)) h
           in (Some (p, i), list_del_init_careful p h))"

datatype picked = Idle | Picked nat int

definition scheduler_pick :: "u64 \<Rightarrow> kstate \<Rightarrow> (picked \<times> kstate) kres" where
  "scheduler_pick ret_addr s =
     (let s0 = s\<lparr>kregs := (kregs s)\<lparr>rflags := sti (rflags (kregs s))\<rparr>\<rparr>;
          (flags, s1) = kirq_save s0
      in case klock s1 of Inl e \<Rightarrow> Inl e
         | Inr s2 \<Rightarrow>
             let (found, h) = claim_first [0..<nat NUM_PRIORITY_LEVELS] (lists s2);
                 s3 = kirq_restore flags (krelease (s2\<lparr>lists := h\<rparr>))
             in case found of
                  Some (Ptr (Sched i), l) \<Rightarrow>
                    let s4 = upd_proc (Proc i) (\<lambda>q. q\<lparr>pstate := RUNNING\<rparr>) s3
                    in Inr (Picked i (int l), snd (ctx_switch ret_addr (Proc i) s4))
                | _ \<Rightarrow> Inr (Idle, s3))"

text \<open>\<open>flags\<close> is the local of \<^verbatim>\<open>ctx_switch\<close> in the scheduler's context.\<close>

definition scheduler_back :: "u64 \<Rightarrow> nat \<Rightarrow> int \<Rightarrow> kstate \<Rightarrow> kstate kres" where
  "scheduler_back flags i level s =
     (let s1 = kirq_restore flags s
      in if pstate (processes s1 ! i) = ZOMBIE then Inr s1
         else sched_enqueue i (demote level) s1)"

definition yield :: "u64 \<Rightarrow> kstate \<Rightarrow> (u64 \<times> kstate) kres" where
  "yield ret_addr s =
     (let (p, s1) = myproc s
      in case scheduler_proc s1 of
           None \<Rightarrow> Inl (Panic ''yield: no scheduler process to yield to'')
         | Some sched_p \<Rightarrow>
             Inr (ctx_switch ret_addr sched_p (upd_proc p (\<lambda>q. q\<lparr>pstate := READY\<rparr>) s1)))"

definition exit_process :: "u64 \<Rightarrow> kstate \<Rightarrow> (u64 \<times> kstate) kres" where
  "exit_process ret_addr s =
     (let (p, s1) = myproc s;
          s2 = upd_proc p (\<lambda>q. q\<lparr>pstate := ZOMBIE\<rparr>) s1
      in case scheduler_proc s2 of
           None \<Rightarrow> Inl NullDeref
         | Some sched_p \<Rightarrow> Inr (ctx_switch ret_addr sched_p s2))"

text \<open>\<^verbatim>\<open>fork\<close> as the parent runs it.  The child returns 0 from the same call when it is first switched
  to.\<close>

definition fork :: "string \<Rightarrow> int \<Rightarrow> u64 \<Rightarrow> kstate \<Rightarrow> ((int \<times> kstate) kres) option" where
  "fork name level ret_addr s =
     (let (flags, s1) = kirq_save s;
          (me, s2) = myproc s1
      in case alloc_process_no_entry name s2 of
           Inl e \<Rightarrow> Some (Inl e)
         | Inr (None, s3) \<Rightarrow> Some (Inr (-1, kirq_restore flags s3))
         | Inr (Some Bootstrap, s3) \<Rightarrow> None
         | Inr (Some (Proc c), s3) \<Rightarrow>
             let s4 = upd_proc (Proc c) (\<lambda>q. q\<lparr>parent := Some me\<rparr>) s3
             in case clone_parent_base_frame c (push ret_addr s4) of
                  None \<Rightarrow> None
                | Some (Inl e) \<Rightarrow> Some (Inl e)
                | Some (Inr s5) \<Rightarrow>
                    (case sched_enqueue c level s5 of
                       Inl e \<Rightarrow> Some (Inl e)
                     | Inr s6 \<Rightarrow>
                         Some (Inr (uint (pid (processes s6 ! c)), kirq_restore flags s6))))"

section \<open>Timer\<close>

definition timer_ticks :: "kstate \<Rightarrow> u32" where "timer_ticks s = tick_count s"

definition get_uptime_ms :: "kstate \<Rightarrow> u32" where "get_uptime_ms s = tick_count s"

text \<open>The handlers, without the write of the end-of-interrupt register.\<close>

definition timer_interrupt_handler :: "kstate \<Rightarrow> kstate" where
  "timer_interrupt_handler s = s\<lparr>tick_count := tick_count s + 1\<rparr>"

definition timer_interrupt_handler_sched :: "u64 \<Rightarrow> kstate \<Rightarrow> (u64 \<times> kstate) kres" where
  "timer_interrupt_handler_sched ret_addr s =
     (let s1 = s\<lparr>tick_count := tick_count s + 1\<rparr>
      in case scheduler_proc s1 of
           None \<Rightarrow> Inl NullDeref
         | Some sched_p \<Rightarrow> Inr (ctx_switch ret_addr sched_p s1))"

text \<open>The condition under which the loop of \<^verbatim>\<open>sleep_ms\<close> goes on.\<close>

definition sleep_waits :: "u32 \<Rightarrow> u32 \<Rightarrow> u32 \<Rightarrow> bool" where
  "sleep_waits start ms now \<longleftrightarrow> now - start < ms"

section \<open>Bringing up the first processes\<close>

text \<open>\<^verbatim>\<open>init_process\<close>, up to the switch to the new process; \<open>init_fn\<close> is the address of \<^verbatim>\<open>init\<close>.\<close>

definition init_process :: "u64 \<Rightarrow> u64 \<Rightarrow> kstate \<Rightarrow> kstate kres" where
  "init_process init_fn ret_addr s =
     (case alloc_process ''init'' init_fn s of
        Inl e \<Rightarrow> Inl e
      | Inr (Some (Proc i), s1) \<Rightarrow>
          let m = kmm s1;
              bootstrap = phys_to_virt m (PAGE_GET_ADDR (read_cr3 m));
              (pgtable, p1) = kmalloc_a 4096 (placement_address m);
              m1 = memcpy_words 512 pgtable bootstrap (m\<lparr>placement_address := p1\<rparr>);
              s2 = upd_proc (Proc i) (\<lambda>q. q\<lparr>pml4_addr := virt_to_phys m1 pgtable\<rparr>) (s1\<lparr>kmm := m1\<rparr>)
          in (case sched_enqueue i (NUM_PRIORITY_LEVELS - 1) s2 of
                Inl e \<Rightarrow> Inl e
              | Inr s3 \<Rightarrow>
                  let s4 = upd_proc (Proc i) (\<lambda>q. q\<lparr>pstate := RUNNING\<rparr>) (s3\<lparr>task := Bootstrap\<rparr>)
                  in Inr (snd (ctx_switch ret_addr (Proc i) s4)))
      | Inr (_, s1) \<Rightarrow> Inl (Panic ''could not allocate init process''))"

text \<open>The set-up part of \<^verbatim>\<open>init\<close>, as the init process runs it: the two test processes are forked, the
  scheduler process is made and the CPU is handed to it.  \<open>sched_fn\<close> is the address of \<^verbatim>\<open>scheduler\<close>.\<close>

definition init_setup :: "u64 \<Rightarrow> u64 \<Rightarrow> kstate \<Rightarrow> (kstate kres) option" where
  "init_setup sched_fn ret_addr s =
     (case fork ''A'' 0 ret_addr s of
        None \<Rightarrow> None
      | Some (Inl e) \<Rightarrow> Some (Inl e)
      | Some (Inr (a, s1)) \<Rightarrow>
          (case fork ''B'' 1 ret_addr s1 of
             None \<Rightarrow> None
           | Some (Inl e) \<Rightarrow> Some (Inl e)
           | Some (Inr (b, s2)) \<Rightarrow>
               if a < 0 \<or> b < 0 then Some (Inl (Panic ''init: could not fork the A/B test processes''))
               else (case alloc_process ''scheduler'' sched_fn s2 of
                       Inl e \<Rightarrow> Some (Inl e)
                     | Inr (None, s3) \<Rightarrow> Some (Inl (Panic ''init: could not allocate the scheduler process''))
                     | Inr (Some sched_p, s3) \<Rightarrow>
                         Some (Inr (snd (ctx_switch ret_addr sched_p (s3\<lparr>scheduler_proc := Some sched_p\<rparr>)))))))"

end
