(* ===== verification/Queues.thy ===== *)
theory Queues
  imports Prelude
begin

text \<open>
  The interface between the scheduler and its queues: a family of first-in first-out queues over one
  state, as abstract operations with their laws, and what a client that serves the queues by priority
  obtains from the laws alone.
\<close>

text \<open>Serve the levels in the order given: the front of the first queue that is not empty is removed.\<close>

fun claim_by :: "(nat \<Rightarrow> 's \<Rightarrow> bool) \<Rightarrow> (nat \<Rightarrow> 's \<Rightarrow> 'a) \<Rightarrow> ('a \<Rightarrow> 's \<Rightarrow> 's) \<Rightarrow> nat list \<Rightarrow> 's \<Rightarrow>
    ('a \<times> nat) option \<times> 's" where
  "claim_by is_empty front remove [] s = (None, s)"
| "claim_by is_empty front remove (i # is) s =
     (if is_empty i s then claim_by is_empty front remove is s
      else (Some (front i s, i), remove (front i s) s))"

text \<open>The level that is served: the first non-empty one.\<close>

fun first_level :: "(nat \<Rightarrow> 'a list) \<Rightarrow> nat list \<Rightarrow> nat option" where
  "first_level Q [] = None"
| "first_level Q (i # is) = (if Q i = [] then first_level Q is else Some i)"

lemma first_level_Some:
  "first_level Q is = Some i \<Longrightarrow> i \<in> set is \<and> Q i \<noteq> []"
  by (induction "is") (auto split: if_splits)

lemma first_level_None: "first_level Q is = None \<longleftrightarrow> (\<forall>i \<in> set is. Q i = [])"
  by (induction "is") auto

lemma first_level_upt:
  "first_level Q [0..<n] = Some i \<longleftrightarrow> i < n \<and> Q i \<noteq> [] \<and> (\<forall>j<i. Q j = [])"
proof -
  have "first_level Q [k..<n] = Some i \<longleftrightarrow> k \<le> i \<and> i < n \<and> Q i \<noteq> [] \<and> (\<forall>j. k \<le> j \<longrightarrow> j < i \<longrightarrow> Q j = [])" for k
  proof (induction "n - k" arbitrary: k)
    case (Suc m)
    then have "[k..<n] = k # [Suc k..<n]" by (simp add: upt_conv_Cons)
    then show ?case
      using Suc(1) [of "Suc k"] Suc(2)
      by (auto simp: Suc_le_eq le_neq_implies_less) (metis le_neq_implies_less)+
  qed simp
  from this [of 0] show ?thesis by simp
qed

locale queue_family =
  fixes rep :: "'s \<Rightarrow> (nat \<Rightarrow> 'a list) \<Rightarrow> bool"
    and is_empty :: "nat \<Rightarrow> 's \<Rightarrow> bool"
    and front :: "nat \<Rightarrow> 's \<Rightarrow> 'a"
    and remove :: "'a \<Rightarrow> 's \<Rightarrow> 's"
    and push :: "nat \<Rightarrow> 'a \<Rightarrow> 's \<Rightarrow> 's"
    and levels :: nat
    and item :: "'a \<Rightarrow> bool"
  assumes rep_distinct: "rep s Q \<Longrightarrow> distinct (concat (map Q [0..<levels]))"
    and rep_items: "rep s Q \<Longrightarrow> i < levels \<Longrightarrow> x \<in> set (Q i) \<Longrightarrow> item x"
    and is_empty_rep: "rep s Q \<Longrightarrow> i < levels \<Longrightarrow> is_empty i s \<longleftrightarrow> Q i = []"
    and front_rep: "rep s Q \<Longrightarrow> i < levels \<Longrightarrow> Q i = x # xs \<Longrightarrow> front i s = x"
    and remove_rep: "rep s Q \<Longrightarrow> i < levels \<Longrightarrow> Q i = x # xs \<Longrightarrow> rep (remove x s) (Q(i := xs))"
    and push_rep: "rep s Q \<Longrightarrow> i < levels \<Longrightarrow> item x \<Longrightarrow> (\<And>j. j < levels \<Longrightarrow> x \<notin> set (Q j)) \<Longrightarrow>
      rep (push i x s) (Q(i := Q i @ [x]))"
begin

lemma claim_by_rep:
  assumes "rep s Q" "\<And>i. i \<in> set is \<Longrightarrow> i < levels"
  shows "claim_by is_empty front remove is s =
    (case first_level Q is of None \<Rightarrow> (None, s)
     | Some i \<Rightarrow> (Some (hd (Q i), i), remove (hd (Q i)) s))"
  using assms(2)
proof (induction "is")
  case (Cons i "is")
  show ?case
  proof (cases "Q i")
    case Nil
    then show ?thesis using Cons is_empty_rep [OF assms(1), of i] by simp
  next
    case (Cons x xs)
    then show ?thesis
      using Cons.prems is_empty_rep [OF assms(1), of i] front_rep [OF assms(1), of i x xs] by simp
  qed
qed simp

text \<open>Highest priority first, oldest first; the queues lose exactly the served item.\<close>

lemma claim_rep:
  assumes "rep s Q" "claim_by is_empty front remove [0..<levels] s = (Some (x, i), s')"
  shows "i < levels" "\<forall>j<i. Q j = []" "Q i = x # tl (Q i)" "rep s' (Q(i := tl (Q i)))"
proof -
  have f: "first_level Q [0..<levels] = Some i" and x: "x = hd (Q i)" and s': "s' = remove x s"
    using claim_by_rep [OF assms(1), of "[0..<levels]"] assms(2) by (auto split: option.splits)
  show i: "i < levels" "\<forall>j<i. Q j = []" using f by (auto simp: first_level_upt)
  show q: "Q i = x # tl (Q i)" using f x by (simp add: first_level_upt)
  show "rep s' (Q(i := tl (Q i)))"
    unfolding s' using remove_rep [OF assms(1) i(1) q] .
qed

lemma claim_none:
  assumes "rep s Q" "claim_by is_empty front remove [0..<levels] s = (None, s')"
  shows "s' = s" "\<And>i. i < levels \<Longrightarrow> Q i = []"
proof -
  have f: "first_level Q [0..<levels] = None" and "s' = s"
    using claim_by_rep [OF assms(1), of "[0..<levels]"] assms(2) by (auto split: option.splits)
  then show "s' = s" "\<And>i. i < levels \<Longrightarrow> Q i = []" by (auto simp: first_level_None)
qed

lemma claim_none_iff:
  assumes "rep s Q"
  shows "fst (claim_by is_empty front remove [0..<levels] s) = None \<longleftrightarrow> (\<forall>i<levels. Q i = [])"
proof (cases "first_level Q [0..<levels]")
  case None
  then show ?thesis
    using claim_by_rep [OF assms, of "[0..<levels]"] first_level_None [of Q "[0..<levels]"] by auto
next
  case (Some i)
  then show ?thesis
    using claim_by_rep [OF assms, of "[0..<levels]"] first_level_upt [of Q levels i] by auto
qed

lemma rep_disjoint:
  assumes "rep s Q" "i < levels" "j < levels" "i \<noteq> j"
  shows "set (Q i) \<inter> set (Q j) = {}"
proof -
  have "distinct (concat (map Q ns)) \<Longrightarrow> distinct ns \<Longrightarrow> i \<in> set ns \<Longrightarrow> j \<in> set ns \<Longrightarrow> i \<noteq> j \<Longrightarrow>
      set (Q i) \<inter> set (Q j) = {}" for ns
    by (induction ns) auto
  from this [OF rep_distinct [OF assms(1)]] show ?thesis using assms by auto
qed

text \<open>A served item that goes back on a queue was on no queue meanwhile.\<close>

lemma claimed_not_queued:
  assumes "rep s Q" "claim_by is_empty front remove [0..<levels] s = (Some (x, i), s')" "j < levels"
  shows "x \<notin> set ((Q(i := tl (Q i))) j)"
proof -
  note C = claim_rep [OF assms(1,2)]
  have "distinct (Q i)"
  proof -
    have "distinct (concat (map Q ns)) \<Longrightarrow> i \<in> set ns \<Longrightarrow> distinct (Q i)" for ns
      by (induction ns) auto
    from this [OF rep_distinct [OF assms(1)]] show ?thesis using C(1) by simp
  qed
  then show ?thesis
    using C rep_disjoint [OF assms(1) C(1) assms(3)]
    by (cases "j = i") (metis distinct.simps(2) fun_upd_same, metis IntI empty_iff fun_upd_other list.set_intros(1))
qed

end

end
