(* ===== verification/Scheduler_Proofs.thy ===== *)
theory Scheduler_Proofs
  imports Scheduler Queues
begin

text \<open>
  The scheduler's queues implement the queue interface, and the invariant of the scheduling steps:
  every runnable process is on exactly one queue or is the one that runs.
\<close>

section \<open>The multilevel feedback queue is a queue family\<close>

abbreviation snode :: "nat \<Rightarrow> kobj lptr" where "snode p \<equiv> Ptr (Sched p)"
abbreviation qhead :: "nat \<Rightarrow> kobj lptr" where "qhead i \<equiv> Ptr (Mlfq i)"

definition is_sched :: "kobj lptr \<Rightarrow> bool" where "is_sched x \<longleftrightarrow> (\<exists>p. x = snode p)"

definition mlfq_rep :: "kobj list_head \<Rightarrow> (nat \<Rightarrow> kobj lptr list) \<Rightarrow> bool" where
  "mlfq_rep h Q \<longleftrightarrow>
     (\<forall>i<3. dll h (qhead i) (Q i) \<and> (\<forall>x \<in> set (Q i). is_sched x)) \<and>
     distinct (Q 0 @ Q 1 @ Q 2)"

definition mlfq_empty :: "nat \<Rightarrow> kobj list_head \<Rightarrow> bool" where
  "mlfq_empty i h = list_empty_careful (qhead i) h"

definition mlfq_front :: "nat \<Rightarrow> kobj list_head \<Rightarrow> kobj lptr" where
  "mlfq_front i h = list_first_entry (qhead i) h"

definition mlfq_push :: "nat \<Rightarrow> kobj lptr \<Rightarrow> kobj list_head \<Rightarrow> kobj list_head" where
  "mlfq_push i x h = list_add_tail x (qhead i) h"

lemma upt_3: "[0..<3] = [0, 1, 2 :: nat]"
  by code_simp

lemma less_3: "i < (3::nat) \<longleftrightarrow> i = 0 \<or> i = 1 \<or> i = 2" by auto

lemma mlfq_rep_ring: "mlfq_rep h Q \<Longrightarrow> i < 3 \<Longrightarrow> dll h (qhead i) (Q i)"
  and mlfq_rep_item: "mlfq_rep h Q \<Longrightarrow> i < 3 \<Longrightarrow> x \<in> set (Q i) \<Longrightarrow> is_sched x"
  by (auto simp: mlfq_rep_def)

lemma mlfq_rep_disjoint:
  assumes "mlfq_rep h Q" "i < 3" "j < 3" "i \<noteq> j"
  shows "x \<in> set (Q i) \<Longrightarrow> x \<notin> set (Q j)"
proof -
  have "distinct (Q 0 @ Q 1 @ Q 2)" using assms(1) by (simp add: mlfq_rep_def)
  then show "x \<in> set (Q i) \<Longrightarrow> x \<notin> set (Q j)"
    using assms(2-4) unfolding less_3 by (elim disjE) auto
qed

lemma mlfq_rep_upd:
  assumes rep: "mlfq_rep h Q" and i: "i < 3" and ring: "dll h' (qhead i) xs"
    and items: "\<And>x. x \<in> set xs \<Longrightarrow> is_sched x"
    and sub: "\<And>j x. j < 3 \<Longrightarrow> j \<noteq> i \<Longrightarrow> x \<in> set xs \<Longrightarrow> x \<notin> set (Q j)"
    and frame: "\<And>j c. j < 3 \<Longrightarrow> j \<noteq> i \<Longrightarrow> c \<in> set (qhead j # Q j) \<Longrightarrow>
      lnext h' c = lnext h c \<and> lprev h' c = lprev h c"
  shows "mlfq_rep h' (Q(i := xs))"
proof -
  have "dll h' (qhead j) (Q j)" if "j < 3" "j \<noteq> i" for j
  proof (rule dll_frame)
    show "dll h (qhead j) (Q j)" using rep that by (simp add: mlfq_rep_def)
  qed (rule frame [OF that])
  moreover have "distinct ((Q(i := xs)) 0 @ (Q(i := xs)) 1 @ (Q(i := xs)) 2)"
  proof -
    have "distinct xs" "distinct (Q 0 @ Q 1 @ Q 2)"
      using ring rep by (simp_all add: dll_def mlfq_rep_def)
    then show ?thesis
      using i sub [of 0] sub [of 1] sub [of 2] unfolding less_3 by (elim disjE) auto
  qed
  ultimately show ?thesis
    using rep ring items unfolding mlfq_rep_def by (simp add: fun_upd_def)
qed

interpretation mlfq: queue_family mlfq_rep mlfq_empty mlfq_front list_del_init_careful mlfq_push 3 is_sched
proof unfold_locales
  fix h Q assume "mlfq_rep h Q"
  then show "distinct (concat (map Q [0..<3]))"
    by (simp add: mlfq_rep_def upt_3)
next
  fix h Q and i :: nat and x assume "mlfq_rep h Q" "i < 3" "x \<in> set (Q i)"
  then show "is_sched x" by (auto simp: mlfq_rep_def)
next
  fix h Q and i :: nat assume "mlfq_rep h Q" "i < 3"
  then show "mlfq_empty i h \<longleftrightarrow> Q i = []"
    by (simp add: mlfq_rep_def mlfq_empty_def list_empty_careful_dll)
next
  fix h Q and i :: nat and x xs assume "mlfq_rep h Q" "i < 3" "Q i = x # xs"
  then show "mlfq_front i h = x"
    by (metis mlfq_rep_def mlfq_front_def list_first_entry_dll)
next
  fix h Q and i :: nat and x xs assume rep: "mlfq_rep h Q" and i: "i < 3" and q: "Q i = x # xs"
  have d: "dll h (qhead i) ([] @ x # xs)" using mlfq_rep_ring [OF rep i] q by simp
  note item = mlfq_rep_item [OF rep] and dis = mlfq_rep_disjoint [OF rep i]
  show "mlfq_rep (list_del_init_careful x h) (Q(i := xs))"
    unfolding list_del_init_careful_eq
  proof (rule mlfq_rep_upd [OF rep i])
    show "dll (list_del_init x h) (qhead i) xs"
      using list_del_init_dll(1) [OF d] by simp
    fix j c assume "j < 3" "j \<noteq> i" "c \<in> set (qhead j # Q j)"
    moreover from this have "c \<notin> set (x # qhead i # [] @ xs)"
      using dis [of j] item [of j c] item [OF i] q by (auto simp: is_sched_def)
    ultimately show "lnext (list_del_init x h) c = lnext h c \<and> lprev (list_del_init x h) c = lprev h c"
      by (intro list_del_init_frame [OF d])
  qed (use item [OF i] q dis in auto)
next
  fix h Q and i :: nat and x
  assume rep: "mlfq_rep h Q" and i: "i < 3" and x: "is_sched x" and new: "\<And>j. j < 3 \<Longrightarrow> x \<notin> set (Q j)"
  note d = mlfq_rep_ring [OF rep i] and item = mlfq_rep_item [OF rep] and dis = mlfq_rep_disjoint [OF rep i]
  have x': "x \<notin> set (qhead i # Q i)" using x new [OF i] by (auto simp: is_sched_def)
  show "mlfq_rep (mlfq_push i x h) (Q(i := Q i @ [x]))"
    unfolding mlfq_push_def
  proof (rule mlfq_rep_upd [OF rep i])
    show "dll (list_add_tail x (qhead i) h) (qhead i) (Q i @ [x])"
      by (rule list_add_tail_dll [OF d x'])
    fix j c assume "j < 3" "j \<noteq> i" "c \<in> set (qhead j # Q j)"
    moreover from this have "c \<notin> set (x # qhead i # Q i)"
      using dis [of j] item [of j c] item [OF i] new [of j] x by (auto simp: is_sched_def)
    ultimately show "lnext (list_add_tail x (qhead i) h) c = lnext h c \<and>
        lprev (list_add_tail x (qhead i) h) c = lprev h c"
      by (intro list_add_tail_frame [OF d])
  qed (use item [OF i] x new dis in auto)
qed

lemma claim_first_claim_by:
  "claim_first is h = claim_by mlfq_empty mlfq_front list_del_init_careful is h"
  by (induction "is") (simp_all add: mlfq_empty_def mlfq_front_def Let_def)

section \<open>What the operations leave alone\<close>

text \<open>The part of the state the invariant speaks of.  Saving a stack pointer does not show in it.\<close>

definition pview :: "process \<Rightarrow> u8 \<times> process_state" where "pview p = (pid p, pstate p)"

definition kview :: "kstate \<Rightarrow> kobj list_head \<times> (u8 \<times> process_state) list \<times> u8 \<times> bool \<times> procref option" where
  "kview s = (lists s, map pview (processes s), glbl_pid s, mlfq_lock s, scheduler_proc s)"

lemma kview_kirq [simp]:
  "kview (kirq_restore f s) = kview s" "task (kirq_restore f s) = task s"
  "kview (snd (kirq_save s)) = kview s" "task (snd (kirq_save s)) = task s"
  by (simp_all add: kview_def kirq_restore_def kirq_save_def split: prod.split)

lemma myproc_simps [simp]:
  "fst (myproc s) = task s" "kview (snd (myproc s)) = kview s" "task (snd (myproc s)) = task s"
proof -
  obtain f s1 where k: "kirq_save s = (f, s1)" by (meson surj_pair)
  have "kview s1 = kview s" "task s1 = task s"
    using kview_kirq(3,4) [of s] by (simp_all add: k)
  then show "fst (myproc s) = task s" "kview (snd (myproc s)) = kview s" "task (snd (myproc s)) = task s"
    by (simp_all add: myproc_def k)
qed

lemma kview_push [simp]: "kview (push x s) = kview s" "task (push x s) = task s"
  by (simp_all add: kview_def push_def Let_def)

lemma kview_pop [simp]: "kview (snd (pop s)) = kview s" "task (snd (pop s)) = task s"
  by (simp_all add: kview_def pop_def Let_def)

lemma kview_regs [simp]: "kview (s\<lparr>kregs := r\<rparr>) = kview s" "kview (s\<lparr>kmm := m\<rparr>) = kview s"
  "kview (s\<lparr>task := t\<rparr>) = kview s" "kview (s\<lparr>tick_count := c\<rparr>) = kview s"
  by (simp_all add: kview_def)

lemma kview_ret [simp]: "kview (ret s) = kview s" "task (ret s) = task s"
  by (simp_all add: ret_def pop_def Let_def kview_def)

lemma kview_pop_callee [simp]: "kview (pop_callee s) = kview s" "task (pop_callee s) = task s"
  by (simp_all add: pop_callee_def pop_def Let_def kview_def)

lemma kview_push_callee [simp]: "kview (push_callee s) = kview s" "task (push_callee s) = task s"
  by (simp_all add: push_callee_def Let_def)

lemma kview_upd_proc [simp]:
  "(\<And>q. pview (f q) = pview q) \<Longrightarrow> kview (upd_proc p f s) = kview s" "task (upd_proc p f s) = task s"
proof -
  assume f: "\<And>q. pview (f q) = pview q"
  then have "map pview ((processes s)[i := f (processes s ! i)]) = map pview (processes s)" for i
    by (cases "i < length (processes s)")
       (simp_all add: map_update list_update_same_conv list_update_beyond)
  then show "kview (upd_proc p f s) = kview s"
    by (simp add: upd_proc_def kview_def split: procref.split)
qed (simp add: upd_proc_def split: procref.split)

lemma kview_upd_state:
  assumes "kview s' = kview s"
  shows "kview (upd_proc (Proc i) (\<lambda>q. q\<lparr>pstate := st\<rparr>) s') = kview (upd_proc (Proc i) (\<lambda>q. q\<lparr>pstate := st\<rparr>) s)"
proof -
  have m: "map pview (processes s') = map pview (processes s)" using assms by (simp add: kview_def)
  have u: "map pview (ps[i := (ps ! i)\<lparr>pstate := st\<rparr>]) = (map pview ps)[i := (fst (map pview ps ! i), st)]" for ps
    by (cases "i < length ps") (simp_all add: map_update pview_def list_update_beyond)
  show ?thesis
    using assms by (simp add: upd_proc_def kview_def u m)
qed

lemma kview_swtch [simp]: "kview (swtch old sp c s) = kview s" "task (swtch old sp c s) = task s"
  by (simp_all add: swtch_def Let_def pview_def)

lemma kview_ctx_switch [simp]:
  "kview (snd (ctx_switch ra new s)) = kview s" "task (snd (ctx_switch ra new s)) = new"
  by (simp_all add: ctx_switch_def Let_def split: prod.split)
    (metis kview_kirq(3) myproc_simps(2) snd_conv)

section \<open>The invariant\<close>

text \<open>Who has the CPU: the scheduler, or the process it picked from the given level.\<close>

datatype mode = InSched | InProc nat int

definition runnable :: "kstate \<Rightarrow> nat \<Rightarrow> bool" where
  "runnable s p \<longleftrightarrow> p < length (processes s) \<and> pstate (processes s ! p) \<notin> {UNUSED, ZOMBIE}"

definition queued :: "(nat \<Rightarrow> nat list) \<Rightarrow> nat \<Rightarrow> bool" where
  "queued Q p \<longleftrightarrow> (\<exists>i<3. p \<in> set (Q i))"

definition running :: "mode \<Rightarrow> nat \<Rightarrow> bool" where
  "running md p \<longleftrightarrow> (case md of InSched \<Rightarrow> False | InProc q _ \<Rightarrow> q = p)"

definition pid_inv :: "kstate \<Rightarrow> bool" where
  "pid_inv s \<longleftrightarrow>
     length (processes s) = NUM_PROCESSES \<and> unat (glbl_pid s) \<le> NUM_PROCESSES \<and>
     (\<forall>i<NUM_PROCESSES. pstate (processes s ! i) \<noteq> UNUSED \<longleftrightarrow> i < unat (glbl_pid s)) \<and>
     (\<forall>i<unat (glbl_pid s). unat (pid (processes s ! i)) = i)"

text \<open>Every runnable process other than the scheduler is on exactly one queue, or runs; nothing
  else is queued or runs; the queues are well formed, the lock is free, and process numbers are the
  numbers of their slots.\<close>

definition sched_inv :: "kstate \<Rightarrow> (nat \<Rightarrow> nat list) \<Rightarrow> nat \<Rightarrow> mode \<Rightarrow> bool" where
  "sched_inv s Q sp md \<longleftrightarrow>
     pid_inv s \<and> \<not> mlfq_lock s \<and> scheduler_proc s = Some (Proc sp) \<and> runnable s sp \<and>
     mlfq_rep (lists s) (\<lambda>i. map snode (Q i)) \<and>
     (\<forall>p. runnable s p \<and> p \<noteq> sp \<longleftrightarrow> queued Q p \<or> running md p) \<and>
     (case md of
        InSched \<Rightarrow> task s = Proc sp
      | InProc p l \<Rightarrow> task s = Proc p \<and> 0 \<le> l \<and> l < NUM_PRIORITY_LEVELS \<and> \<not> queued Q p)"

lemma kviewD:
  assumes "kview s' = kview s"
  shows "lists s' = lists s" "glbl_pid s' = glbl_pid s" "mlfq_lock s' = mlfq_lock s"
    "scheduler_proc s' = scheduler_proc s" "length (processes s') = length (processes s)"
    "i < length (processes s) \<Longrightarrow> pstate (processes s' ! i) = pstate (processes s ! i)"
    "i < length (processes s) \<Longrightarrow> pid (processes s' ! i) = pid (processes s ! i)"
    "runnable s' i = runnable s i" "pid_inv s' = pid_inv s"
proof -
  have m: "map pview (processes s') = map pview (processes s)"
    and "lists s' = lists s" "glbl_pid s' = glbl_pid s" "mlfq_lock s' = mlfq_lock s"
    "scheduler_proc s' = scheduler_proc s"
    using assms by (simp_all add: kview_def)
  then show "lists s' = lists s" "glbl_pid s' = glbl_pid s" "mlfq_lock s' = mlfq_lock s"
    "scheduler_proc s' = scheduler_proc s" by simp_all
  show len: "length (processes s') = length (processes s)"
    using map_eq_imp_length_eq [OF m] .
  have "pview (processes s' ! i) = pview (processes s ! i)" if "i < length (processes s)" for i
    using arg_cong [OF m, of "\<lambda>xs. xs ! i"] that len by simp
  then have p: "pstate (processes s' ! i) = pstate (processes s ! i)"
      "pid (processes s' ! i) = pid (processes s ! i)" if "i < length (processes s)" for i
    using that by (auto simp: pview_def)
  show "i < length (processes s) \<Longrightarrow> pstate (processes s' ! i) = pstate (processes s ! i)"
    "i < length (processes s) \<Longrightarrow> pid (processes s' ! i) = pid (processes s ! i)"
    using p by simp_all
  show "runnable s' i = runnable s i"
    using p len by (auto simp: runnable_def)
  show "pid_inv s' = pid_inv s"
    unfolding pid_inv_def using p len \<open>glbl_pid s' = glbl_pid s\<close> by auto
qed

lemma sched_inv_cong:
  assumes "kview s' = kview s" "task s' = task s"
  shows "sched_inv s' Q sp md = sched_inv s Q sp md"
  unfolding sched_inv_def by (simp add: kviewD [OF assms(1)] assms(2) split: mode.split)

lemma upd_lists_simps [simp]:
  "lists (upd_lists f s) = f (lists s)" "glbl_pid (upd_lists f s) = glbl_pid s"
  "mlfq_lock (upd_lists f s) = mlfq_lock s" "scheduler_proc (upd_lists f s) = scheduler_proc s"
  "processes (upd_lists f s) = processes s" "task (upd_lists f s) = task s"
  "runnable (upd_lists f s) p = runnable s p" "pid_inv (upd_lists f s) = pid_inv s"
  by (simp_all add: upd_lists_def runnable_def pid_inv_def)

lemma queued_upd: "i < 3 \<Longrightarrow> queued (Q(i := xs)) p \<longleftrightarrow> p \<in> set xs \<or> (\<exists>j<3. j \<noteq> i \<and> p \<in> set (Q j))"
  by (auto simp: queued_def)

section \<open>Queueing\<close>

lemma klock_free: "\<not> mlfq_lock s \<Longrightarrow> klock s = Inr (s\<lparr>mlfq_lock := True\<rparr>)"
  by (simp add: klock_def spinlock_free)

lemma sched_enqueue_eq:
  assumes "\<not> mlfq_lock s" "0 \<le> l" "l < NUM_PRIORITY_LEVELS"
  obtains s' where "sched_enqueue p l s = Inr s'" "task s' = task s"
    "kview s' = kview (upd_lists (mlfq_push (nat l) (snode p)) s)"
proof -
  obtain f s1 where k: "kirq_save s = (f, s1)" by (meson surj_pair)
  have v: "kview s1 = kview s" "task s1 = task s" using kview_kirq(3,4) [of s] k by simp_all
  have "\<not> mlfq_lock s1" using kviewD(3) [OF v(1)] assms(1) by simp
  then have "sched_enqueue p l s = Inr (kirq_restore f (krelease
      (upd_lists (list_add_tail (snode p) (qhead (nat l))) (s1\<lparr>mlfq_lock := True\<rparr>))))"
    using assms k by (simp add: sched_enqueue_def klock_free)
  moreover have "kview (kirq_restore f (krelease
      (upd_lists (list_add_tail (snode p) (qhead (nat l))) (s1\<lparr>mlfq_lock := True\<rparr>)))) =
      kview (upd_lists (mlfq_push (nat l) (snode p)) s)"
    unfolding kview_kirq
    using v(1) assms(1) by (simp add: kview_def krelease_def release_def upd_lists_def mlfq_push_def)
  ultimately show thesis
    using that v(2) by (simp add: krelease_def upd_lists_def)
qed

lemma mlfq_push_queues:
  assumes "mlfq_rep h (\<lambda>i. map snode (Q i))" "i < 3" "\<not> queued Q p"
  shows "mlfq_rep (mlfq_push i (snode p) h) (\<lambda>j. map snode ((Q(i := Q i @ [p])) j))"
proof -
  have "mlfq_rep (mlfq_push i (snode p) h)
      ((\<lambda>i. map snode (Q i))(i := map snode (Q i) @ [snode p]))"
    using assms by (intro mlfq.push_rep) (auto simp: is_sched_def queued_def)
  moreover have "(\<lambda>i. map snode (Q i))(i := map snode (Q i) @ [snode p]) =
      (\<lambda>j. map snode ((Q(i := Q i @ [p])) j))"
    by auto
  ultimately show ?thesis by simp
qed

text \<open>A process that is not queued joins a queue.\<close>

lemma enqueue_inv:
  assumes inv: "pid_inv s" "\<not> mlfq_lock s" "mlfq_rep (lists s) (\<lambda>i. map snode (Q i))" "\<not> queued Q p"
    and l: "0 \<le> l" "l < NUM_PRIORITY_LEVELS"
  obtains s' where "sched_enqueue p l s = Inr s'" "task s' = task s" "pid_inv s'" "\<not> mlfq_lock s'"
    "scheduler_proc s' = scheduler_proc s" "\<And>q. runnable s' q = runnable s q"
    "mlfq_rep (lists s') (\<lambda>j. map snode ((Q(nat l := Q (nat l) @ [p])) j))"
    "\<And>q. queued (Q(nat l := Q (nat l) @ [p])) q \<longleftrightarrow> queued Q q \<or> q = p"
    "\<And>i. i < length (processes s) \<Longrightarrow> pid (processes s' ! i) = pid (processes s ! i)"
proof -
  obtain s' where s': "sched_enqueue p l s = Inr s'" "task s' = task s"
    "kview s' = kview (upd_lists (mlfq_push (nat l) (snode p)) s)"
    using sched_enqueue_eq [OF inv(2) l] by metis
  have l3: "nat l < 3" using l by (simp add: NUM_PRIORITY_LEVELS_def)
  have "\<And>q. queued (Q(nat l := Q (nat l) @ [p])) q \<longleftrightarrow> queued Q q \<or> q = p"
    using l3 by (auto simp: queued_upd) (auto simp: queued_def)
  then show thesis
    using kviewD [OF s'(3)] inv mlfq_push_queues [OF inv(3) l3 inv(4)]
    by (intro that [OF s'(1,2)]) simp_all
qed

section \<open>The scheduler's steps\<close>

lemma claim_queues:
  assumes "mlfq_rep h (\<lambda>i. map snode (Q i))" "claim_first [0..<nat NUM_PRIORITY_LEVELS] h = (Some (x, i), h')"
  obtains p where "x = snode p" "i < 3" "\<forall>j<i. Q j = []" "Q i = p # tl (Q i)"
    "mlfq_rep h' (\<lambda>j. map snode ((Q(i := tl (Q i))) j))" "\<not> queued (Q(i := tl (Q i))) p"
proof -
  let ?Q = "\<lambda>i. map snode (Q i)"
  have c: "claim_by mlfq_empty mlfq_front list_del_init_careful [0..<3] h = (Some (x, i), h')"
    using assms(2) by (simp add: claim_first_claim_by NUM_PRIORITY_LEVELS_def)
  note C = mlfq.claim_rep [OF assms(1) c]
  obtain p where p: "Q i = p # tl (Q i)" "x = snode p" using C(3) by (cases "Q i") auto
  have "?Q(i := tl (?Q i)) = (\<lambda>j. map snode ((Q(i := tl (Q i))) j))"
    by (auto simp: map_tl)
  moreover have "\<not> queued (Q(i := tl (Q i))) p"
  proof
    assume "queued (Q(i := tl (Q i))) p"
    then obtain j where "j < 3" "p \<in> set ((Q(i := tl (Q i))) j)" by (auto simp: queued_def)
    then have "x \<in> set ((?Q(i := tl (?Q i))) j)"
      using p(2) by (cases "j = i") (auto simp: map_tl [symmetric])
    then show False using mlfq.claimed_not_queued [OF assms(1) c \<open>j < 3\<close>] by simp
  qed
  ultimately show thesis
    using C p that by simp
qed

lemma claim_idle:
  assumes "mlfq_rep h (\<lambda>i. map snode (Q i))" "claim_first [0..<nat NUM_PRIORITY_LEVELS] h = (None, h')"
  shows "h' = h" "\<And>i. i < 3 \<Longrightarrow> Q i = []"
  using mlfq.claim_none [OF assms(1), of h'] assms(2)
  by (auto simp: claim_first_claim_by NUM_PRIORITY_LEVELS_def)

lemma set_state_view:
  "lists (upd_proc p f s) = lists s" "glbl_pid (upd_proc p f s) = glbl_pid s"
  "mlfq_lock (upd_proc p f s) = mlfq_lock s" "scheduler_proc (upd_proc p f s) = scheduler_proc s"
  "length (processes (upd_proc p f s)) = length (processes s)"
  by (simp_all add: upd_proc_def split: procref.split)

lemma set_state_runnable:
  assumes "p < length (processes s)" "st \<noteq> UNUSED" "pstate (processes s ! p) \<noteq> UNUSED"
  shows "runnable (upd_proc (Proc p) (\<lambda>q. q\<lparr>pstate := st\<rparr>) s) r \<longleftrightarrow>
      (if r = p then st \<noteq> ZOMBIE else runnable s r)"
    "pid_inv (upd_proc (Proc p) (\<lambda>q. q\<lparr>pstate := st\<rparr>) s) = pid_inv s"
  using assms by (auto simp: runnable_def upd_proc_def pid_inv_def nth_list_update)

text \<open>One pass of the scheduler picks the oldest process of the highest level in use.\<close>

lemma scheduler_pick_step:
  assumes inv: "sched_inv s Q sp InSched"
  shows "(\<exists>s'. scheduler_pick ra s = Inr (Idle, s') \<and> (\<forall>i<3. Q i = []) \<and> sched_inv s' Q sp InSched) \<or>
    (\<exists>s' p i. scheduler_pick ra s = Inr (Picked p (int i), s') \<and> i < 3 \<and> (\<forall>j<i. Q j = []) \<and>
       Q i = p # tl (Q i) \<and> sched_inv s' (Q(i := tl (Q i))) sp (InProc p (int i)) \<and>
       pstate (processes s' ! p) = RUNNING)"
proof -
  let ?s0 = "s\<lparr>kregs := (kregs s)\<lparr>rflags := sti (rflags (kregs s))\<rparr>\<rparr>"
  obtain f s1 where k: "kirq_save ?s0 = (f, s1)" by (meson surj_pair)
  have v1: "kview s1 = kview s" "task s1 = task s"
    using kview_kirq(3,4) [of ?s0] k by (simp_all add: kview_def)
  note V = kviewD [OF v1(1)]
  have I: "pid_inv s" "\<not> mlfq_lock s" "scheduler_proc s = Some (Proc sp)" "runnable s sp"
    "mlfq_rep (lists s) (\<lambda>i. map snode (Q i))" "\<And>p. runnable s p \<and> p \<noteq> sp \<longleftrightarrow> queued Q p" "task s = Proc sp"
    using inv by (auto simp: sched_inv_def running_def)
  obtain found h where c: "claim_first [0..<nat NUM_PRIORITY_LEVELS] (lists s) = (found, h)"
    by (meson surj_pair)
  define s3 where "s3 = kirq_restore f (krelease (s1\<lparr>mlfq_lock := True, lists := h\<rparr>))"
  have v3: "lists s3 = h" "kview (s3\<lparr>lists := lists s\<rparr>) = kview s" "task s3 = task s"
    using v1 I(2) by (simp_all add: s3_def kirq_restore_def krelease_def release_def kview_def)
  have r3: "runnable s3 p = runnable s p" "pid_inv s3 = pid_inv s" for p
    using kviewD(8,9) [OF v3(2)] by (simp_all add: runnable_def pid_inv_def)
  have w3: "\<not> mlfq_lock s3" "scheduler_proc s3 = Some (Proc sp)" "length (processes s3) = NUM_PROCESSES"
    using kviewD(3,4,5) [OF v3(2)] I by (simp_all add: pid_inv_def)
  have pick: "scheduler_pick ra s = (case found of
      Some (Ptr (Sched i), l) \<Rightarrow>
        Inr (Picked i (int l), snd (ctx_switch ra (Proc i) (upd_proc (Proc i) (\<lambda>q. q\<lparr>pstate := RUNNING\<rparr>) s3)))
    | _ \<Rightarrow> Inr (Idle, s3))"
    using k V(3) I(2) c V(1)
    by (simp add: scheduler_pick_def klock_free s3_def
        split: option.split prod.split lptr.split kobj.split)
  show ?thesis
  proof (cases found)
    case None
    then have "h = lists s" "\<And>i. i < 3 \<Longrightarrow> Q i = []"
      using claim_idle [OF I(5)] c by auto
    moreover from this have "kview s3 = kview s" using v3 by (simp add: kview_def)
    ultimately show ?thesis
      using pick None sched_inv_cong [OF _ v3(3), of Q sp InSched] inv by simp
  next
    case (Some xi)
    then obtain x i where xi: "found = Some (x, i)" by (cases xi) auto
    obtain p where p: "x = snode p" "i < 3" "\<forall>j<i. Q j = []" "Q i = p # tl (Q i)"
      "mlfq_rep h (\<lambda>j. map snode ((Q(i := tl (Q i))) j))" "\<not> queued (Q(i := tl (Q i))) p"
      using claim_queues [OF I(5)] c xi by metis
    let ?s4 = "upd_proc (Proc p) (\<lambda>q. q\<lparr>pstate := RUNNING\<rparr>) s3"
    let ?s5 = "snd (ctx_switch ra (Proc p) ?s4)"
    have qp: "queued Q p" using p(2,4) unfolding queued_def by (metis list.set_intros(1))
    then have rp: "runnable s p" "p \<noteq> sp" using I(6) by auto
    have pl: "p < length (processes s3)" "pstate (processes s3 ! p) \<noteq> UNUSED"
      using rp(1) r3(1) [of p] by (auto simp: runnable_def)
    have q': "queued Q r \<longleftrightarrow> queued (Q(i := tl (Q i))) r \<or> r = p" for r
      using p(2,4) qp unfolding queued_upd [OF p(2)] by (metis queued_def set_ConsD list.set_intros(2))
    note R = set_state_runnable [OF pl(1) _ pl(2), of RUNNING]
    have K: "kview ?s5 = kview ?s4" "task ?s5 = Proc p" by simp_all
    have "runnable ?s5 r \<and> r \<noteq> sp \<longleftrightarrow> queued (Q(i := tl (Q i))) r \<or> r = p" for r
      unfolding kviewD(8) [OF K(1)] using R(1) r3(1) I(6) [of r] q' [of r] rp by auto
    moreover have "runnable ?s5 sp"
      unfolding kviewD(8) [OF K(1)] using R(1) r3(1) I(4) rp by auto
    moreover have "pid_inv ?s5"
      unfolding kviewD(9) [OF K(1)] using R(2) r3(2) I(1) by simp
    moreover have "pstate (processes ?s5 ! p) = RUNNING"
      using kviewD(6) [OF K(1), of p] pl(1) by (simp add: set_state_view(5)) (simp add: upd_proc_def)
    ultimately have "sched_inv ?s5 (Q(i := tl (Q i))) sp (InProc p (int i)) \<and> pstate (processes ?s5 ! p) = RUNNING"
      using w3 v3(1) p(2,5,6) K(2) kviewD(1,3,4) [OF K(1)]
      by (simp add: sched_inv_def running_def set_state_view NUM_PRIORITY_LEVELS_def eq_commute)
    then show ?thesis
      using pick xi p(1-4) by auto
  qed
qed

lemma demote_bounds: "0 \<le> l \<Longrightarrow> l < NUM_PRIORITY_LEVELS \<Longrightarrow> 0 \<le> demote l \<and> demote l < NUM_PRIORITY_LEVELS"
  by (simp add: demote_def NUM_PRIORITY_LEVELS_def)

text \<open>The process that ran hands the CPU back, in a state that is not unused: it is queued one level down
  unless it has died.\<close>

definition requeue :: "(nat \<Rightarrow> nat list) \<Rightarrow> nat \<Rightarrow> int \<Rightarrow> process_state \<Rightarrow> nat \<Rightarrow> nat list" where
  "requeue Q p l st =
     (if st = ZOMBIE then Q else Q(nat (demote l) := Q (nat (demote l)) @ [p]))"

lemma scheduler_back_step:
  assumes inv: "sched_inv s Q sp (InProc p l)" and st: "st \<noteq> UNUSED"
    and v: "kview s1 = kview (upd_proc (Proc p) (\<lambda>q. q\<lparr>pstate := st\<rparr>) s)" "task s1 = Proc sp"
  shows "\<exists>s2. scheduler_back f p l s1 = Inr s2 \<and> sched_inv s2 (requeue Q p l st) sp InSched"
proof -
  let ?u = "upd_proc (Proc p) (\<lambda>q. q\<lparr>pstate := st\<rparr>) s"
  have I: "pid_inv s" "\<not> mlfq_lock s" "scheduler_proc s = Some (Proc sp)" "runnable s sp"
    "mlfq_rep (lists s) (\<lambda>i. map snode (Q i))" "\<And>r. runnable s r \<and> r \<noteq> sp \<longleftrightarrow> queued Q r \<or> r = p"
    "\<not> queued Q p" "0 \<le> l" "l < NUM_PRIORITY_LEVELS"
    using inv by (auto simp: sched_inv_def running_def)
  have p: "runnable s p" "p \<noteq> sp" using I(6) [of p] by auto
  then have pl: "p < length (processes s)" "pstate (processes s ! p) \<noteq> UNUSED" by (auto simp: runnable_def)
  define s1' where "s1' = kirq_restore f s1"
  have v1: "kview s1' = kview ?u" "task s1' = Proc sp" using v by (simp_all add: s1'_def)
  note V = kviewD [OF v1(1)]
  note R = set_state_runnable [OF pl(1) st pl(2)]
  have ps: "pstate (processes s1' ! p) = st"
    using V(6) [of p] pl(1) by (simp add: set_state_view) (simp add: upd_proc_def)
  have rn: "runnable s1' r \<longleftrightarrow> (if r = p then st \<noteq> ZOMBIE else runnable s r)" for r
    using V(8) R(1) by simp
  have J: "pid_inv s1'" "\<not> mlfq_lock s1'" "scheduler_proc s1' = Some (Proc sp)"
    "mlfq_rep (lists s1') (\<lambda>i. map snode (Q i))"
    using V(1,3,4,9) I(1,2,3,5) R(2) by (simp_all add: set_state_view)
  have J': "runnable s1' sp" "runnable s1' r \<and> r \<noteq> sp \<longleftrightarrow> queued Q r \<or> (r = p \<and> st \<noteq> ZOMBIE)" for r
    using rn I(4,7) I(6) [of r] p by auto
  have b: "scheduler_back f p l s1 = (if st = ZOMBIE then Inr s1' else sched_enqueue p (demote l) s1')"
    using ps by (simp add: scheduler_back_def s1'_def [symmetric])
  show ?thesis
  proof (cases "st = ZOMBIE")
    case True
    then show ?thesis
      using b J J' v1(2) by (simp add: sched_inv_def running_def requeue_def)
  next
    case False
    let ?Q = "Q(nat (demote l) := Q (nat (demote l)) @ [p])"
    obtain s2 where E: "sched_enqueue p (demote l) s1' = Inr s2" "task s2 = task s1'" "pid_inv s2"
      "\<not> mlfq_lock s2" "scheduler_proc s2 = scheduler_proc s1'" "\<And>q. runnable s2 q = runnable s1' q"
      "mlfq_rep (lists s2) (\<lambda>j. map snode (?Q j))" "\<And>q. queued ?Q q \<longleftrightarrow> queued Q q \<or> q = p"
      "\<And>i. i < length (processes s1') \<Longrightarrow> pid (processes s2 ! i) = pid (processes s1' ! i)"
      by (rule enqueue_inv [OF J(1,2,4) I(7), of "demote l"]) (use demote_bounds [OF I(8,9)] in simp_all)
    then have "sched_inv s2 ?Q sp InSched"
      using J J' v1(2) False by (simp add: sched_inv_def running_def)
    then show ?thesis
      using b E(1) False by (simp add: requeue_def)
  qed
qed

text \<open>The three ways a process gives up the CPU.\<close>

lemma yield_step:
  assumes inv: "sched_inv s Q sp (InProc p l)"
  obtains f s1 where "yield ra s = Inr (f, s1)" "task s1 = Proc sp"
    "kview s1 = kview (upd_proc (Proc p) (\<lambda>q. q\<lparr>pstate := READY\<rparr>) s)"
proof -
  obtain t s0 where m: "myproc s = (t, s0)" by (meson surj_pair)
  have t: "t = Proc p" "kview s0 = kview s" "scheduler_proc s0 = Some (Proc sp)"
    using myproc_simps [of s] m inv kviewD(4) [of s0 s] by (auto simp: sched_inv_def)
  let ?s1 = "ctx_switch ra (Proc sp) (upd_proc (Proc p) (\<lambda>q. q\<lparr>pstate := READY\<rparr>) s0)"
  have "yield ra s = Inr (fst ?s1, snd ?s1)"
    using m t by (simp add: yield_def)
  moreover have "kview (snd ?s1) = kview (upd_proc (Proc p) (\<lambda>q. q\<lparr>pstate := READY\<rparr>) s)"
    using kview_upd_state [OF t(2)] by simp
  ultimately show thesis using that [of "fst ?s1" "snd ?s1"] by simp
qed

lemma exit_step:
  assumes inv: "sched_inv s Q sp (InProc p l)"
  obtains f s1 where "exit_process ra s = Inr (f, s1)" "task s1 = Proc sp"
    "kview s1 = kview (upd_proc (Proc p) (\<lambda>q. q\<lparr>pstate := ZOMBIE\<rparr>) s)"
proof -
  obtain t s0 where m: "myproc s = (t, s0)" by (meson surj_pair)
  have t: "t = Proc p" "kview s0 = kview s" "scheduler_proc s0 = Some (Proc sp)"
    using myproc_simps [of s] m inv kviewD(4) [of s0 s] by (auto simp: sched_inv_def)
  let ?s1 = "ctx_switch ra (Proc sp) (upd_proc (Proc p) (\<lambda>q. q\<lparr>pstate := ZOMBIE\<rparr>) s0)"
  have "exit_process ra s = Inr (fst ?s1, snd ?s1)"
    using m t by (simp add: exit_process_def set_state_view)
  moreover have "kview (snd ?s1) = kview (upd_proc (Proc p) (\<lambda>q. q\<lparr>pstate := ZOMBIE\<rparr>) s)"
    using kview_upd_state [OF t(2)] by simp
  ultimately show thesis using that [of "fst ?s1" "snd ?s1"] by simp
qed

lemma timer_step:
  assumes inv: "sched_inv s Q sp (InProc p l)"
  obtains f s1 where "timer_interrupt_handler_sched ra s = Inr (f, s1)" "task s1 = Proc sp" "kview s1 = kview s"
proof -
  let ?s1 = "ctx_switch ra (Proc sp) (s\<lparr>tick_count := tick_count s + 1\<rparr>)"
  have "timer_interrupt_handler_sched ra s = Inr (fst ?s1, snd ?s1)"
    using inv by (simp add: timer_interrupt_handler_sched_def sched_inv_def)
  then show thesis using that [of "fst ?s1" "snd ?s1"] by simp
qed

section \<open>fork\<close>

lemma find_unused_spec:
  "find_unused ps k = (if \<exists>i<length ps. pstate (ps ! i) = UNUSED
     then Some (k + (LEAST i. i < length ps \<and> pstate (ps ! i) = UNUSED)) else None)"
proof (induction ps arbitrary: k)
  case (Cons p ps)
  let ?P = "\<lambda>qs i. i < length qs \<and> pstate (qs ! i) = UNUSED"
  show ?case
  proof (cases "pstate p = UNUSED")
    case True
    then have "(LEAST i. ?P (p # ps) i) = 0" by (intro Least_equality) auto
    then show ?thesis using True by auto
  next
    case False
    have ex: "(\<exists>i. ?P (p # ps) i) \<longleftrightarrow> (\<exists>i. ?P ps i)"
    proof
      assume "\<exists>i. ?P (p # ps) i"
      then obtain i where "?P (p # ps) i" ..
      then show "\<exists>i. ?P ps i" using False by (cases i) auto
    qed (use Suc_less_eq in fastforce)
    have "(LEAST i. ?P (p # ps) i) = Suc (LEAST i. ?P ps i)" if some: "\<exists>i. ?P ps i"
    proof -
      obtain i where "?P ps i" using some ..
      then show ?thesis
        using Least_Suc [of "?P (p # ps)" "Suc i"] False by simp
    qed
    then show ?thesis using False Cons.IH [of "Suc k"] ex by auto
  qed
qed simp

lemma find_unused_inv:
  assumes "pid_inv s"
  shows "find_unused (processes s) 0 =
    (if unat (glbl_pid s) < NUM_PROCESSES then Some (unat (glbl_pid s)) else None)"
proof -
  let ?n = "unat (glbl_pid s)"
  have st: "pstate (processes s ! i) = UNUSED \<longleftrightarrow> ?n \<le> i" if "i < NUM_PROCESSES" for i
    using assms that unfolding pid_inv_def by (meson not_le)
  have len: "length (processes s) = NUM_PROCESSES" using assms by (simp add: pid_inv_def)
  show ?thesis
  proof (cases "?n < NUM_PROCESSES")
    case True
    then have "(LEAST i. i < NUM_PROCESSES \<and> pstate (processes s ! i) = UNUSED) = ?n"
      using st by (intro Least_equality) auto
    then show ?thesis
      using True st [of ?n] by (auto simp: find_unused_spec len)
  next
    case False
    then show ?thesis using st by (auto simp: find_unused_spec len)
  qed
qed

lemma alloc_stack_view:
  assumes "alloc_stack s = Inr (r, s')"
  shows "kview s' = kview s" "task s' = task s"
  using assms by (auto simp: alloc_stack_def Let_def kview_def split: if_splits prod.splits)

text \<open>A slot that is claimed: its number and state, and the list nodes that are written.\<close>

lemma claim_slot_view:
  assumes "i < length (processes s)" and s'_def: "s' = claim_slot i nm s"
  shows "processes s' = (processes s)[i := \<lparr>pid = glbl_pid s, pname = nm, parent = None, pstate = READY,
      pml4_addr = 0, context_sp = 0, entry = 0\<rparr>]"
    "glbl_pid s' = glbl_pid s + 1" "mlfq_lock s' = mlfq_lock s" "scheduler_proc s' = scheduler_proc s"
    "task s' = task s"
    "c \<noteq> snode i \<Longrightarrow> c \<noteq> Ptr (VmList i) \<Longrightarrow> lnext (lists s') c = lnext (lists s) c \<and> lprev (lists s') c = lprev (lists s) c"
    "dll (lists s') (Ptr (VmList i)) []"
  using assms(1)
  by (simp_all add: s'_def claim_slot_def upd_proc_def upd_lists_def Let_def empty_process_def
      INIT_LIST_HEAD_dll) (simp add: INIT_LIST_HEAD_def)

text \<open>The effect of taking a slot and a stack on what the invariant speaks of.\<close>

definition slot_taken :: "nat \<Rightarrow> kstate \<Rightarrow> kstate \<Rightarrow> bool" where
  "slot_taken i s s' \<longleftrightarrow>
     map pview (processes s') = (map pview (processes s))[i := (glbl_pid s, READY)] \<and>
     glbl_pid s' = glbl_pid s + 1 \<and> mlfq_lock s' = mlfq_lock s \<and> scheduler_proc s' = scheduler_proc s \<and>
     task s' = task s \<and>
     (\<forall>c. c \<noteq> snode i \<longrightarrow> c \<noteq> Ptr (VmList i) \<longrightarrow> (\<forall>r. c \<noteq> Ptr (VmNode r)) \<longrightarrow>
        lnext (lists s') c = lnext (lists s) c \<and> lprev (lists s') c = lprev (lists s) c)"

lemma slot_taken_cong:
  "kview s1 = kview s \<Longrightarrow> task s1 = task s \<Longrightarrow> slot_taken i s1 s' = slot_taken i s s'"
  "kview s1' = kview s' \<Longrightarrow> task s1' = task s' \<Longrightarrow> slot_taken i s s1' = slot_taken i s s'"
  by (simp_all add: slot_taken_def kview_def)

lemma alloc_no_entry_taken:
  assumes "length (processes s) = NUM_PROCESSES" "alloc_process_no_entry nm s = Inr (Some q, s')"
  obtains i where "q = Proc i" "find_unused (processes s) 0 = Some i" "i < NUM_PROCESSES" "slot_taken i s s'"
proof -
  obtain f s1 where k: "kirq_save s = (f, s1)" by (meson surj_pair)
  have v1: "kview s1 = kview s" "task s1 = task s" "processes s1 = processes s"
    using kview_kirq(3,4) [of s] k by (simp_all add: kirq_save_def split: prod.splits) auto
  obtain i where i: "find_unused (processes s) 0 = Some i"
    using assms(2) k v1(3) by (auto simp: alloc_process_no_entry_def split: option.splits)
  then have len: "i < length (processes s1)"
    using v1(3) by (auto simp: find_unused_spec split: if_splits intro: LeastI2)
  define s2 where "s2 = claim_slot i nm s1"
  note C = claim_slot_view [OF len s2_def]
  define s3 where "s3 = upd_proc (Proc i) (\<lambda>q. q\<lparr>pml4_addr := PAGE_GET_ADDR (read_cr3 (kmm s2))\<rparr>) s2"
  obtain r s4 where a: "alloc_stack s3 = Inr (r, s4)"
      and q: "q = Proc i" and s': "s' = kirq_restore f (upd_lists (list_add (Ptr (VmNode r)) (Ptr (VmList i))) s4)"
    using assms(2) k v1(3) i
    by (auto simp: alloc_process_no_entry_def s2_def [symmetric] s3_def [symmetric] Let_def
        split: option.splits sum.splits prod.splits)
  have v3: "kview s3 = kview s2" "task s3 = task s2" by (simp_all add: s3_def pview_def)
  have v4: "kview s4 = kview s2" "task s4 = task s2" using alloc_stack_view [OF a] v3 by simp_all
  have l4: "lists s4 = lists s2" using kviewD(1) [OF v4(1)] .
  have "lnext (list_add (Ptr (VmNode r)) (Ptr (VmList i)) (lists s4)) c = lnext (lists s1) c \<and>
      lprev (list_add (Ptr (VmNode r)) (Ptr (VmList i)) (lists s4)) c = lprev (lists s1) c"
    if "c \<noteq> snode i" "c \<noteq> Ptr (VmList i)" "\<forall>r. c \<noteq> Ptr (VmNode r)" for c
    using list_add_frame [OF C(7), of c "Ptr (VmNode r)"] C(6) [OF that(1,2)] that l4 by simp
  then have "slot_taken i s1 (upd_lists (list_add (Ptr (VmNode r)) (Ptr (VmList i))) s4)"
    using v4 C(1-5) len by (simp add: slot_taken_def kview_def map_update pview_def)
  then have "slot_taken i s1 s'"
    using slot_taken_cong(2) [of s'] by (simp add: s')
  then show thesis
    using that q i len v1 assms(1) slot_taken_cong(1) by metis
qed

lemma clone_view:
  assumes "clone_parent_base_frame c s = Some (Inr s')"
  shows "kview s' = kview s" "task s' = task s"
proof -
  let ?s1 = "push_callee (push (child_resume_addr s) s)"
  have clone: "kview u' = kview u \<and> task u' = task u"
    if cl: "clone_stack_rebased c fr u = Some (Inr u')" for fr u u'
  proof -
    obtain t u1 where m: "myproc u = (t, u1)" by (meson surj_pair)
    have v: "kview u1 = kview u" "task u1 = task u" using myproc_simps [of u] m by simp_all
    obtain m2 sp where "u' = upd_proc (Proc c) (\<lambda>q. q\<lparr>context_sp := sp\<rparr>) (u1\<lparr>kmm := m2\<rparr>)"
      using cl m by (auto simp: clone_stack_rebased_def Let_def split: option.splits sum.splits)
    then show ?thesis using v by (simp add: pview_def)
  qed
  obtain s2 where "clone_stack_rebased c (rsp (kregs ?s1)) ?s1 = Some (Inr s2)"
    "s' = (let s3 = pop_callee s2 in ret (s3\<lparr>kregs := (kregs s3)\<lparr>rsp := rsp (kregs s3) + 8\<rparr>\<rparr>))"
    using assms
    by (cases "clone_stack_rebased c (rsp (kregs ?s1)) ?s1"; cases "the (clone_stack_rebased c (rsp (kregs ?s1)) ?s1)")
       (auto simp: clone_parent_base_frame_def Let_def)
  then show "kview s' = kview s" "task s' = task s"
    using clone by (simp_all add: Let_def)
qed

lemma slot_taken_inv:
  assumes inv: "sched_inv s Q sp (InProc p l)" and st: "slot_taken i s s'"
    and i: "i = unat (glbl_pid s)" "i < NUM_PROCESSES"
  shows "pid_inv s'" "\<not> mlfq_lock s'" "scheduler_proc s' = Some (Proc sp)" "task s' = Proc p"
    "mlfq_rep (lists s') (\<lambda>i. map snode (Q i))" "\<not> queued Q i"
    "\<And>q. runnable s' q \<longleftrightarrow> runnable s q \<or> q = i" "unat (pid (processes s' ! i)) = i"
proof -
  have I: "pid_inv s" "mlfq_rep (lists s) (\<lambda>i. map snode (Q i))" "\<And>r. runnable s r \<and> r \<noteq> sp \<longleftrightarrow> queued Q r \<or> r = p"
    using inv by (auto simp: sched_inv_def running_def)
  have len: "length (processes s') = NUM_PROCESSES" "length (processes s) = NUM_PROCESSES"
    using st I(1) unfolding slot_taken_def pid_inv_def by (metis length_list_update length_map, metis)
  have pv: "pview (processes s' ! j) = (if j = i then (glbl_pid s, READY) else pview (processes s ! j))"
    if "j < NUM_PROCESSES" for j
  proof -
    have m: "map pview (processes s') = (map pview (processes s))[i := (glbl_pid s, READY)]"
      using st by (simp add: slot_taken_def)
    have "pview (processes s' ! j) = map pview (processes s') ! j"
      using that len by simp
    then show ?thesis
      unfolding m using that len by (simp add: nth_list_update)
  qed
  have pp: "pstate (processes s' ! j) = (if j = i then READY else pstate (processes s ! j))"
    "pid (processes s' ! j) = (if j = i then glbl_pid s else pid (processes s ! j))"
    if "j < NUM_PROCESSES" for j
    using pv [OF that] by (auto simp: pview_def split: if_splits)
  have g: "unat (glbl_pid s') = Suc i"
    using st i by (simp add: slot_taken_def unat_word_ariths NUM_PROCESSES_def)
  have unused: "\<not> runnable s i" "i \<noteq> p"
    using I(1) I(3) [of p] i by (auto simp: runnable_def pid_inv_def)
  show nq: "\<not> queued Q i" using unused I(3) by blast
  show "pid_inv s'"
    using I(1) len pp i g unfolding pid_inv_def by (auto simp: less_Suc_eq)
  show "\<not> mlfq_lock s'" "scheduler_proc s' = Some (Proc sp)" "task s' = Proc p"
    using st inv by (auto simp: slot_taken_def sched_inv_def)
  show "\<And>q. runnable s' q \<longleftrightarrow> runnable s q \<or> q = i"
    using pp len i unfolding runnable_def by (auto split: if_splits)
  show "unat (pid (processes s' ! i)) = i" using pp [OF i(2)] i(1) by simp
  show "mlfq_rep (lists s') (\<lambda>i. map snode (Q i))"
    unfolding mlfq_rep_def
  proof (intro conjI allI impI)
    fix j :: nat assume j: "j < 3"
    show "dll (lists s') (qhead j) (map snode (Q j))"
    proof (rule dll_frame [OF mlfq_rep_ring [OF I(2) j]])
      fix c assume "c \<in> set (qhead j # map snode (Q j))"
      moreover have "i \<notin> set (Q j)" using nq j by (auto simp: queued_def)
      ultimately have "c \<noteq> snode i" "c \<noteq> Ptr (VmList i)" "\<forall>r. c \<noteq> Ptr (VmNode r)" by auto
      then show "lnext (lists s') c = lnext (lists s) c \<and> lprev (lists s') c = lprev (lists s) c"
        using st unfolding slot_taken_def by blast
    qed
  qed (use I(2) in \<open>auto simp: mlfq_rep_def is_sched_def\<close>)
qed

lemma fork_step:
  assumes inv: "sched_inv s Q sp (InProc p l)" and lv: "0 \<le> level" "level < NUM_PRIORITY_LEVELS"
    and res: "fork nm level ra s = Some (Inr (r, s'))"
  shows "if unat (glbl_pid s) < NUM_PROCESSES
    then r = int (unat (glbl_pid s)) \<and>
      sched_inv s' (Q(nat level := Q (nat level) @ [unat (glbl_pid s)])) sp (InProc p l)
    else r = -1 \<and> sched_inv s' Q sp (InProc p l)"
proof -
  obtain f s1 where k: "kirq_save s = (f, s1)" by (meson surj_pair)
  obtain me s2 where m: "myproc s1 = (me, s2)" by (meson surj_pair)
  have v2: "kview s2 = kview s" "task s2 = task s"
    using kview_kirq(3,4) [of s] myproc_simps [of s1] k m by simp_all
  have inv2: "sched_inv s2 Q sp (InProc p l)" using sched_inv_cong [OF v2] inv by simp
  have pi: "pid_inv s2" using inv2 by (simp add: sched_inv_def)
  have g: "glbl_pid s2 = glbl_pid s" using kviewD(2) [OF v2(1)] .
  obtain q s3 where a: "alloc_process_no_entry nm s2 = Inr (q, s3)"
    using res k m by (auto simp: fork_def split: sum.splits prod.splits)
  show ?thesis
  proof (cases q)
    case None
    have "find_unused (processes s2) 0 = None \<and> kview s3 = kview s2 \<and> task s3 = task s2"
    proof -
      obtain f' s2' where k': "kirq_save s2 = (f', s2')" by (meson surj_pair)
      have "kview s2' = kview s2" "task s2' = task s2" "processes s2' = processes s2"
        using kview_kirq(3,4) [of s2] k' by (simp_all add: kirq_save_def split: prod.splits) auto
      then show ?thesis
        using a None k' by (auto simp: alloc_process_no_entry_def Let_def split: option.splits sum.splits prod.splits)
    qed
    then have "\<not> unat (glbl_pid s) < NUM_PROCESSES" "sched_inv (kirq_restore f s3) Q sp (InProc p l)"
      using find_unused_inv [OF pi] g inv2 sched_inv_cong [of "kirq_restore f s3" s2] by (auto split: if_splits)
    then show ?thesis
      using res k m a None by (auto simp: fork_def)
  next
    case (Some q')
    obtain c where c: "q' = Proc c" "find_unused (processes s2) 0 = Some c" "c < NUM_PROCESSES" "slot_taken c s2 s3"
      using alloc_no_entry_taken [of s2 nm q' s3] a Some pi by (auto simp: pid_inv_def)
    have cg: "c = unat (glbl_pid s2)" "unat (glbl_pid s) < NUM_PROCESSES"
      using c(2) find_unused_inv [OF pi] g by (auto split: if_splits)
    define s4 where "s4 = upd_proc (Proc c) (\<lambda>q. q\<lparr>parent := Some me\<rparr>) s3"
    obtain s5 where cl: "clone_parent_base_frame c (push ra s4) = Some (Inr s5)"
      using res k m a Some c(1) by (auto simp: fork_def s4_def [symmetric] split: option.splits sum.splits)
    have v5: "kview s5 = kview s3" "task s5 = task s3"
      using clone_view [OF cl] by (simp_all add: s4_def pview_def)
    note T = slot_taken_inv [OF inv2 c(4) cg(1) c(3)]
    note V = kviewD [OF v5(1)]
    let ?Q = "Q(nat level := Q (nat level) @ [c])"
    have L: "length (processes s3) = NUM_PROCESSES" using T(1) by (simp add: pid_inv_def)
    obtain s6 where E: "sched_enqueue c level s5 = Inr s6" "task s6 = task s5" "pid_inv s6" "\<not> mlfq_lock s6"
      "scheduler_proc s6 = scheduler_proc s5" "\<And>q. runnable s6 q = runnable s5 q"
      "mlfq_rep (lists s6) (\<lambda>j. map snode (?Q j))" "\<And>q. queued ?Q q \<longleftrightarrow> queued Q q \<or> q = c"
      "\<And>i. i < length (processes s5) \<Longrightarrow> pid (processes s6 ! i) = pid (processes s5 ! i)"
      by (rule enqueue_inv [of s5 Q c level]) (use T V lv in simp_all)
    have "pid (processes s6 ! c) = pid (processes s3 ! c)"
      using E(9) [of c] V(5,7) L c(3) by simp
    then have pidc: "uint (pid (processes s6 ! c)) = int c" using T(8) by (simp add: uint_nat)
    have I: "\<And>r. runnable s2 r \<and> r \<noteq> sp \<longleftrightarrow> queued Q r \<or> r = p" "0 \<le> l" "l < NUM_PRIORITY_LEVELS"
      "\<not> queued Q p" "runnable s2 sp"
      using inv2 by (auto simp: sched_inv_def running_def)
    have cn: "c \<noteq> sp" "c \<noteq> p"
      using I(1) [of p] I(5) pi cg(1) by (auto simp: runnable_def pid_inv_def)
    have "runnable s6 r \<longleftrightarrow> runnable s2 r \<or> r = c" for r
      using E(6) V(8) T(7) by simp
    then have "runnable s6 sp" "runnable s6 r \<and> r \<noteq> sp \<longleftrightarrow> queued ?Q r \<or> r = p" for r
      using I(5) I(1) [of r] E(8) [of r] cn by auto
    moreover have "\<not> queued ?Q p" using E(8) I(4) cn by simp
    ultimately have "sched_inv s6 ?Q sp (InProc p l)"
      using E(2-5,7) v5(2) V(4) T(3,4) I(2,3)
      by (simp add: sched_inv_def running_def eq_commute [of p] del: fun_upd_apply)
    then have "sched_inv (kirq_restore f s6) ?Q sp (InProc p l)"
      using sched_inv_cong [of "kirq_restore f s6" s6] by simp
    moreover have "fork nm level ra s = Some (Inr (int c, kirq_restore f s6))"
      by (simp add: fork_def k m a Some c(1) s4_def [symmetric] cl E(1) pidc)
    ultimately show ?thesis
      using res cg g by simp
  qed
qed

end
