(* ===== verification/Scheduler_Props.thy ===== *)
theory Scheduler_Props
  imports Scheduler_Proofs
begin

text \<open>
  The scheduling steps as a transition relation, its refinement of an abstract multilevel feedback
  queue, and the properties of the scheduler: no process is lost or duplicated, nothing deadlocks, and
  every queued process is served.
\<close>

section \<open>Steps\<close>

text \<open>The steps of one CPU.  In a step of a process the scheduler's continuation of the switch is part of the
  step: after the process hands back the CPU, the scheduler runs \<open>scheduler_back\<close> with its own locals.
  A process may also compute (registers and memory change), and fork.  The timer is taken with interrupts
  on; its arrival while the scheduler itself runs is not a step (see \<open>ctx_switch_to_self\<close> for what
  happens then).\<close>

inductive kstep :: "kstate \<times> mode \<Rightarrow> kstate \<times> mode \<Rightarrow> bool" where
  kpick: "scheduler_pick ra s = Inr (Picked p l, s') \<Longrightarrow> kstep (s, InSched) (s', InProc p l)"
| kidle: "scheduler_pick ra s = Inr (Idle, s') \<Longrightarrow> kstep (s, InSched) (s', InSched)"
| kyield: "yield ra s = Inr (fl, s1) \<Longrightarrow> scheduler_back fl' p l s1 = Inr s2 \<Longrightarrow>
    kstep (s, InProc p l) (s2, InSched)"
| kexit: "exit_process ra s = Inr (fl, s1) \<Longrightarrow> scheduler_back fl' p l s1 = Inr s2 \<Longrightarrow>
    kstep (s, InProc p l) (s2, InSched)"
| ktimer: "irqs_on (rflags (kregs s)) \<Longrightarrow> timer_interrupt_handler_sched ra s = Inr (fl, s1) \<Longrightarrow>
    scheduler_back fl' p l s1 = Inr s2 \<Longrightarrow> kstep (s, InProc p l) (s2, InSched)"
| kfork: "0 \<le> level \<Longrightarrow> level < NUM_PRIORITY_LEVELS \<Longrightarrow> fork nm level ra s = Some (Inr (r, s')) \<Longrightarrow>
    kstep (s, InProc p l) (s', InProc p l)"
| krun: "kstep (s, InProc p l) (s\<lparr>kregs := r, kmm := m\<rparr>, InProc p l)"

text \<open>The abstract machine: three queues and who runs.  A process that comes back goes one level down, the last level
  keeping its own.\<close>

inductive mstep :: "(nat \<Rightarrow> nat list) \<times> mode \<Rightarrow> (nat \<Rightarrow> nat list) \<times> mode \<Rightarrow> bool" where
  mpick: "i < 3 \<Longrightarrow> \<forall>j<i. Q j = [] \<Longrightarrow> Q i = p # xs \<Longrightarrow> mstep (Q, InSched) (Q(i := xs), InProc p (int i))"
| midle: "\<forall>i<3. Q i = [] \<Longrightarrow> mstep (Q, InSched) (Q, InSched)"
| mback: "mstep (Q, InProc p l) (Q(nat (min (l + 1) 2) := Q (nat (min (l + 1) 2)) @ [p]), InSched)"
| mexit: "mstep (Q, InProc p l) (Q, InSched)"
| mfork: "\<not> queued Q c \<Longrightarrow> c \<noteq> p \<Longrightarrow> i < 3 \<Longrightarrow> mstep (Q, InProc p l) (Q(i := Q i @ [c]), InProc p l)"
| mstay: "mstep (Q, InProc p l) (Q, InProc p l)"

lemma sched_inv_task: "sched_inv s Q sp (InProc p l) \<Longrightarrow> task s = Proc p"
  by (simp add: sched_inv_def)

lemma demote_level: "l < NUM_PRIORITY_LEVELS \<Longrightarrow> demote l = min (l + 1) 2"
  by (auto simp: demote_def NUM_PRIORITY_LEVELS_def)

lemma back_simulation:
  assumes "sched_inv s Q sp (InProc p l)" "st \<noteq> UNUSED" "task s1 = Proc sp"
    "kview s1 = kview (upd_proc (Proc p) (\<lambda>q. q\<lparr>pstate := st\<rparr>) s)" "scheduler_back f p l s1 = Inr s2"
  shows "\<exists>Q'. mstep (Q, InProc p l) (Q', InSched) \<and> sched_inv s2 Q' sp InSched"
proof -
  have "l < NUM_PRIORITY_LEVELS" using assms(1) by (simp add: sched_inv_def)
  then show ?thesis
    using scheduler_back_step [OF assms(1,2,4,3), of f] assms(5) mback [of Q p l] mexit [of Q p l]
    by (auto simp: requeue_def demote_level split: if_splits)
qed

lemma pick_simulation:
  assumes "sched_inv s Q sp InSched"
  shows "scheduler_pick ra s = Inr (Picked p l, s') \<Longrightarrow>
      \<exists>Q'. mstep (Q, InSched) (Q', InProc p l) \<and> sched_inv s' Q' sp (InProc p l)"
    and "scheduler_pick ra s = Inr (Idle, s') \<Longrightarrow>
      \<exists>Q'. mstep (Q, InSched) (Q', InSched) \<and> sched_inv s' Q' sp InSched"
proof -
  assume r: "scheduler_pick ra s = Inr (Picked p l, s')"
  then obtain i where "l = int i" "i < 3" "\<forall>j<i. Q j = []" "Q i = p # tl (Q i)"
    "sched_inv s' (Q(i := tl (Q i))) sp (InProc p l)"
    using scheduler_pick_step [OF assms, of ra] by auto
  then show "\<exists>Q'. mstep (Q, InSched) (Q', InProc p l) \<and> sched_inv s' Q' sp (InProc p l)"
    using mpick by blast
next
  assume "scheduler_pick ra s = Inr (Idle, s')"
  then show "\<exists>Q'. mstep (Q, InSched) (Q', InSched) \<and> sched_inv s' Q' sp InSched"
    using scheduler_pick_step [OF assms, of ra] midle by auto
qed

lemma keep_state_view:
  assumes "p < length (processes s)" "st = pstate (processes s ! p)"
  shows "kview (upd_proc (Proc p) (\<lambda>q. q\<lparr>pstate := st\<rparr>) s) = kview s"
proof -
  have "pview ((processes s ! p)\<lparr>pstate := st\<rparr>) = map pview (processes s) ! p"
    using assms by (simp add: pview_def)
  then show ?thesis
    by (simp add: upd_proc_def kview_def map_update list_update_id)
qed

lemma running_used:
  assumes "sched_inv s Q sp (InProc p l)"
  shows "p < length (processes s)" "pstate (processes s ! p) \<noteq> UNUSED" "pstate (processes s ! p) \<noteq> ZOMBIE"
proof -
  have "runnable s p" using assms by (auto simp: sched_inv_def running_def)
  then show "p < length (processes s)" "pstate (processes s ! p) \<noteq> UNUSED"
    "pstate (processes s ! p) \<noteq> ZOMBIE" by (auto simp: runnable_def)
qed

lemma fork_simulation:
  assumes inv: "sched_inv s Q sp (InProc p l)" and lv: "0 \<le> level" "level < NUM_PRIORITY_LEVELS"
    and res: "fork nm level ra s = Some (Inr (r, s'))"
  shows "\<exists>Q'. mstep (Q, InProc p l) (Q', InProc p l) \<and> sched_inv s' Q' sp (InProc p l)"
proof (cases "unat (glbl_pid s) < NUM_PROCESSES")
  case True
  let ?c = "unat (glbl_pid s)"
  have "pid_inv s" "\<And>q. queued Q q \<Longrightarrow> runnable s q"
    using inv by (auto simp: sched_inv_def)
  then have "\<not> queued Q ?c" "?c \<noteq> p"
    using running_used [OF inv] by (auto simp: runnable_def pid_inv_def)
  moreover have "nat level < 3" using lv by (simp add: NUM_PRIORITY_LEVELS_def)
  ultimately show ?thesis
    using fork_step [OF inv lv res] True mfork [of Q ?c p "nat level" l] by auto
qed (use fork_step [OF inv lv res] mstay in auto)

lemma step_simulation:
  assumes "kstep (s, md) (s', md')" "sched_inv s Q sp md"
  shows "\<exists>Q'. mstep (Q, md) (Q', md') \<and> sched_inv s' Q' sp md'"
  using assms(1)
proof cases
  case (kpick ra p l)
  then show ?thesis
    using pick_simulation(1) [of s Q sp ra p l s'] assms(2) by simp
next
  case (kidle ra)
  then show ?thesis
    using pick_simulation(2) [of s Q sp ra s'] assms(2) by simp
next
  case (kyield ra fl s1 fl' p l)
  then have inv: "sched_inv s Q sp (InProc p l)" using assms(2) by simp
  obtain f u where "yield ra s = Inr (f, u)" "task u = Proc sp"
    "kview u = kview (upd_proc (Proc p) (\<lambda>q. q\<lparr>pstate := READY\<rparr>) s)"
    by (rule yield_step [OF inv])
  then show ?thesis using back_simulation [OF inv, of READY u fl' s'] kyield by simp
next
  case (kexit ra fl s1 fl' p l)
  then have inv: "sched_inv s Q sp (InProc p l)" using assms(2) by simp
  obtain f u where "exit_process ra s = Inr (f, u)" "task u = Proc sp"
    "kview u = kview (upd_proc (Proc p) (\<lambda>q. q\<lparr>pstate := ZOMBIE\<rparr>) s)"
    by (rule exit_step [OF inv])
  then show ?thesis using back_simulation [OF inv, of ZOMBIE u fl' s'] kexit by simp
next
  case (ktimer ra fl s1 fl' p l)
  then have inv: "sched_inv s Q sp (InProc p l)" using assms(2) by simp
  obtain f u where "timer_interrupt_handler_sched ra s = Inr (f, u)" "task u = Proc sp" "kview u = kview s"
    by (rule timer_step [OF inv])
  then show ?thesis
    using back_simulation [OF inv, of "pstate (processes s ! p)" u fl' s'] ktimer running_used [OF inv]
      keep_state_view [of p s] by simp
next
  case (kfork level nm ra r p l)
  then show ?thesis using fork_simulation assms(2) by auto
next
  case (krun p l r m)
  then show ?thesis
    using assms(2) mstay [of Q p l] sched_inv_cong [of s' s Q sp md] by (auto simp: kview_def)
qed

lemma steps_simulation:
  "kstep\<^sup>*\<^sup>* c c' \<Longrightarrow> sched_inv (fst c) Q sp (snd c) \<Longrightarrow>
   \<exists>Q'. mstep\<^sup>*\<^sup>* (Q, snd c) (Q', snd c') \<and> sched_inv (fst c') Q' sp (snd c')"
proof (induction rule: rtranclp_induct)
  case (step c1 c2)
  then obtain Q1 where 1: "mstep\<^sup>*\<^sup>* (Q, snd c) (Q1, snd c1)" "sched_inv (fst c1) Q1 sp (snd c1)" by blast
  obtain Q2 where "mstep (Q1, snd c1) (Q2, snd c2)" "sched_inv (fst c2) Q2 sp (snd c2)"
    using step_simulation [of "fst c1" "snd c1" "fst c2" "snd c2" Q1 sp] step(2) 1(2) by auto
  then show ?case using 1(1) by (meson rtranclp.rtrancl_into_rtrancl)
qed auto

section \<open>Turns\<close>

text \<open>A turn of the abstract queues when nothing exits or forks: the head of the highest queue is served
  and goes to the back of the queue below, or of its own when there is none below.\<close>

fun turn :: "nat list \<times> nat list \<times> nat list \<Rightarrow> (nat \<times> nat list \<times> nat list \<times> nat list) option" where
  "turn (x # a, b, c) = Some (x, a, b @ [x], c)"
| "turn ([], x # b, c) = Some (x, [], b, c @ [x])"
| "turn ([], [], x # c) = Some (x, [], [], c @ [x])"
| "turn ([], [], []) = None"

primrec turns :: "nat \<Rightarrow> nat list \<times> nat list \<times> nat list \<Rightarrow> nat list \<times> nat list \<times> nat list \<times> nat list" where
  "turns 0 q = ([], q)"
| "turns (Suc n) q =
     (case turn q of None \<Rightarrow> ([], q)
      | Some (x, q1) \<Rightarrow> let (xs, q2) = turns n q1 in (x # xs, q2))"

text \<open>The kernel's turn: the scheduler picks, the picked process yields, the scheduler takes over.\<close>

definition sched_round :: "u64 \<Rightarrow> u64 \<Rightarrow> kstate \<Rightarrow> (nat \<times> kstate) option" where
  "sched_round ra f s =
     (case scheduler_pick ra s of
        Inr (Picked p l, s1) \<Rightarrow>
          (case yield ra s1 of
             Inr (_, s2) \<Rightarrow> (case scheduler_back f p l s2 of Inr s3 \<Rightarrow> Some (p, s3) | Inl _ \<Rightarrow> None)
           | Inl _ \<Rightarrow> None)
      | _ \<Rightarrow> None)"

primrec rounds :: "nat \<Rightarrow> u64 \<Rightarrow> u64 \<Rightarrow> kstate \<Rightarrow> nat list \<times> kstate" where
  "rounds 0 ra f s = ([], s)"
| "rounds (Suc n) ra f s =
     (case sched_round ra f s of None \<Rightarrow> ([], s)
      | Some (p, s1) \<Rightarrow> let (ps, s2) = rounds n ra f s1 in (p # ps, s2))"

definition three :: "(nat \<Rightarrow> nat list) \<Rightarrow> nat list \<times> nat list \<times> nat list" where
  "three Q = (Q 0, Q 1, Q 2)"

lemma turn_served:
  assumes "i < 3" "\<forall>j<i. Q j = []" "Q i = p # xs"
  shows "turn (three Q) = Some (p, three (requeue (Q(i := xs)) p (int i) READY))"
  using assms unfolding less_3
  by (elim disjE) (simp_all add: three_def requeue_def demote_def NUM_PRIORITY_LEVELS_def)

lemma turn_none: "turn q = None \<longleftrightarrow> q = ([], [], [])"
  by (cases q rule: turn.cases) auto

lemma sched_round_turn:
  assumes inv: "sched_inv s Q sp InSched"
  shows "(\<exists>s' Q' p. sched_round ra f s = Some (p, s') \<and> turn (three Q) = Some (p, three Q') \<and> sched_inv s' Q' sp InSched) \<or>
    sched_round ra f s = None \<and> turn (three Q) = None"
  using scheduler_pick_step [OF inv, of ra]
proof
  assume "\<exists>s'. scheduler_pick ra s = Inr (Idle, s') \<and> (\<forall>i<3. Q i = []) \<and> sched_inv s' Q sp InSched"
  then show ?thesis by (auto simp: sched_round_def three_def)
next
  assume "\<exists>s' p i. scheduler_pick ra s = Inr (Picked p (int i), s') \<and> i < 3 \<and> (\<forall>j<i. Q j = []) \<and>
       Q i = p # tl (Q i) \<and> sched_inv s' (Q(i := tl (Q i))) sp (InProc p (int i)) \<and>
       pstate (processes s' ! p) = RUNNING"
  then obtain s1 p i where a: "scheduler_pick ra s = Inr (Picked p (int i), s1)"
    and q: "i < 3" "\<forall>j<i. Q j = []" "Q i = p # tl (Q i)"
    and inv1: "sched_inv s1 (Q(i := tl (Q i))) sp (InProc p (int i))" by blast
  obtain g s2 where b: "yield ra s1 = Inr (g, s2)" "task s2 = Proc sp"
    "kview s2 = kview (upd_proc (Proc p) (\<lambda>q. q\<lparr>pstate := READY\<rparr>) s1)"
    by (rule yield_step [OF inv1])
  obtain s3 where c: "scheduler_back f p (int i) s2 = Inr s3"
    "sched_inv s3 (requeue (Q(i := tl (Q i))) p (int i) READY) sp InSched"
    using scheduler_back_step [OF inv1 _ b(3,2), of f] by auto
  show ?thesis
    using a b(1) c turn_served [OF q] by (auto simp: sched_round_def)
qed

lemma rounds_turns:
  "sched_inv s Q sp InSched \<Longrightarrow>
   \<exists>s' Q'. rounds n ra f s = (fst (turns n (three Q)), s') \<and> sched_inv s' Q' sp InSched \<and>
     three Q' = snd (turns n (three Q))"
proof (induction n arbitrary: s Q)
  case (Suc n)
  show ?case
    using sched_round_turn [OF Suc.prems, of ra f]
  proof (elim disjE exE conjE)
    fix s1 Q1 p
    assume r: "sched_round ra f s = Some (p, s1)" "turn (three Q) = Some (p, three Q1)" and inv: "sched_inv s1 Q1 sp InSched"
    show ?thesis
      using Suc.IH [OF inv] r by (auto simp: case_prod_beta)
  qed (use Suc.prems in auto)
qed auto

section \<open>Every queued process is served\<close>

lemma turns_add:
  "length (fst (turns m q)) = m \<Longrightarrow>
   fst (turns (m + n) q) = fst (turns m q) @ fst (turns n (snd (turns m q))) \<and>
   snd (turns (m + n) q) = snd (turns n (snd (turns m q)))"
  by (induction m arbitrary: q) (auto simp: case_prod_beta split: option.splits)

lemma drain_high: "turns (length a) (a, b, c) = (a, [], b @ a, c)"
  by (induction a arbitrary: b) (simp_all add: Let_def)

lemma drain_middle: "turns (length b) ([], b, c) = (b, [], [], c @ b)"
  by (induction b arbitrary: c) (simp_all add: Let_def)

lemma rotate_low: "turns (length c) ([], [], c @ d) = (c, [], [], d @ c)"
  by (induction c arbitrary: d) (simp_all add: Let_def)

lemma turns_all:
  "turns (length a + length (b @ a) + length (c @ b @ a)) (a, b, c) =
     (a @ (b @ a) @ (c @ b @ a), [], [], c @ b @ a)"
  using turns_add [of "length a" "(a, b, c)" "length (b @ a) + length (c @ b @ a)"]
    turns_add [of "length (b @ a)" "([], b @ a, c)" "length (c @ b @ a)"]
    drain_high [of a b c] drain_middle [of "b @ a" c] rotate_low [of "c @ b @ a" "[]"]
  by (simp only: append_Nil2 append_Nil fst_conv snd_conv add.assoc simp_thms prod_eq_iff)

lemma turns_low: "c \<noteq> [] \<Longrightarrow> turns (k * length c) ([], [], c) = (concat (replicate k c), [], [], c)"
proof (induction k)
  case (Suc k)
  then show ?case
    using turns_add [of "length c" "([], [], c)" "k * length c"] rotate_low [of c "[]"]
    by (cases "turns (length c + k * length c) ([], [], c)") simp
qed simp

section \<open>Properties\<close>

text \<open>A concrete state with init in slot 0, A in 1, B in 2 and the scheduler in 3, as \<^verbatim>\<open>init\<close> leaves it.\<close>

definition slot :: "nat \<Rightarrow> process_state \<Rightarrow> process" where
  "slot i st = empty_process\<lparr>pid := of_nat i, pstate := st\<rparr>"

definition abab_lists :: "kobj list_head" where
  "abab_lists = mlfq_push 1 (snode 2) (mlfq_push 0 (snode 1) (mlfq_push 2 (snode 0)
     (init_levels \<lparr>lnext = (\<lambda>_. NULL), lprev = (\<lambda>_. NULL)\<rparr>)))"

definition idle_mm :: mm where
  "idle_mm = \<lparr>placement_address = 0, hhdm_offset = 0, kernel_phys_base = 0, kernel_virt_base = 0,
     pmem = (\<lambda>_. 0), reg_cr3 = 0, reg_cr4 = 0, tlb = {}\<rparr>"

definition abab_state :: kstate where
  "abab_state =
     \<lparr>kmm = idle_mm, kregs = \<lparr>rsp = 0, rbp = 0, rbx = 0, r12 = 0, r13 = 0, r14 = 0, r15 = 0, rip = 0, rflags = FL_IF\<rparr>,
      processes = [slot 0 READY, slot 1 READY, slot 2 READY, slot 3 RUNNING] @ replicate 6 empty_process,
      bootstrap_proc = empty_process, glbl_pid = 4, lists = abab_lists,
      regions = (\<lambda>_. \<lparr>vr_flags = 0, vr_type = STACK, vr_start = 0, vr_end = 0\<rparr>),
      task = Proc 3, scheduler_proc = Some (Proc 3), mlfq_lock = False, tick_count = 0,
      forkret_addr = 0, child_resume_addr = 0\<rparr>"

definition abab_queues :: "nat \<Rightarrow> nat list" where
  "abab_queues i = (if i = 0 then [1] else if i = 1 then [2] else if i = 2 then [0] else [])"

lemma init_levels_rep: "mlfq_rep (init_levels h) (\<lambda>_. map snode [])"
proof -
  have "dll (init_levels h) (qhead i) []" if "i < 3" for i
    using that unfolding less_3
    by (elim disjE) (simp_all add: init_levels_def NUM_PRIORITY_LEVELS_def upt_3 INIT_LIST_HEAD_def
      set_next_def set_prev_def dll_def)
  then show ?thesis by (simp add: mlfq_rep_def)
qed

lemma abab_rep: "mlfq_rep abab_lists (\<lambda>i. map snode (abab_queues i))"
proof -
  let ?Q = "(((\<lambda>_. [])(2 := [0]))(0 := [1]))(1 := [2::nat])"
  have "mlfq_rep abab_lists (\<lambda>i. map snode (?Q i))"
    unfolding abab_lists_def
    using mlfq_push_queues [OF init_levels_rep, of 2 0]
      mlfq_push_queues [of _ "(\<lambda>_. [])(2 := [0])" 0 1]
      mlfq_push_queues [of _ "((\<lambda>_. [])(2 := [0]))(0 := [1])" 1 2]
    by (simp add: queued_def less_3)
  moreover have "?Q = abab_queues" by (auto simp: abab_queues_def fun_eq_iff)
  ultimately show ?thesis by metis
qed

lemma queued_three: "queued Q p \<longleftrightarrow> p \<in> set (Q 0) \<or> p \<in> set (Q 1) \<or> p \<in> set (Q 2)"
  unfolding queued_def less_3 by blast

lemma less_4: "i < (4::nat) \<longleftrightarrow> i = 0 \<or> i = 1 \<or> i = 2 \<or> i = 3" by auto

lemma abab_slot:
  "i < 10 \<Longrightarrow> processes abab_state ! i = (if i < 3 then slot i READY else if i = 3 then slot i RUNNING else empty_process)"
proof (cases "i < 4")
  case True
  then show ?thesis unfolding less_4 by (elim disjE) (simp_all add: abab_state_def)
next
  case False
  moreover assume "i < 10"
  ultimately show ?thesis by (simp add: abab_state_def nth_append)
qed

lemma abab_inv: "sched_inv abab_state abab_queues 3 InSched"
proof -
  have l: "length (processes abab_state) = 10" "glbl_pid abab_state = 4" "\<not> mlfq_lock abab_state"
    "scheduler_proc abab_state = Some (Proc 3)" "task abab_state = Proc 3" "lists abab_state = abab_lists"
    by (simp_all add: abab_state_def)
  have u: "unat (4 :: u8) = 4" by simp
  have "pstate (processes abab_state ! i) \<noteq> UNUSED \<longleftrightarrow> i < 4" if "i < 10" for i
    using abab_slot [OF that] by (simp add: slot_def empty_process_def)
  moreover have "unat (pid (processes abab_state ! i)) = i" if "i < 4" for i
    using that unfolding less_4 by (elim disjE) (simp_all add: abab_slot slot_def)
  ultimately have "pid_inv abab_state"
    unfolding pid_inv_def NUM_PROCESSES_def l u by simp
  moreover have "runnable abab_state p \<longleftrightarrow> p < 4" for p
    by (cases "p < 10"; cases "p < 3"; cases "p = 3") (simp_all add: runnable_def l abab_slot slot_def empty_process_def)
  moreover have "queued abab_queues p \<longleftrightarrow> p < 3" for p
    using less_3 [of p] by (auto simp: queued_three abab_queues_def)
  ultimately show ?thesis
    using abab_rep l unfolding sched_inv_def by (simp add: running_def) arith
qed

lemma abab_pick:
  obtains s' where "scheduler_pick ra abab_state = Inr (Picked 1 0, s')"
  using scheduler_pick_step [OF abab_inv, of ra] that unfolding less_3
  by (auto simp: abab_queues_def split: if_splits)

lemma abab_step:
  obtains s' where "kstep\<^sup>*\<^sup>* (abab_state, InSched) (s', InProc 1 0)"
  using abab_pick [of 0] kpick by (metis r_into_rtranclp)

text \<open>A state with a full process table: init runs, all else but the scheduler has exited.\<close>

definition full_state :: kstate where
  "full_state = abab_state
     \<lparr>processes := map (\<lambda>i. slot i (if i = 0 then RUNNING else if i = 3 then READY else ZOMBIE)) [0..<10],
      glbl_pid := 10, lists := init_levels \<lparr>lnext = (\<lambda>_. NULL), lprev = (\<lambda>_. NULL)\<rparr>, task := Proc 0\<rparr>"

lemma full_inv: "sched_inv full_state (\<lambda>_. []) 3 (InProc 0 2)"
proof -
  have l: "length (processes full_state) = 10" "glbl_pid full_state = 10" "\<not> mlfq_lock full_state"
    "scheduler_proc full_state = Some (Proc 3)" "task full_state = Proc 0"
    "mlfq_rep (lists full_state) (\<lambda>i. map snode [])"
    using init_levels_rep by (simp_all add: full_state_def abab_state_def)
  have p: "processes full_state ! i = slot i (if i = 0 then RUNNING else if i = 3 then READY else ZOMBIE)"
    if "i < 10" for i using that by (simp add: full_state_def)
  have u: "unat (10 :: u8) = 10" "unat (of_nat i :: u8) = i" if "i < 10" for i
    using that by (simp_all add: unat_of_nat)
  then have "pid_inv full_state"
    unfolding pid_inv_def NUM_PROCESSES_def l u(1) [OF zero_less_numeral] by (simp add: p slot_def)
  moreover have "runnable full_state i \<longleftrightarrow> i = 0 \<or> i = 3" for i
    by (cases "i < 10") (auto simp: runnable_def l p slot_def)
  ultimately show ?thesis
    using l unfolding sched_inv_def by (auto simp: running_def queued_def NUM_PRIORITY_LEVELS_def)
qed

lemma full_fork:
  obtains s' where "fork nm 0 ra full_state = Some (Inr (-1, s'))"
proof -
  have "find_unused (processes full_state) 0 = None"
    by (simp add: full_state_def upt_rec slot_def)
  then have "\<exists>s'. fork nm 0 ra full_state = Some (Inr (-1, s'))"
    by (simp add: fork_def alloc_process_no_entry_def kirq_save_def kirq_restore_def myproc_def case_prod_beta Let_def)
  then show thesis using that by blast
qed

lemma count_distinct: "distinct xs \<Longrightarrow> count_list xs p = (if p \<in> set xs then 1 else 0)"
  by (induction xs) auto

lemma count_queued:
  assumes "mlfq_rep h (\<lambda>i. map snode (Q i))"
  shows "count_list (Q 0) p + count_list (Q 1) p + count_list (Q 2) p = (if queued Q p then 1 else 0)"
proof -
  have d: "distinct (map snode (Q 0 @ Q 1 @ Q 2))" using assms by (simp add: mlfq_rep_def)
  then have "distinct (Q 0 @ Q 1 @ Q 2)" by (simp only: distinct_map)
  then have "count_list (Q 0 @ Q 1 @ Q 2) p = (if p \<in> set (Q 0 @ Q 1 @ Q 2) then 1 else 0)"
    by (rule count_distinct)
  then show ?thesis by (auto simp: queued_three)
qed





text \<open>C6: highest priority first, oldest first.  A pass of the scheduler over well-formed queues takes the
  head of the first level that is not empty, marks that process running and makes it the current task; it
  idles only when every level is empty.\<close>

theorem scheduler_pick_priority:
  assumes "sched_inv s Q sp InSched"
  shows "case scheduler_pick ra s of
      Inl e \<Rightarrow> False
    | Inr (Idle, s') \<Rightarrow> (\<forall>i<3. Q i = []) \<and> sched_inv s' Q sp InSched
    | Inr (Picked p l, s') \<Rightarrow>
        0 \<le> l \<and> (\<forall>j<nat l. Q j = []) \<and> Q (nat l) = p # tl (Q (nat l)) \<and> task s' = Proc p \<and>
        pstate (processes s' ! p) = RUNNING \<and> sched_inv s' (Q(nat l := tl (Q (nat l)))) sp (InProc p l)"
  using scheduler_pick_step [OF assms, of ra] sched_inv_task by auto

theorem scheduler_pick_priority_witness:
  "case scheduler_pick 0 abab_state of Inl e \<Rightarrow> False | Inr (Idle, s') \<Rightarrow> False
    | Inr (Picked p l, s') \<Rightarrow> p = 1 \<and> l = 0 \<and> task s' = Proc 1"
proof -
  obtain s' where "scheduler_pick 0 abab_state = Inr (Picked 1 0, s')" by (rule abab_pick)
  then show ?thesis using scheduler_pick_priority [OF abab_inv, of 0] by simp
qed



text \<open>C9: no queued process starves.  When the picked processes keep yielding, every process on a queue is served
  within a number of turns that the queue lengths bound.\<close>

theorem no_starvation:
  assumes "sched_inv s Q sp InSched" "queued Q p"
  shows "p \<in> set (fst (rounds (3 * length (Q 0) + 2 * length (Q 1) + length (Q 2)) ra f s))"
proof -
  let ?n = "length (Q 0) + length (Q 1 @ Q 0) + length (Q 2 @ Q 1 @ Q 0)"
  have n: "?n = 3 * length (Q 0) + 2 * length (Q 1) + length (Q 2)" by simp
  have "p \<in> set (fst (turns ?n (three Q)))"
    unfolding three_def turns_all using assms(2) by (auto simp: queued_three)
  then show ?thesis
    using rounds_turns [OF assms(1), of ?n ra f] unfolding n by auto
qed

theorem no_starvation_witness: "2 \<in> set (fst (rounds 6 0 0 abab_state))"
  using no_starvation [OF abab_inv, of 2 0 0] by (simp add: queued_three abab_queues_def)

text \<open>The order in which processes are served.  The kernel's turns follow the abstract queue turn by turn.\<close>

lemma rounds_refine_turns:
  assumes "sched_inv s Q sp InSched"
  shows "fst (rounds n ra f s) = fst (turns n (three Q)) \<and>
    (\<exists>Q'. three Q' = snd (turns n (three Q)) \<and> sched_inv (snd (rounds n ra f s)) Q' sp InSched)"
  using rounds_turns [OF assms, of n ra f] by auto

lemma rounds_refine_turns_witness: "fst (rounds 4 0 0 abab_state) = [1, 2, 1, 0]"
  using rounds_refine_turns [OF abab_inv, of 4 0 0]
  by (simp add: three_def abab_queues_def numeral_eq_Suc)

text \<open>The A/B test alternates.  From the state init leaves (A on the top level, B on the middle one, init on
  the bottom one) A and B are served alternately for ever: A, B, A once on their way down, then B and A
  in turn in the bottom level.\<close>

lemma abab_alternates:
  "filter (\<lambda>p. p \<noteq> 0) (fst (rounds (3 + 3 * k) ra f abab_state)) = concat (replicate k [1, 2]) @ [1, 2, 1]"
proof -
  have t: "turns 3 ([1], [2], [0]) = ([1, 2, 1], [], [], [0, 2, 1])" by (simp add: numeral_3_eq_3)
  have "turns (3 + 3 * k) ([1], [2], [0]) = ([1, 2, 1] @ concat (replicate k [0, 2, 1]), [], [], [0, 2, 1])"
    using turns_add [of 3 "([1], [2], [0])" "3 * k"] turns_low [of "[0, 2, 1]" k] t
    by (cases "turns (3 + 3 * k) ([1], [2], [0])") (simp add: ac_simps numeral_3_eq_3)
  moreover have "three abab_queues = ([1], [2], [0])" by (simp add: three_def abab_queues_def)
  ultimately have "fst (rounds (3 + 3 * k) ra f abab_state) = [1, 2, 1] @ concat (replicate k [0, 2, 1])"
    using rounds_turns [OF abab_inv, of "3 + 3 * k" ra f] by auto
  moreover have "[1, 2, 1] @ filter (\<lambda>p. p \<noteq> 0) (concat (replicate k [0, 2, 1])) =
      concat (replicate k [1, 2]) @ [1, 2, 1::nat]"
    by (induction k) simp_all
  ultimately show ?thesis by simp
qed



end
