(* ===== verification/Cstring.thy ===== *)
theory Cstring
  imports Prelude "HOL-Library.Signed_Division"
begin

text \<open>
  The string functions of \<^verbatim>\<open>libc/string/string.c\<close>.  Memory is a function from addresses to bytes;
  addresses are natural numbers, because an object of C does not wrap around the address space.
  \<^verbatim>\<open>char\<close> is signed on both targets.  A string that is never terminated makes \<open>strlen\<close> diverge, which
  is \<open>None\<close>; the panic of \<open>strcmp\<close> is \<open>Inl\<close>.
\<close>

type_synonym bytes = "nat \<Rightarrow> u8"

section \<open>Blocks of memory\<close>

primrec memcmp :: "nat \<Rightarrow> nat \<Rightarrow> nat \<Rightarrow> bytes \<Rightarrow> int" where
  "memcmp 0 a b m = 0"
| "memcmp (Suc n) a b m =
     (if m a < m b then -1 else if m b < m a then 1 else memcmp n (Suc a) (Suc b) m)"

primrec copy_up :: "nat \<Rightarrow> nat \<Rightarrow> nat \<Rightarrow> bytes \<Rightarrow> bytes" where
  "copy_up 0 dst src m = m"
| "copy_up (Suc n) dst src m = copy_up n (Suc dst) (Suc src) (m(dst := m src))"

primrec copy_down :: "nat \<Rightarrow> nat \<Rightarrow> nat \<Rightarrow> bytes \<Rightarrow> bytes" where
  "copy_down 0 dst src m = m"
| "copy_down (Suc n) dst src m = copy_down n dst src (m(dst + n := m (src + n)))"

definition memcpy :: "nat \<Rightarrow> nat \<Rightarrow> nat \<Rightarrow> bytes \<Rightarrow> bytes" where
  "memcpy dst src sz m = copy_up sz dst src m"

definition memmove :: "nat \<Rightarrow> nat \<Rightarrow> nat \<Rightarrow> bytes \<Rightarrow> bytes" where
  "memmove dst src sz m = (if dst < src then copy_up sz dst src m else copy_down sz dst src m)"

primrec memset :: "nat \<Rightarrow> int \<Rightarrow> nat \<Rightarrow> bytes \<Rightarrow> bytes" where
  "memset buf val 0 m = m"
| "memset buf val (Suc n) m = (memset buf val n m)(buf + n := word_of_int val)"

section \<open>Strings\<close>

partial_function (option) strlen_loop :: "nat \<Rightarrow> nat \<Rightarrow> bytes \<Rightarrow> nat option" where
  "strlen_loop str len m = (if m (str + len) = 0 then Some len else strlen_loop str (Suc len) m)"

definition strlen :: "nat \<Rightarrow> bytes \<Rightarrow> nat option" where
  "strlen str m = strlen_loop str 0 m"

primrec strnlen :: "nat \<Rightarrow> nat \<Rightarrow> bytes \<Rightarrow> nat" where
  "strnlen str 0 m = 0"
| "strnlen str (Suc n) m = (if m str = 0 then 0 else Suc (strnlen (Suc str) n m))"

primrec strncmp :: "nat \<Rightarrow> nat \<Rightarrow> nat \<Rightarrow> bytes \<Rightarrow> int" where
  "strncmp s1 s2 0 m = 0"
| "strncmp s1 s2 (Suc n) m =
     (if m s1 = 0 \<or> m s2 = 0 then sint (m s1) - sint (m s2)
      else if m s1 \<noteq> m s2 then sint (m s1) - sint (m s2)
      else strncmp (Suc s1) (Suc s2) n m)"

definition MAX_STRCMP_COMPARISONS :: nat where "MAX_STRCMP_COMPARISONS = 1000"

primrec strcmp_loop :: "nat \<Rightarrow> nat \<Rightarrow> nat \<Rightarrow> bytes \<Rightarrow> string + int" where
  "strcmp_loop 0 s1 s2 m = Inl ''strcmp exceeded MAX_STRCMP_COMPARISONS''"
| "strcmp_loop (Suc n) s1 s2 m =
     (if m s1 = 0 \<or> m s2 = 0 then Inr (sint (m s1) - sint (m s2))
      else if m s1 \<noteq> m s2 then Inr (sint (m s1) - sint (m s2))
      else strcmp_loop n (Suc s1) (Suc s2) m)"

definition strcmp :: "nat \<Rightarrow> nat \<Rightarrow> bytes \<Rightarrow> string + int" where
  "strcmp s1 s2 m = strcmp_loop MAX_STRCMP_COMPARISONS s1 s2 m"

section \<open>Numbers\<close>

text \<open>The first loop of \<^verbatim>\<open>itoa\<close>: the digits in the local array, least significant first, and the value of \<^verbatim>\<open>i\<close>
  at its end.  Division and remainder truncate, as in C.\<close>

function itoa_loop :: "nat \<Rightarrow> int \<Rightarrow> int list \<Rightarrow> int list \<times> nat" where
  "itoa_loop i num stack =
     (if i < 11 then
        let stack' = stack[i := num smod 10]; num' = num sdiv 10
        in if num' = 0 then (stack', i) else itoa_loop (Suc i) num' stack'
      else (stack, i))"
  by pat_completeness auto
termination by (relation "measure (\<lambda>(i, num, stack). 11 - i)") auto

text \<open>Consecutive stores at \<open>dest\<close>.\<close>

primrec put_bytes :: "nat \<Rightarrow> u8 list \<Rightarrow> bytes \<Rightarrow> bytes" where
  "put_bytes dest [] m = m"
| "put_bytes dest (x # xs) m = put_bytes (Suc dest) xs (m(dest := x))"

definition itoa :: "nat \<Rightarrow> int \<Rightarrow> bytes \<Rightarrow> bytes" where
  "itoa dest num m =
     (let (stack, i) = itoa_loop 0 num (replicate 12 0)
      in put_bytes dest (map (\<lambda>k. word_of_int (stack ! (i - k) + 48)) [0..<Suc i] @ [0]) m)"

function itoa_hex_loop :: "nat \<Rightarrow> u32 \<Rightarrow> u8 list \<Rightarrow> u8 list \<times> nat" where
  "itoa_hex_loop i num stack =
     (if i < 8 \<and> 0 < num then
        let digit = num mod 16
        in itoa_hex_loop (Suc i) (num div 16)
             (stack[i := if digit < 10 then ucast (digit + 48) else ucast (digit - 10 + 97)])
      else (stack, i))"
  by pat_completeness auto
termination by (relation "measure (\<lambda>(i, num, stack). 8 - i)") auto

definition itoa_hex :: "nat \<Rightarrow> u32 \<Rightarrow> bytes \<Rightarrow> bytes" where
  "itoa_hex dest num m =
     (if num = 0 then put_bytes dest [48, 0] m
      else let (stack, i) = itoa_hex_loop 0 num (replicate 9 0)
           in put_bytes dest (map (\<lambda>k. stack ! (i - 1 - k)) [0..<i] @ [0]) m)"

section \<open>Proofs\<close>

text \<open>The bytes from an address on, and what it means that a string is stored there.\<close>

definition block :: "bytes \<Rightarrow> nat \<Rightarrow> nat \<Rightarrow> u8 list" where
  "block m a n = map (\<lambda>k. m (a + k)) [0..<n]"

definition cstring :: "bytes \<Rightarrow> nat \<Rightarrow> u8 list \<Rightarrow> bool" where
  "cstring m a s \<longleftrightarrow> block m a (length s) = s \<and> m (a + length s) = 0 \<and> 0 \<notin> set s"

lemma block_Suc: "block m a (Suc n) = m a # block m (Suc a) n"
  by (simp add: block_def upt_conv_Cons map_Suc_upt [symmetric] o_def del: upt_Suc)

lemma cstring_Nil [simp]: "cstring m a [] \<longleftrightarrow> m a = 0"
  by (simp add: cstring_def block_def)

lemma cstring_Cons [simp]: "cstring m a (x # s) \<longleftrightarrow> m a = x \<and> x \<noteq> 0 \<and> cstring m (Suc a) s"
  by (auto simp: cstring_def block_Suc)

lemma copy_up_apply:
  assumes "dst \<le> src \<or> src + n \<le> dst"
  shows "copy_up n dst src m a = (if dst \<le> a \<and> a < dst + n then m (src + (a - dst)) else m a)"
  using assms
proof (induction n arbitrary: dst src m)
  case (Suc n)
  have "copy_up n (Suc dst) (Suc src) (m(dst := m src)) a =
      (if Suc dst \<le> a \<and> a < Suc dst + n then (m(dst := m src)) (Suc src + (a - Suc dst))
       else (m(dst := m src)) a)"
    by (rule Suc.IH) (use Suc.prems in auto)
  also have "\<dots> = (if dst \<le> a \<and> a < dst + Suc n then m (src + (a - dst)) else m a)"
    using Suc.prems by (cases "a = dst") (auto simp: Suc_diff_Suc)
  finally show ?case by simp
qed auto

lemma copy_down_apply:
  assumes "src \<le> dst"
  shows "copy_down n dst src m a = (if dst \<le> a \<and> a < dst + n then m (src + (a - dst)) else m a)"
  using assms by (induction n arbitrary: m) auto

lemma memmove_apply:
  "memmove dst src n m a = (if dst \<le> a \<and> a < dst + n then m (src + (a - dst)) else m a)"
  by (simp add: memmove_def copy_up_apply copy_down_apply)

lemma strlen_loop_cstring: "cstring m (a + len) s \<Longrightarrow> strlen_loop a len m = Some (len + length s)"
proof (induction s arbitrary: len)
  case Nil
  then show ?case by (subst strlen_loop.simps) simp
next
  case (Cons x s)
  then show ?case using Cons.IH [of "Suc len"] by (subst strlen_loop.simps) simp
qed

lemma sint_diff_eq_0: "sint a - sint b = 0 \<longleftrightarrow> a = (b :: u8)"
  by (metis eq_iff_diff_eq_0 signed_word_eqI)

lemma strcmp_loop_cstring:
  assumes "cstring m a s" "cstring m b t" "min (length s) (length t) < n"
  shows "\<exists>d. strcmp_loop n a b m = Inr d \<and> (d = 0 \<longleftrightarrow> s = t)"
  using assms
proof (induction s arbitrary: a b t n)
  case Nil
  then show ?case using sint_diff_eq_0 [of 0] by (cases n; cases t) auto
next
  case (Cons x s)
  then show ?case
    using sint_diff_eq_0 [of _ 0] by (cases n; cases t) (auto simp: sint_diff_eq_0 simp del: right_minus_eq)
qed

section \<open>Number formatting\<close>

text \<open>The reference: the digits of a number in a base, most significant first.\<close>

fun radix :: "nat \<Rightarrow> nat \<Rightarrow> nat list" where
  "radix b n = (if b < 2 \<or> n < b then [n] else radix b (n div b) @ [n mod b])"

declare radix.simps [simp del]

lemma radix_digit: "2 \<le> b \<Longrightarrow> d \<in> set (radix b n) \<Longrightarrow> d < b"
  by (induction b n rule: radix.induct) (subst (asm) (2) radix.simps, auto split: if_splits)

lemma radix_value: "2 \<le> b \<Longrightarrow> foldl (\<lambda>a d. a * b + d) 0 (radix b n) = n"
  by (induction b n rule: radix.induct) (subst radix.simps, auto)

lemma radix_not_Nil [simp]: "radix b n \<noteq> []"
  by (subst radix.simps) simp

lemma radix_hd: "2 \<le> b \<Longrightarrow> hd (radix b n) = 0 \<Longrightarrow> n = 0"
proof (induction b n rule: radix.induct)
  case (1 b n)
  show ?case
  proof (cases "n < b")
    case True
    then show ?thesis using 1 by (subst (asm) radix.simps) simp
  next
    case False
    have "hd (radix b n) = hd (radix b (n div b))"
      using False 1(2) by (subst radix.simps) simp
    then have "n div b = 0" using 1 False by simp
    then show ?thesis using False 1(2) by (simp add: div_eq_0_iff)
  qed
qed

lemma radix_length:
  assumes "2 \<le> b" "n < b ^ k" "0 < k"
  shows "length (radix b n) \<le> k"
  using assms
proof (induction b n arbitrary: k rule: radix.induct)
  case (1 b n)
  show ?case
  proof (cases "n < b")
    case True
    then show ?thesis using 1 by (subst radix.simps) simp
  next
    case False
    then obtain j where k: "k = Suc j" "0 < j"
      using 1 by (cases k; cases "k - 1") auto
    have "n div b < b ^ j" using 1(3) k by (simp add: less_mult_imp_div_less mult.commute)
    then have "length (radix b (n div b)) \<le> j" using 1(1) [of j] False 1(2) k by simp
    then show ?thesis using False 1(2) k by (subst radix.simps) simp
  qed
qed

lemma put_bytes_frame: "a < dest \<or> dest + length xs \<le> a \<Longrightarrow> put_bytes dest xs m a = m a"
  by (induction xs arbitrary: dest m) auto

lemma put_bytes_block: "block (put_bytes dest xs m) dest (length xs) = xs"
proof (induction xs arbitrary: dest m)
  case (Cons x xs)
  then show ?case by (simp add: block_Suc put_bytes_frame)
qed (simp add: block_def)

lemma put_bytes_cstring: "0 \<notin> set s \<Longrightarrow> cstring (put_bytes dest (s @ [0]) m) dest s"
proof (induction s arbitrary: dest m)
  case (Cons x s)
  then show ?case by (simp add: put_bytes_frame)
qed simp

lemma map_nth_rev: "i < length xs \<Longrightarrow> map (\<lambda>k. xs ! (i - k)) [0..<Suc i] = rev (take (Suc i) xs)"
  by (rule nth_equalityI) (auto simp: rev_nth min_absorb2 nth_append less_Suc_eq_le simp del: upt_Suc)

lemma int_digit: "int n smod 10 = int (n mod 10)" "int n sdiv 10 = int (n div 10)"
  by (simp_all add: signed_modulo_int_def signed_divide_int_def zmod_int zdiv_int sgn_if)

declare itoa_loop.simps [simp del] itoa_hex_loop.simps [simp del]

lemma itoa_loop_radix:
  assumes "n < 10 ^ (11 - i)" "i < 11" "length stack = 12"
  shows "itoa_loop i (int n) stack =
    (take i stack @ map int (rev (radix 10 n)) @ drop (i + length (radix 10 n)) stack, i + length (radix 10 n) - 1)"
  using assms
proof (induction "10::nat" n arbitrary: i stack rule: radix.induct)
  case (1 n)
  have upd: "stack[i := v] = take i stack @ v # drop (Suc i) stack" for v
    using 1 by (simp add: upd_conv_take_nth_drop)
  show ?case
  proof (cases "n < 10")
    case True
    then have "radix 10 n = [n]" by (subst radix.simps) simp
    then show ?thesis
      using True 1(3) by (subst itoa_loop.simps) (simp add: int_digit upd)
  next
    case False
    have r: "radix 10 n = radix 10 (n div 10) @ [n mod 10]" using False by (subst radix.simps) simp
    have "Suc i < 11"
    proof (rule ccontr)
      assume "\<not> Suc i < 11" then have "i = 10" using 1(3) by simp
      then show False using 1(2) False by simp
    qed
    moreover have "n div 10 < 10 ^ (11 - Suc i)"
    proof -
      have "11 - i = Suc (11 - Suc i)" using 1(3) by simp
      then show ?thesis using 1(2) by (simp add: less_mult_imp_div_less mult.commute)
    qed
    ultimately have "itoa_loop (Suc i) (int (n div 10)) (stack[i := int (n mod 10)]) =
      (take (Suc i) (stack[i := int (n mod 10)]) @ map int (rev (radix 10 (n div 10))) @
        drop (Suc i + length (radix 10 (n div 10))) (stack[i := int (n mod 10)]),
       Suc i + length (radix 10 (n div 10)) - 1)"
      using 1(1) [of "Suc i" "stack[i := int (n mod 10)]"] False 1(4) by simp
    then show ?thesis
      using False 1(3,4) by (subst itoa_loop.simps) (simp add: int_digit r take_Suc_conv_app_nth Let_def div_eq_0_iff)
  qed
qed

definition ascii_digit :: "nat \<Rightarrow> u8" where
  "ascii_digit d = (if d < 10 then of_nat (d + 48) else of_nat (d - 10 + 97))"

lemma ascii_digit_nonzero: "d < 16 \<Longrightarrow> ascii_digit d \<noteq> 0"
proof -
  assume "d < 16"
  then have "d \<in> set [0..<16]" by simp
  then show ?thesis by (auto simp: ascii_digit_def upt_rec)
qed

lemma itoa_cstring:
  assumes "n < 10 ^ 11"
  shows "itoa dest (int n) m = put_bytes dest (map ascii_digit (radix 10 n) @ [0]) m"
proof -
  let ?r = "radix 10 n" and ?z = "replicate 12 (0::int)"
  let ?s = "map int (rev ?r) @ drop (length ?r) ?z"
  have len: "length ?r \<le> 11" "0 < length ?r" using radix_length [of 10 n 11] assms by simp_all
  then have i: "length ?r - 1 < length ?s" by simp
  have l: "itoa_loop 0 (int n) ?z = (?s, length ?r - 1)"
    using itoa_loop_radix [of n 0 ?z] assms by simp
  have "map (\<lambda>k. ?s ! (length ?r - 1 - k)) [0..<Suc (length ?r - 1)] = map int ?r"
    using map_nth_rev [OF i] len(2) by (simp add: rev_map)
  then have "map (\<lambda>k. word_of_int (?s ! (length ?r - 1 - k) + 48)) [0..<Suc (length ?r - 1)] =
      map (\<lambda>d. word_of_int (d + 48) :: u8) (map int ?r)"
    by (metis (no_types, lifting) comp_apply map_map map_eq_conv)
  also have "\<dots> = map ascii_digit ?r"
    using radix_digit [of 10 _ n] by (auto simp: ascii_digit_def)
  finally show ?thesis unfolding itoa_def l by (simp del: upt_Suc)
qed

lemma itoa_hex_loop_radix:
  assumes "n < 16 ^ (8 - i)" "0 < n" "i < 8" "length stack = 9"
  shows "itoa_hex_loop i (of_nat n) stack =
    (take i stack @ map ascii_digit (rev (radix 16 n)) @ drop (i + length (radix 16 n)) stack, i + length (radix 16 n))"
  using assms
proof (induction "16::nat" n arbitrary: i stack rule: radix.induct)
  case (1 n)
  have upd: "stack[i := v] = take i stack @ v # drop (Suc i) stack" for v
    using 1 by (simp add: upd_conv_take_nth_drop)
  have small: "n < 2 ^ 32"
  proof -
    have "(16::nat) ^ (8 - i) \<le> 16 ^ 8" by (rule power_increasing) simp_all
    then show ?thesis using 1(2) by simp
  qed
  have d: "(of_nat n :: u32) mod 16 = of_nat (n mod 16)" "(of_nat n :: u32) div 16 = of_nat (n div 16)" "0 < (of_nat n :: u32)"
    using small 1(3) by (simp_all add: word_arith_nat_mod word_arith_nat_div word_less_nat_alt unat_of_nat take_bit_nat_eq_self)
  have dig: "(if (of_nat (n mod 16) :: u32) < 10 then ucast (of_nat (n mod 16) + 48 :: u32) else ucast (of_nat (n mod 16) - 10 + 97 :: u32)) =
      ascii_digit (n mod 16)"
  proof -
    have "n mod 16 \<in> set [0..<16]" by simp
    then show ?thesis by (auto simp: ascii_digit_def upt_rec)
  qed
  have step: "itoa_hex_loop i (of_nat n) stack = itoa_hex_loop (Suc i) (of_nat (n div 16)) (stack[i := ascii_digit (n mod 16)])"
    using 1(4) d dig by (subst itoa_hex_loop.simps) (simp add: Let_def)
  show ?case
  proof (cases "n < 16")
    case True
    then have "radix 16 n = [n]" by (subst radix.simps) simp
    moreover have "itoa_hex_loop (Suc i) 0 st = (st, Suc i)" for st
      by (subst itoa_hex_loop.simps) simp
    ultimately show ?thesis using step True by (simp add: upd)
  next
    case False
    have r: "radix 16 n = radix 16 (n div 16) @ [n mod 16]" using False by (subst radix.simps) simp
    have "Suc i < 8"
    proof (rule ccontr)
      assume "\<not> Suc i < 8" then have "i = 7" using 1(4) by simp
      then show False using 1(2) False by simp
    qed
    moreover have "n div 16 < 16 ^ (8 - Suc i)"
    proof -
      have "8 - i = Suc (8 - Suc i)" using 1(4) by simp
      then show ?thesis using 1(2) by (simp add: less_mult_imp_div_less mult.commute)
    qed
    moreover have "0 < n div 16" using False by (simp add: div_greater_zero_iff)
    ultimately show ?thesis
      using 1(1) [of "Suc i" "stack[i := ascii_digit (n mod 16)]"] False 1(4,5)
      by (simp add: step r take_Suc_conv_app_nth)
  qed
qed

lemma itoa_hex_cstring: "itoa_hex dest x m = put_bytes dest (map ascii_digit (radix 16 (unat x)) @ [0]) m"
proof (cases "x = 0")
  case True
  then show ?thesis by (simp add: itoa_hex_def radix.simps ascii_digit_def)
next
  case False
  let ?r = "radix 16 (unat x)" and ?z = "replicate 9 (0::u8)"
  let ?s = "map ascii_digit (rev ?r) @ drop (length ?r) ?z"
  have n: "unat x < 16 ^ 8" "0 < unat x" using unat_lt [of x] False by (simp_all add: unat_gt_0)
  have len: "length ?r \<le> 8" "0 < length ?r" using radix_length [of 16 "unat x" 8] n by simp_all
  then have i: "length ?r - 1 < length ?s" by simp
  have l: "itoa_hex_loop 0 x ?z = (?s, length ?r)"
    using itoa_hex_loop_radix [of "unat x" 0 ?z] n by simp
  have "map (\<lambda>k. ?s ! (length ?r - 1 - k)) [0..<length ?r] = map ascii_digit ?r"
    using map_nth_rev [OF i] len(2) by (simp add: rev_map)
  then show ?thesis unfolding itoa_hex_def l using False by simp
qed

end
