(* ===== verification/Acpi.thy ===== *)
theory Acpi
  imports Paging64 Paging32 Cstring "HOL-Library.Monad_Syntax"
begin

text \<open>
  Discovery of the interrupt controllers: the ACPI root pointer and the system tables of
  \<^verbatim>\<open>kernel/apic/rsdp.c\<close>, and the multiple APIC description table of \<^verbatim>\<open>kernel/apic/madt.c\<close>.

  The firmware's tables are bytes of memory at the addresses the code computes; the structures of
  \<^verbatim>\<open>rsdp.h\<close> and \<^verbatim>\<open>madt.h\<close> are packed, so a field is the little-endian number at its offset.
  The page tables are the state of theories Paging64 and Paging32, and the calls that map a table before it
  is read are part of the model; None stands for a loop that does not end.
\<close>

section \<open>Fields of packed structures\<close>

primrec rd :: "bytes \<Rightarrow> nat \<Rightarrow> nat \<Rightarrow> nat" where
  "rd mem a 0 = 0"
| "rd mem a (Suc n) = unat (mem a) + 256 * rd mem (Suc a) n"

definition rd16 :: "bytes \<Rightarrow> nat \<Rightarrow> u16" where "rd16 mem a = of_nat (rd mem a 2)"
definition rd32 :: "bytes \<Rightarrow> nat \<Rightarrow> u32" where "rd32 mem a = of_nat (rd mem a 4)"
definition rd64 :: "bytes \<Rightarrow> nat \<Rightarrow> u64" where "rd64 mem a = of_nat (rd mem a 8)"

definition rsdp_revision :: "bytes \<Rightarrow> nat \<Rightarrow> u8" where "rsdp_revision mem a = mem (a + 15)"
definition rsdt_addr :: "bytes \<Rightarrow> nat \<Rightarrow> u32" where "rsdt_addr mem a = rd32 mem (a + 16)"
definition xsdp_length :: "bytes \<Rightarrow> nat \<Rightarrow> u32" where "xsdp_length mem a = rd32 mem (a + 20)"
definition xsdt_addr :: "bytes \<Rightarrow> nat \<Rightarrow> u64" where "xsdt_addr mem a = rd64 mem (a + 24)"

definition table_length :: "bytes \<Rightarrow> nat \<Rightarrow> u32" where "table_length mem a = rd32 mem (a + 4)"
definition rsdt_entry :: "bytes \<Rightarrow> nat \<Rightarrow> nat \<Rightarrow> u32" where "rsdt_entry mem a i = rd32 mem (a + 36 + 4 * i)"
definition xsdt_entry :: "bytes \<Rightarrow> nat \<Rightarrow> nat \<Rightarrow> u64" where "xsdt_entry mem a i = rd64 mem (a + 36 + 8 * i)"

text \<open>\<^verbatim>\<open>strncmp\<close> of a signature with a literal of the same length (lemma \<open>strncmp_literal\<close>).\<close>

definition signature_is :: "bytes \<Rightarrow> nat \<Rightarrow> u8 list \<Rightarrow> bool" where
  "signature_is mem a sig \<longleftrightarrow> block mem a (length sig) = sig"

text \<open>\<^verbatim>\<open>"RSD PTR "\<close> and \<^verbatim>\<open>"APIC"\<close>\<close>

definition sig_rsdp :: "u8 list" where "sig_rsdp = [82, 83, 68, 32, 80, 84, 82, 32]"
definition sig_apic :: "u8 list" where "sig_apic = [65, 80, 73, 67]"

section \<open>The root pointer\<close>

text \<open>The checksum loops, from index \<open>i\<close> with the sum so far.\<close>

primrec sum_bytes :: "nat \<Rightarrow> bytes \<Rightarrow> nat \<Rightarrow> u8 \<Rightarrow> u8" where
  "sum_bytes 0 mem a checksum = checksum"
| "sum_bytes (Suc n) mem a checksum = sum_bytes n mem (Suc a) (checksum + mem a)"

definition validate_rsdp_checksum :: "bytes \<Rightarrow> nat \<Rightarrow> u32" where
  "validate_rsdp_checksum mem rsdp =
     (if rsdp = 0 then 1
      else if sum_bytes 20 mem rsdp 0 \<noteq> 0 then 2
      else if rsdp_revision mem rsdp \<ge> 2 \<and> sum_bytes (unat (xsdp_length mem rsdp)) mem rsdp 0 \<noteq> 0 then 3
      else 0)"

text \<open>The two search loops of \<^verbatim>\<open>find_rsdp\<close>, which step by 16 bytes; \<open>n\<close> is the number of rounds left.\<close>

primrec scan_rsdp :: "nat \<Rightarrow> bytes \<Rightarrow> nat \<Rightarrow> nat option" where
  "scan_rsdp 0 mem a = None"
| "scan_rsdp (Suc n) mem a =
     (if signature_is mem a sig_rsdp \<and> validate_rsdp_checksum mem a = 0 then Some a
      else scan_rsdp n mem (a + 16))"

definition find_rsdp :: "bytes \<Rightarrow> nat" where
  "find_rsdp mem =
     (let ebda_addr = unat (rd16 mem 0x40E) * 16
      in case scan_rsdp (1024 div 16) mem ebda_addr of
           Some a \<Rightarrow> a
         | None \<Rightarrow> (case scan_rsdp ((0x100000 - 0xE0000) div 16) mem 0xE0000 of Some a \<Rightarrow> a | None \<Rightarrow> 0))"

section \<open>The system tables\<close>

text \<open>\<^verbatim>\<open>num_entries\<close>: \<^verbatim>\<open>sizeof\<close> has the width of the target's pointers, and the quotient is stored in 32 bits.\<close>

definition num_entries64 :: "u32 \<Rightarrow> u64 \<Rightarrow> u32" where
  "num_entries64 len sz = ucast ((ucast len - 36) div sz)"

definition num_entries32 :: "u32 \<Rightarrow> u32 \<Rightarrow> u32" where
  "num_entries32 len sz = (len - 36) div sz"

text \<open>The loop over the entries on x86-64: \<open>entry\<close> reads the physical address of table \<open>i\<close>, and
  \<open>n\<close> entries are left.\<close>

primrec search_tables :: "nat \<Rightarrow> bytes \<Rightarrow> (nat \<Rightarrow> u64) \<Rightarrow> nat \<Rightarrow> mm \<Rightarrow> (virt_addr \<times> mm) option" where
  "search_tables 0 mem entr i s = Some (0, s)"
| "search_tables (Suc n) mem entr i s =
     (let table_phys = entr i
      in do {
        s1 \<leftarrow> map_physical_range table_phys 4096 True True (read_cr3 s) s;
        let table_virt = table_phys + hhdm_offset s1;
        if signature_is mem (unat table_virt) sig_apic then Some (table_virt, s1)
        else search_tables n mem entr (Suc i) s1
      })"

definition find_madt_xsdt :: "bytes \<Rightarrow> virt_addr \<Rightarrow> mm \<Rightarrow> (virt_addr \<times> mm) option" where
  "find_madt_xsdt mem rsdp s =
     (let xsdt_phys = xsdt_addr mem (unat rsdp)
      in do {
        s1 \<leftarrow> map_physical_range xsdt_phys 4096 True True (read_cr3 s) s;
        let xsdt = unat (xsdt_phys + hhdm_offset s1);
        search_tables (unat (num_entries64 (table_length mem xsdt) 8)) mem (xsdt_entry mem xsdt) 0 s1
      })"

definition find_madt_rsdt :: "bytes \<Rightarrow> virt_addr \<Rightarrow> mm \<Rightarrow> (virt_addr \<times> mm) option" where
  "find_madt_rsdt mem rsdp s =
     (let rsdt_phys = ucast (rsdt_addr mem (unat rsdp)) :: u64
      in do {
        s1 \<leftarrow> map_physical_range rsdt_phys 4096 True True (read_cr3 s) s;
        let rsdt = unat (rsdt_phys + hhdm_offset s1);
        search_tables (unat (num_entries64 (table_length mem rsdt) 4)) mem
          (\<lambda>i. ucast (rsdt_entry mem rsdt i)) 0 s1
      })"

definition find_madt :: "bytes \<Rightarrow> virt_addr \<Rightarrow> mm \<Rightarrow> (virt_addr \<times> mm) option" where
  "find_madt mem rsdp s =
     (if rsdp = 0 then Some (0, s)
      else if rsdp_revision mem (unat rsdp) \<ge> 2 then find_madt_xsdt mem rsdp s
      else find_madt_rsdt mem rsdp s)"

text \<open>The same functions as the i386 build compiles them: tables are read at their physical address, and an
  address outside the window from 4 KiB to 1 GiB is skipped.\<close>

definition table_addr_ok :: "addr32 \<Rightarrow> bool" where
  "table_addr_ok a \<longleftrightarrow> \<not> (a < 0x1000 \<or> a \<ge> 0x40000000)"

primrec search_tables32 :: "nat \<Rightarrow> bytes \<Rightarrow> (nat \<Rightarrow> u32) \<Rightarrow> nat \<Rightarrow> mm32 \<Rightarrow> addr32 \<times> mm32" where
  "search_tables32 0 mem entr i m = (0, m)"
| "search_tables32 (Suc n) mem entr i m =
     (if \<not> table_addr_ok (entr i) then search_tables32 n mem entr (Suc i) m
      else let m1 = map_physical_range32 (entr i) 4096 True True (cr3_32 m) m
           in if signature_is mem (unat (entr i)) sig_apic then (entr i, m1)
              else search_tables32 n mem entr (Suc i) m1)"

definition find_madt_xsdt32 :: "bytes \<Rightarrow> addr32 \<Rightarrow> mm32 \<Rightarrow> addr32 \<times> mm32" where
  "find_madt_xsdt32 mem rsdp m =
     (if xsdt_addr mem (unat rsdp) \<ge> 0x100000000 then (0, m)
      else let xsdt = unat (xsdt_addr mem (unat rsdp))
           in search_tables32 (unat (num_entries32 (table_length mem xsdt) 8)) mem
                (\<lambda>i. ucast (xsdt_entry mem xsdt i)) 0 m)"

definition find_madt_rsdt32 :: "bytes \<Rightarrow> addr32 \<Rightarrow> mm32 \<Rightarrow> addr32 \<times> mm32" where
  "find_madt_rsdt32 mem rsdp m =
     (if \<not> table_addr_ok (rsdt_addr mem (unat rsdp)) then (0, m)
      else let m1 = map_physical_range32 (rsdt_addr mem (unat rsdp)) 4096 True True (cr3_32 m) m;
               rsdt = unat (rsdt_addr mem (unat rsdp))
           in search_tables32 (unat (num_entries32 (table_length mem rsdt) 4)) mem (rsdt_entry mem rsdt) 0 m1)"

definition find_madt32 :: "bytes \<Rightarrow> addr32 \<Rightarrow> mm32 \<Rightarrow> addr32 \<times> mm32" where
  "find_madt32 mem rsdp m =
     (if rsdp = 0 then (0, m)
      else if rsdp_revision mem (unat rsdp) \<ge> 2 then find_madt_xsdt32 mem rsdp m
      else find_madt_rsdt32 mem rsdp m)"

section \<open>The multiple APIC description table\<close>

record irq_override =
  source_irq :: u8
  global_irq :: u32
  override_flags :: u16

text \<open>The statics of \<^verbatim>\<open>madt.c\<close>.\<close>

record madt_info =
  ioapic_address :: u32
  ioapic_irq_base :: u32
  ioapic_id :: u8
  lapic_address :: u32
  irq_overrides :: "irq_override list"
  num_overrides :: nat

definition madt_init :: madt_info where
  "madt_init = \<lparr>ioapic_address = 0, ioapic_irq_base = 0, ioapic_id = 0, lapic_address = 0,
     irq_overrides = replicate 16 \<lparr>source_irq = 0, global_irq = 0, override_flags = 0\<rparr>, num_overrides = 0\<rparr>"

text \<open>The switch on the type of the entry at \<open>e\<close>.  The cases 0, 3, 4, 5, 9 and the default only log.\<close>

definition parse_entry :: "bytes \<Rightarrow> nat \<Rightarrow> madt_info \<Rightarrow> madt_info" where
  "parse_entry mem e st =
     (if mem e = 1 then
        if ioapic_address st = 0 then
          st\<lparr>ioapic_address := rd32 mem (e + 4), ioapic_irq_base := rd32 mem (e + 8), ioapic_id := mem (e + 2)\<rparr>
        else st
      else if mem e = 2 then
        if num_overrides st < 16 then
          st\<lparr>irq_overrides := (irq_overrides st)[num_overrides st :=
                \<lparr>source_irq = mem (e + 3), global_irq = rd32 mem (e + 4), override_flags = rd16 mem (e + 8)\<rparr>],
             num_overrides := num_overrides st + 1\<rparr>
        else st
      else st)"

partial_function (option) parse_entries :: "bytes \<Rightarrow> nat \<Rightarrow> nat \<Rightarrow> madt_info \<Rightarrow> madt_info option" where
  "parse_entries mem e stop st =
     (if e < stop then parse_entries mem (e + unat (mem (e + 1))) stop (parse_entry mem e st) else Some st)"

text \<open>\<^verbatim>\<open>parse_madt\<close> on memory that is mapped already; then with the call that maps it, whose address
  argument is cut to 32 bits.\<close>

definition parse_table :: "bytes \<Rightarrow> nat \<Rightarrow> madt_info \<Rightarrow> madt_info option" where
  "parse_table mem a st =
     parse_entries mem (a + 44) (a + unat (table_length mem a)) (st\<lparr>lapic_address := rd32 mem (a + 36)\<rparr>)"

definition parse_madt :: "bytes \<Rightarrow> virt_addr \<Rightarrow> madt_info \<times> mm \<Rightarrow> (madt_info \<times> mm) option" where
  "parse_madt mem madt_addr = (\<lambda>(st, s). do {
     s1 \<leftarrow> map_physical_range (ucast (ucast madt_addr :: u32)) 0x4000 True True (read_cr3 s) s;
     st1 \<leftarrow> parse_table mem (unat madt_addr) st;
     Some (st1, s1)
   })"

definition parse_madt32 :: "bytes \<Rightarrow> addr32 \<Rightarrow> madt_info \<times> mm32 \<Rightarrow> (madt_info \<times> mm32) option" where
  "parse_madt32 mem madt_addr = (\<lambda>(st, m). do {
     let m1 = map_physical_range32 madt_addr 0x4000 True True (cr3_32 m) m;
     st1 \<leftarrow> parse_table mem (unat madt_addr) st;
     Some (st1, m1)
   })"

text \<open>The loops of the two keyboard queries: the first override of interrupt line 1.\<close>

primrec find_override :: "nat \<Rightarrow> irq_override list \<Rightarrow> nat \<Rightarrow> irq_override option" where
  "find_override 0 ovr i = None"
| "find_override (Suc n) ovr i =
     (if source_irq (ovr ! i) = 1 then Some (ovr ! i) else find_override n ovr (Suc i))"

definition get_lapic_address :: "madt_info \<Rightarrow> u32" where "get_lapic_address st = lapic_address st"
definition get_ioapic_address :: "madt_info \<Rightarrow> u32" where "get_ioapic_address st = ioapic_address st"
definition get_ioapic_id :: "madt_info \<Rightarrow> u8" where "get_ioapic_id st = ioapic_id st"

definition get_keyboard_global_irq :: "madt_info \<Rightarrow> u32" where
  "get_keyboard_global_irq st =
     (case find_override (num_overrides st) (irq_overrides st) 0 of Some r \<Rightarrow> global_irq r | None \<Rightarrow> 1)"

definition get_keyboard_irq_flags :: "madt_info \<Rightarrow> u16" where
  "get_keyboard_irq_flags st =
     (case find_override (num_overrides st) (irq_overrides st) 0 of Some r \<Rightarrow> override_flags r | None \<Rightarrow> 0)"

section \<open>Initialisation\<close>

text \<open>\<open>rsdp_addr\<close> is the global the boot code fills from the boot loader's answer.\<close>

definition initialize_apic :: "bytes \<Rightarrow> virt_addr \<Rightarrow> madt_info \<times> mm \<Rightarrow> (madt_info \<times> mm) option" where
  "initialize_apic mem rsdp_addr = (\<lambda>(st, s).
     if rsdp_addr = 0 then Some (st, s)
     else if validate_rsdp_checksum mem (unat rsdp_addr) \<noteq> 0 then Some (st, s)
     else do {
       (madt, s1) \<leftarrow> find_madt mem rsdp_addr s;
       if madt = 0 then Some (st, s1) else parse_madt mem madt (st, s1)
     })"

definition initialize_apic32 :: "bytes \<Rightarrow> madt_info \<times> mm32 \<Rightarrow> (madt_info \<times> mm32) option" where
  "initialize_apic32 mem = (\<lambda>(st, m).
     let rsdp = find_rsdp mem
     in if rsdp = 0 then Some (st, m)
        else if validate_rsdp_checksum mem rsdp \<noteq> 0 then Some (st, m)
        else let (madt, m1) = find_madt32 mem (of_nat rsdp) m
             in if madt = 0 then Some (st, m1) else parse_madt32 mem madt (st, m1))"

end
