(* ===== verification/Acpi_Proofs.thy ===== *)
theory Acpi_Proofs
  imports Acpi Paging64_Proofs
begin

text \<open>
  What the discovery of the interrupt controllers finds.  The tables of the firmware are described by the
  list of records they encode; the lemmas show that the parser recovers the list's first I/O APIC and its
  first sixteen interrupt overrides, that the search visits the tables in order and maps each before it
  is read, and that a record of length zero makes the parser loop for ever.
\<close>

section \<open>Bytes\<close>

lemma strncmp_literal:
  assumes "block m b n = sig" "0 \<notin> set sig"
  shows "strncmp a b n m = 0 \<longleftrightarrow> block m a n = sig"
  using assms
proof (induction n arbitrary: a b sig)
  case (Suc n)
  have "sint (m a) - sint (m b) = 0 \<longleftrightarrow> m a = m b" by (rule sint_diff_eq_0)
  then show ?case
    using Suc.IH [of "Suc b" "tl sig" "Suc a"] Suc.prems by (auto simp: block_Suc)
qed (simp add: block_def)

primrec le_bytes :: "nat \<Rightarrow> nat \<Rightarrow> u8 list" where
  "le_bytes 0 v = []"
| "le_bytes (Suc n) v = of_nat v # le_bytes n (v div 256)"

lemma length_le_bytes [simp]: "length (le_bytes n v) = n"
  by (induction n arbitrary: v) auto

lemma rd_le_bytes: "block mem a n = le_bytes n v \<Longrightarrow> rd mem a n = v mod 256 ^ n"
proof (induction n arbitrary: a v)
  case (Suc n)
  have "unat (mem a) = v mod 256" "rd mem (Suc a) n = v div 256 mod 256 ^ n"
    using Suc by (auto simp: block_Suc unat_of_nat_mod)
  then show ?case by (simp add: mod_mult2_eq)
qed simp

lemma block_append: "block m a (i + j) = block m a i @ block m (a + i) j"
  by (induction i arbitrary: a) (simp_all add: block_Suc, simp add: block_def)

lemma block_eq_append:
  "block m a n = xs @ ys \<Longrightarrow> block m a (length xs) = xs \<and> block m (a + length xs) (length ys) = ys"
proof -
  assume eq: "block m a n = xs @ ys"
  have "length (block m a n) = n" by (simp add: block_def)
  then have "n = length xs + length ys" using eq by simp
  then show ?thesis using eq by (simp add: block_append) (simp add: block_def)
qed

lemma block_nth: "block m a n = xs \<Longrightarrow> i < n \<Longrightarrow> m (a + i) = xs ! i"
  by (auto simp: block_def)

lemma rd4: "rd mem a 4 = unat (mem a) + 256 * (unat (mem (a + 1)) + 256 * (unat (mem (a + 2)) + 256 * unat (mem (a + 3))))"
proof -
  have four: "4 = Suc (Suc (Suc (Suc 0)))" "a + 3 = Suc (Suc (Suc a))" "a + 2 = Suc (Suc a)" by simp_all
  show ?thesis unfolding four by simp
qed

lemma rd_fields:
  "block mem a 2 = le_bytes 2 (unat (v2 :: u16)) \<Longrightarrow> rd16 mem a = v2"
  "block mem a 4 = le_bytes 4 (unat (v4 :: u32)) \<Longrightarrow> rd32 mem a = v4"
  "block mem a 8 = le_bytes 8 (unat (v8 :: u64)) \<Longrightarrow> rd64 mem a = v8"
  using unat_lt [of v2] unat_lt [of v4] unat_lt [of v8]
  by (auto simp: rd16_def rd32_def rd64_def dest!: rd_le_bytes)

section \<open>The root pointer\<close>

lemma sum_bytes_eq: "sum_bytes n mem a c = c + sum_list (block mem a n)"
  by (induction n arbitrary: a c) (simp_all add: block_Suc add.assoc, simp add: block_def)

definition rsdp_valid :: "bytes \<Rightarrow> nat \<Rightarrow> bool" where
  "rsdp_valid mem a \<longleftrightarrow> a \<noteq> 0 \<and> sum_list (block mem a 20) = 0 \<and>
     (2 \<le> rsdp_revision mem a \<longrightarrow> sum_list (block mem a (unat (xsdp_length mem a))) = 0)"

lemma validate_iff: "validate_rsdp_checksum mem a = 0 \<longleftrightarrow> rsdp_valid mem a"
  by (simp add: validate_rsdp_checksum_def rsdp_valid_def sum_bytes_eq del: sum_bytes.simps)

lemma scan_rsdp_find:
  "scan_rsdp n mem a =
     find (\<lambda>a. signature_is mem a sig_rsdp \<and> rsdp_valid mem a) (map (\<lambda>i. a + 16 * i) [0..<n])"
  by (induction n arbitrary: a) (simp_all add: validate_iff upt_conv_Cons map_Suc_upt [symmetric] o_def
      add.assoc del: upt_Suc)

lemma find_app: "find P (xs @ ys) = (case find P xs of None \<Rightarrow> find P ys | Some x \<Rightarrow> Some x)"
  by (induction xs) auto

section \<open>The parser\<close>

datatype madt_record = IoApic u8 u8 u32 u32 | Override u8 u8 u32 u16 | OtherRec u8 "u8 list"

fun enc :: "madt_record \<Rightarrow> u8 list" where
  "enc (IoApic i r adr base) = [1, 12, i, r] @ le_bytes 4 (unat adr) @ le_bytes 4 (unat base)"
| "enc (Override bus src gsi fl) = [2, 10, bus, src] @ le_bytes 4 (unat gsi) @ le_bytes 2 (unat fl)"
| "enc (OtherRec t payload) = [t, of_nat (2 + length payload)] @ payload"

fun wf_record :: "madt_record \<Rightarrow> bool" where
  "wf_record (IoApic i r adr base) \<longleftrightarrow> adr \<noteq> 0"
| "wf_record (Override bus src gsi fl) \<longleftrightarrow> True"
| "wf_record (OtherRec t payload) \<longleftrightarrow> t \<noteq> 1 \<and> t \<noteq> 2 \<and> length payload \<le> 253"

fun apply_record :: "madt_record \<Rightarrow> madt_info \<Rightarrow> madt_info" where
  "apply_record (IoApic i r adr base) st =
     (if ioapic_address st = 0 then st\<lparr>ioapic_address := adr, ioapic_irq_base := base, ioapic_id := i\<rparr> else st)"
| "apply_record (Override bus src gsi fl) st =
     (if num_overrides st < 16 then
        st\<lparr>irq_overrides := (irq_overrides st)[num_overrides st :=
              \<lparr>source_irq = src, global_irq = gsi, override_flags = fl\<rparr>],
           num_overrides := num_overrides st + 1\<rparr>
      else st)"
| "apply_record (OtherRec t payload) st = st"

lemma enc_length: "wf_record r \<Longrightarrow> block mem e (length (enc r)) = enc r \<Longrightarrow>
    unat (mem (e + 1)) = length (enc r) \<and> 0 < length (enc r)"
  using block_nth [of mem e "length (enc r)" "enc r" 1]
proof (cases r)
  case (OtherRec t payload)
  assume "wf_record r" "block mem e (length (enc r)) = enc r"
  then have "unat (mem (e + 1)) = unat (of_nat (2 + length payload) :: u8)" "2 + length payload < 256"
    using block_nth [of mem e "length (enc r)" "enc r" 1] OtherRec by auto
  then show ?thesis using OtherRec unat_of_nat_small [of "2 + length payload", where 'a = 8] by simp
qed auto

lemma parse_entry_enc:
  assumes "wf_record r" "block mem e (length (enc r)) = enc r"
  shows "parse_entry mem e st = apply_record r st"
proof -
  have four: "e + 4 = Suc (Suc (Suc (Suc e)))" by simp
  show ?thesis
  proof (cases r)
    case (IoApic i rs adr base)
    have "mem e = 1" "mem (e + 2) = i"
      using IoApic block_nth [OF assms(2), of 0] block_nth [OF assms(2), of 2] by simp_all
    moreover have "rd32 mem (e + 4) = adr" "rd32 mem (e + 8) = base"
      using block_eq_append [of mem e 12 "[1, 12, i, rs] @ le_bytes 4 (unat adr)" "le_bytes 4 (unat base)"]
        block_eq_append [of mem e 8 "[1, 12, i, rs]" "le_bytes 4 (unat adr)"] assms(2) IoApic
      by (auto simp: four intro!: rd_fields(2) simp del: le_bytes.simps)
    ultimately show ?thesis using IoApic by (simp add: parse_entry_def)
  next
    case (Override bus src gsi fl)
    have "mem e = 2" "mem (e + 3) = src"
      using Override block_nth [OF assms(2), of 0] block_nth [OF assms(2), of 3] by simp_all
    moreover have "rd32 mem (e + 4) = gsi" "rd16 mem (e + 8) = fl"
      using block_eq_append [of mem e 10 "[2, 10, bus, src] @ le_bytes 4 (unat gsi)" "le_bytes 2 (unat fl)"]
        block_eq_append [of mem e 8 "[2, 10, bus, src]" "le_bytes 4 (unat gsi)"] assms(2) Override
      by (auto simp: four intro!: rd_fields(1,2) simp del: le_bytes.simps)
    ultimately show ?thesis using Override by (simp add: parse_entry_def)
  next
    case (OtherRec t payload)
    then have "mem e = t" using assms(2) by (auto simp: block_Suc)
    then show ?thesis using OtherRec assms(1) by (simp add: parse_entry_def)
  qed
qed

lemma parse_entries_enc:
  assumes "\<forall>r\<in>set recs. wf_record r"
    and "block mem e (length (concat (map enc recs))) = concat (map enc recs)"
  shows "parse_entries mem e (e + length (concat (map enc recs))) st = Some (fold apply_record recs st)"
  using assms
proof (induction recs arbitrary: e st)
  case Nil
  show ?case by (subst parse_entries.simps) simp
next
  case (Cons r recs)
  have b: "block mem e (length (enc r)) = enc r"
    "block mem (e + length (enc r)) (length (concat (map enc recs))) = concat (map enc recs)"
    using block_eq_append [of mem e _ "enc r" "concat (map enc recs)"] Cons.prems(2) by auto
  have "wf_record r" using Cons.prems(1) by simp
  note l = enc_length [OF this b(1)] and p = parse_entry_enc [OF this b(1)]
  show ?case
    using l p Cons.IH [OF _ b(2)] Cons.prems(1)
    by (subst parse_entries.simps) (simp add: add.assoc)
qed

text \<open>What the table says: the first I/O APIC, and the first sixteen overrides.\<close>

definition first_ioapic :: "madt_record list \<Rightarrow> (u8 \<times> u32 \<times> u32) option" where
  "first_ioapic recs =
     (case List.map_filter (\<lambda>r. case r of IoApic i rs adr base \<Rightarrow> Some (i, adr, base) | _ \<Rightarrow> None) recs of
        [] \<Rightarrow> None | x # xs \<Rightarrow> Some x)"

definition overrides :: "madt_record list \<Rightarrow> irq_override list" where
  "overrides recs = List.map_filter (\<lambda>r. case r of
      Override bus src gsi fl \<Rightarrow> Some \<lparr>source_irq = src, global_irq = gsi, override_flags = fl\<rparr> | _ \<Rightarrow> None) recs"

definition table_info :: "u32 \<Rightarrow> madt_record list \<Rightarrow> madt_info" where
  "table_info lapic recs =
     (let (i, adr, base) = (case first_ioapic recs of None \<Rightarrow> (0, 0, 0) | Some x \<Rightarrow> x);
          ovs = take 16 (overrides recs)
      in \<lparr>ioapic_address = adr, ioapic_irq_base = base, ioapic_id = i, lapic_address = lapic,
          irq_overrides = ovs @ replicate (16 - length ovs) \<lparr>source_irq = 0, global_irq = 0, override_flags = 0\<rparr>,
          num_overrides = length ovs\<rparr>)"

lemma overrides_snoc:
  "overrides (recs @ [r]) = overrides recs @
     (case r of Override bus src gsi fl \<Rightarrow> [\<lparr>source_irq = src, global_irq = gsi, override_flags = fl\<rparr>] | _ \<Rightarrow> [])"
  by (cases r) (simp_all add: overrides_def map_filter_def)

lemma first_ioapic_snoc:
  "first_ioapic (recs @ [r]) = (case first_ioapic recs of Some x \<Rightarrow> Some x
     | None \<Rightarrow> (case r of IoApic i rs adr base \<Rightarrow> Some (i, adr, base) | _ \<Rightarrow> None))"
  by (cases r) (auto simp: first_ioapic_def map_filter_def split: list.splits)

lemma first_ioapic_nonzero:
  "\<forall>r\<in>set recs. wf_record r \<Longrightarrow> first_ioapic recs = Some (i, adr, base) \<Longrightarrow> adr \<noteq> 0"
proof (induction recs rule: rev_induct)
  case (snoc r recs)
  then show ?case by (cases r) (auto simp: first_ioapic_snoc split: option.splits)
qed (simp add: first_ioapic_def map_filter_def)

lemma fold_apply_record:
  "\<forall>r\<in>set recs. wf_record r \<Longrightarrow>
     fold apply_record recs (madt_init\<lparr>lapic_address := lapic\<rparr>) = table_info lapic recs"
proof (induction recs rule: rev_induct)
  case Nil
  show ?case by (simp add: table_info_def madt_init_def first_ioapic_def overrides_def map_filter_def)
next
  case (snoc r recs)
  have IH: "fold apply_record recs (madt_init\<lparr>lapic_address := lapic\<rparr>) = table_info lapic recs"
    using snoc by simp
  have nz: "first_ioapic recs = Some (i, adr, base) \<Longrightarrow> adr \<noteq> 0" for i adr base
    using first_ioapic_nonzero [of recs] snoc.prems by auto
  have rep: "(xs @ replicate (16 - length xs) z)[length xs := y] = xs @ y # replicate (15 - length xs) z"
    if "length xs < 16" for xs :: "irq_override list" and y z
    using that by (cases "16 - length xs") (auto simp: list_update_append)
  show ?case
    using nz
    by (cases r) (auto simp: IH table_info_def Let_def first_ioapic_snoc overrides_snoc rep min_def
        split: option.splits prod.splits)
qed

definition holds_madt :: "bytes \<Rightarrow> nat \<Rightarrow> u32 \<Rightarrow> madt_record list \<Rightarrow> bool" where
  "holds_madt mem a lapic recs \<longleftrightarrow>
     (\<forall>r\<in>set recs. wf_record r) \<and> rd32 mem (a + 36) = lapic \<and>
     unat (table_length mem a) = 44 + length (concat (map enc recs)) \<and>
     block mem (a + 44) (length (concat (map enc recs))) = concat (map enc recs)"

lemma parse_table_info: "holds_madt mem a lapic recs \<Longrightarrow> parse_table mem a madt_init = Some (table_info lapic recs)"
  unfolding holds_madt_def parse_table_def
  using parse_entries_enc [of recs mem "a + 44"] fold_apply_record [of recs lapic]
  by (auto simp: add.assoc)

lemma find_override_find:
  "n + i \<le> length ovr \<Longrightarrow> find_override n ovr i = find (\<lambda>r. source_irq r = 1) (take n (drop i ovr))"
  by (induction n arbitrary: i) (auto simp: Cons_nth_drop_Suc [symmetric])

lemma keyboard_override:
  "find_override (num_overrides (table_info lapic recs)) (irq_overrides (table_info lapic recs)) 0 =
     find (\<lambda>r. source_irq r = 1) (take 16 (overrides recs))"
  by (subst find_override_find) (auto simp: table_info_def Let_def min_def split: option.splits prod.splits)

section \<open>A record of length zero\<close>

lemma parse_entries_stuck:
  assumes "parse_entries mem e stop st = Some st'"
  shows "\<not> (e < stop \<and> mem (e + 1) = 0)"
proof -
  have "\<not> (x < y \<and> m (x + 1) = 0)" if "parse_entries m x y z = Some w" for m x y z w
    by (induction rule: parse_entries.raw_induct [OF _ that]) (auto split: if_splits)
  then show ?thesis using assms .
qed

section \<open>Mapping the tables\<close>

definition keeps_mappings :: "mm \<Rightarrow> mm \<Rightarrow> bool" where
  "keeps_mappings s s' \<longleftrightarrow>
     (\<forall>w. translate (pmem s) (reg_cr3 s) w \<noteq> None \<longrightarrow>
        translate (pmem s') (reg_cr3 s) w = translate (pmem s) (reg_cr3 s) w)"

definition page_mapped :: "mm \<Rightarrow> virt_addr \<Rightarrow> bool" where
  "page_mapped s v \<longleftrightarrow> translate (pmem s) (reg_cr3 s) v \<noteq> None"

text \<open>What the calls of \<^verbatim>\<open>map_physical_range\<close> keep, and the room they use.\<close>

definition mapping_step :: "nat \<Rightarrow> mm \<Rightarrow> mm \<Rightarrow> bool" where
  "mapping_step k s s' \<longleftrightarrow> pt_inv s' (reg_cr3 s') k \<and> same_layout s s' \<and> keeps_mappings s s'"

lemma mapping_step_trans:
  assumes "mapping_step j s s'" "mapping_step k s' s''"
  shows "mapping_step k s s''"
  using assms same_layout_trans [of s s' s'']
  unfolding mapping_step_def keeps_mappings_def same_layout_def by metis

lemma mapping_step_mapped: "mapping_step k s s' \<Longrightarrow> page_mapped s v \<Longrightarrow> page_mapped s' v"
  unfolding mapping_step_def keeps_mappings_def same_layout_def page_mapped_def by metis

lemma same_page_offset:
  assumes "unat (hhdm_offset s) mod 4096 = 0"
  shows "same_page (phys_to_virt s (p AND NOT 0xFFF)) (p + hhdm_offset s)"
proof -
  let ?v = "phys_to_virt s (p AND NOT 0xFFF)"
  have "unat ?v = (unat (p AND NOT (mask 12)) + unat (hhdm_offset s)) mod 2 ^ 64"
    by (simp add: phys_to_virt_def mask12 unat_word_ariths)
  then have "unat ?v mod 4096 = (unat (p AND NOT (mask 12)) + unat (hhdm_offset s)) mod 4096"
    by (simp add: mod_mod_cancel)
  also have "\<dots> = 0"
    using assms by (simp add: unat_and_not_mask minus_mod_eq_mult_div mod_eq_0_iff_dvd)
  finally have "?v AND mask 12 = 0"
    by (simp only: word_unat_eq_iff unat_and_mask) simp
  then have low: "k < 12 \<Longrightarrow> \<not> bit ?v k" for k
    by (metis bit_and_iff bit_mask_iff bit_0_eq bot_apply bot_bool_def impossible_bit)
  have "p + hhdm_offset s = ?v + (p AND mask 12)"
    using and_not_mask_add [of p 12] by (simp add: phys_to_virt_def mask12 algebra_simps)
  also have "\<dots> = ?v OR (p AND mask 12)"
    using low by (intro disjunctive_add) (auto simp: bit_simps)
  finally show ?thesis
    by (simp only: same_page_bits) (auto simp: bit_simps)
qed

lemma map_table:
  assumes "unat p + unat sz + 4095 < 2 ^ 64" "pt_inv s (reg_cr3 s) (k + 6 * (unat sz div 4096 + 2))" "sz \<noteq> 0"
  shows "\<exists>s'. map_physical_range p sz True True (read_cr3 s) s = Some s' \<and> mapping_step k s s' \<and>
    page_mapped s' (p + hhdm_offset s)"
proof -
  define n where "n = (unat p mod 4096 + unat sz + 4095) div 4096"
  have "unat p mod 4096 < 4096" "unat sz mod 4096 < 4096" by simp_all
  then have "unat p mod 4096 + unat sz + 4095 < (unat sz div 4096 + 3) * 4096"
    using mult_div_mod_eq [of 4096 "unat sz"] unfolding add_mult_distrib by linarith
  then have n2: "n \<le> unat sz div 4096 + 2" using less_mult_imp_div_less n_def by fastforce
  have "0 < unat sz" using assms(3) by (simp add: unat_gt_0)
  then have n1: "0 < n" by (simp add: n_def div_greater_zero_iff)
  have inv: "pt_inv s (reg_cr3 s) (k + 6 * n)"
    by (rule pt_inv_mono [OF assms(2)]) (use n2 in simp)
  obtain s' where s': "map_physical_range p sz True True (reg_cr3 s) s = Some s'" "pt_inv s' (reg_cr3 s) k"
      "same_layout s s'" "range_mapped s s' (p AND NOT 0xFFF) n (reg_cr3 s)"
    using map_range_loop_fuel [OF assms(1) inv [unfolded n_def], of True True] n_def by blast
  have cr3: "reg_cr3 s' = reg_cr3 s" using s'(3) by (simp add: same_layout_def)
  have "unat (hhdm_offset s) mod 4096 = 0" using inv by (simp add: pt_inv_def heap_room_def)
  note pg = same_page_offset [OF this, of p]
  have "page_mapped s' (p + hhdm_offset s)"
    using s'(4) pg n1 unfolding range_mapped_def page_mapped_def cr3
    by (metis add.right_neutral mult_zero_left of_nat_0 option.distinct(1))
  then show ?thesis
    using s' cr3 by (auto simp: mapping_step_def keeps_mappings_def range_mapped_def read_cr3_def)
qed

definition first_madt :: "bytes \<Rightarrow> u64 \<Rightarrow> u64 list \<Rightarrow> virt_addr" where
  "first_madt mem off tables =
     (case find (\<lambda>p. signature_is mem (unat (p + off)) sig_apic) tables of Some p \<Rightarrow> p + off | None \<Rightarrow> 0)"

lemma table_room: "6 * (unat (4096 :: u32) div 4096 + 2) = 18"
  by simp

lemma search_tables_first:
  assumes "\<forall>p\<in>set (map entr [i..<i + n]). unat p + 8191 < 2 ^ 64" "pt_inv s (reg_cr3 s) (k + 18 * n)"
  shows "\<exists>s' found. search_tables n mem entr i s = Some (found, s') \<and>
    found = first_madt mem (hhdm_offset s) (map entr [i..<i + n]) \<and>
    mapping_step k s s' \<and> (found \<noteq> 0 \<longrightarrow> page_mapped s' found)"
  using assms
proof (induction n arbitrary: i s)
  case 0
  then show ?case by (simp add: first_madt_def mapping_step_def keeps_mappings_def)
next
  case (Suc n)
  have lst: "map entr [i..<i + Suc n] = entr i # map entr [Suc i..<Suc i + n]"
    by (simp add: upt_conv_Cons del: upt_Suc)
  have b: "unat (entr i) + unat (4096 :: u32) + 4095 < 2 ^ 64" using Suc.prems(1) unfolding lst by simp
  have "pt_inv s (reg_cr3 s) ((k + 18 * n) + 6 * (unat (4096 :: u32) div 4096 + 2))"
    using Suc.prems(2) unfolding table_room by (simp add: algebra_simps)
  then obtain s1 where s1: "map_physical_range (entr i) 4096 True True (read_cr3 s) s = Some s1"
      "mapping_step (k + 18 * n) s s1" "page_mapped s1 (entr i + hhdm_offset s)"
    using map_table [OF b] by auto
  have off: "hhdm_offset s1 = hhdm_offset s" using s1(2) by (simp add: mapping_step_def same_layout_def)
  show ?case
  proof (cases "signature_is mem (unat (entr i + hhdm_offset s)) sig_apic")
    case True
    have "mapping_step k s s1"
      using s1(2) pt_inv_mono [of s1 "reg_cr3 s1" "k + 18 * n" k] by (simp add: mapping_step_def)
    then show ?thesis
      using True s1 unfolding lst by (simp add: first_madt_def off)
  next
    case False
    obtain s' found where s': "search_tables n mem entr (Suc i) s1 = Some (found, s')"
        "found = first_madt mem (hhdm_offset s) (map entr [Suc i..<Suc i + n])"
        "mapping_step k s1 s'" "found \<noteq> 0 \<longrightarrow> page_mapped s' found"
      using Suc.IH [of "Suc i" s1] Suc.prems(1) s1(2) unfolding lst by (auto simp: mapping_step_def off)
    then show ?thesis
      using False s1(1) mapping_step_trans [OF s1(2) s'(3)] unfolding lst by (simp add: first_madt_def off)
  qed
qed

section \<open>The search\<close>

text \<open>The physical addresses of the root table and of the tables it lists.\<close>

definition root_phys :: "bytes \<Rightarrow> virt_addr \<Rightarrow> u64" where
  "root_phys mem rsdp = (if 2 \<le> rsdp_revision mem (unat rsdp) then xsdt_addr mem (unat rsdp)
     else ucast (rsdt_addr mem (unat rsdp)))"

definition system_tables :: "bytes \<Rightarrow> u64 \<Rightarrow> virt_addr \<Rightarrow> u64 list" where
  "system_tables mem off rsdp =
     (let root = unat (root_phys mem rsdp + off); len = unat (table_length mem root)
      in if 2 \<le> rsdp_revision mem (unat rsdp) then map (xsdt_entry mem root) [0..<(len - 36) div 8]
         else map (\<lambda>i. ucast (rsdt_entry mem root i)) [0..<(len - 36) div 4])"

definition tables_ok :: "bytes \<Rightarrow> u64 \<Rightarrow> virt_addr \<Rightarrow> bool" where
  "tables_ok mem off rsdp \<longleftrightarrow> rsdp \<noteq> 0 \<and> 36 \<le> table_length mem (unat (root_phys mem rsdp + off)) \<and>
     (\<forall>p\<in>set (root_phys mem rsdp # system_tables mem off rsdp). unat p + 8191 < 2 ^ 64)"

lemma num_entries_nat:
  assumes "36 \<le> len" "sz = 4 \<or> sz = 8"
  shows "unat (num_entries64 len sz) = (unat len - 36) div unat sz"
proof -
  have l: "36 \<le> unat len" "unat (ucast len :: u64) = unat len" "unat len < 2 ^ 32"
    using assms(1) unat_lt [of len] by (simp_all add: word_le_nat_alt unat_ucast_up)
  then have "unat ((ucast len :: u64) - 36) = unat len - 36"
    by (subst unat_minus_simple) simp_all
  moreover have "(unat len - 36) div unat sz < 2 ^ 32"
    using l(3) by (intro order_le_less_trans [OF div_le_dividend]) simp
  ultimately show ?thesis
    using assms(2) by (auto simp: num_entries64_def unsigned_ucast_eq unat_div take_bit_nat_eq_self)
qed

lemma find_madt_first:
  assumes "tables_ok mem (hhdm_offset s) rsdp"
    and "pt_inv s (reg_cr3 s) (k + 18 * (length (system_tables mem (hhdm_offset s) rsdp) + 1))"
  shows "\<exists>s' found. find_madt mem rsdp s = Some (found, s') \<and>
    found = first_madt mem (hhdm_offset s) (system_tables mem (hhdm_offset s) rsdp) \<and>
    mapping_step k s s' \<and> (found \<noteq> 0 \<longrightarrow> page_mapped s' found)"
proof -
  let ?n = "length (system_tables mem (hhdm_offset s) rsdp)" and ?p = "root_phys mem rsdp"
  have b: "unat ?p + unat (4096 :: u32) + 4095 < 2 ^ 64"
    using assms(1) by (simp add: tables_ok_def)
  have "pt_inv s (reg_cr3 s) ((k + 18 * ?n) + 6 * (unat (4096 :: u32) div 4096 + 2))"
    using assms(2) unfolding table_room by (simp add: algebra_simps)
  then obtain s1 where s1: "map_physical_range ?p 4096 True True (read_cr3 s) s = Some s1"
      "mapping_step (k + 18 * ?n) s s1"
    using map_table [OF b] by auto
  have off: "hhdm_offset s1 = hhdm_offset s" using s1(2) by (simp add: mapping_step_def same_layout_def)
  have inv: "pt_inv s1 (reg_cr3 s1) (k + 18 * ?n)" using s1(2) by (simp add: mapping_step_def)
  have ok: "rsdp \<noteq> 0" "36 \<le> table_length mem (unat (?p + hhdm_offset s))"
      "\<forall>p\<in>set (system_tables mem (hhdm_offset s) rsdp). unat p + 8191 < 2 ^ 64"
    using assms(1) by (auto simp: tables_ok_def)
  note num = num_entries_nat [OF ok(2)]
  show ?thesis
  proof (cases "2 \<le> rsdp_revision mem (unat rsdp)")
    case True
    then show ?thesis
      using search_tables_first [of "xsdt_entry mem (unat (?p + hhdm_offset s))" 0 ?n s1 k mem] ok inv s1 num [of 8]
      by (auto simp: find_madt_def find_madt_xsdt_def system_tables_def root_phys_def off Let_def
          intro: mapping_step_trans)
  next
    case False
    then show ?thesis
      using search_tables_first [of "\<lambda>i. ucast (rsdt_entry mem (unat (?p + hhdm_offset s)) i)" 0 ?n s1 k mem]
        ok inv s1 num [of 4]
      by (auto simp: find_madt_def find_madt_rsdt_def system_tables_def root_phys_def off Let_def
          intro: mapping_step_trans)
  qed
qed

section \<open>A firmware image\<close>

text \<open>Memory that holds the given pieces and zeros elsewhere; and a small machine: a root pointer of
  revision 2, a table directory with two tables, the second of which is the one searched for.\<close>

fun fw_image :: "(nat \<times> u8 list) list \<Rightarrow> bytes" where
  "fw_image [] a = 0"
| "fw_image ((b, xs) # ps) a = (if b \<le> a \<and> a < b + length xs then xs ! (a - b) else fw_image ps a)"

lemma block_image_hit: "block (fw_image ((b, xs) # ps)) b (length xs) = xs"
  by (rule nth_equalityI) (simp_all add: block_def)

lemma block_image_miss:
  "b' + length xs \<le> b \<or> b + n \<le> b' \<Longrightarrow> block (fw_image ((b', xs) # ps)) b n = block (fw_image ps) b n"
  by (auto simp: block_def)

lemma block_part: "block m a (length xs) = xs \<Longrightarrow> i + n \<le> length xs \<Longrightarrow> block m (a + i) n = take n (drop i xs)"
  by (rule nth_equalityI) (simp_all add: block_nth block_def [of _ "_ + _"] add.assoc)

lemma rd_block: "rd m a n = foldr (\<lambda>b v. unat b + 256 * v) (block m a n) 0"
  by (induction n arbitrary: a) (simp_all add: block_Suc, simp add: block_def)

definition fw_rsdp :: "u8 list" where
  "fw_rsdp = [82, 83, 68, 32, 80, 84, 82, 32, 47, 72, 72, 72, 72, 72, 72, 2, 0, 0, 0, 0,
     36, 0, 0, 0, 0, 1, 14, 0, 0, 0, 0, 0, 205, 0, 0, 0]"

definition fw_xsdt :: "u8 list" where
  "fw_xsdt = [88, 83, 68, 84, 52, 0, 0, 0] @ replicate 28 0 @
     [0, 2, 14, 0, 0, 0, 0, 0] @ [0, 3, 14, 0, 0, 0, 0, 0]"

definition fw_records :: "madt_record list" where
  "fw_records = [OtherRec 0 [0, 0, 1, 0, 0, 0], IoApic 2 0 0xFEC00000 0, Override 0 0 2 0, Override 0 1 21 13]"

definition fw_madt :: "u8 list" where
  "fw_madt = sig_apic @ [84, 0, 0, 0] @ replicate 28 0 @ [0, 0, 224, 254, 1, 0, 0, 0] @
     concat (map enc fw_records)"

definition fw_mem :: bytes where
  "fw_mem = fw_image [(0xFFFF8000000E0000, fw_rsdp), (0xFFFF8000000E0100, fw_xsdt),
     (0xFFFF8000000E0200, [70, 65, 67, 80]), (0xFFFF8000000E0300, fw_madt)]"

lemma length_four: "length [a, b, c, d] = 4"
  by simp

lemma fw_lengths: "length fw_rsdp = 36" "length fw_xsdt = 52" "length fw_madt = 84"
  by (simp_all add: fw_rsdp_def fw_xsdt_def fw_madt_def sig_apic_def fw_records_def)

lemma fw_blocks:
  "block fw_mem 0xFFFF8000000E0000 36 = fw_rsdp"
  "block fw_mem 0xFFFF8000000E0100 52 = fw_xsdt"
  "block fw_mem 0xFFFF8000000E0200 4 = [70, 65, 67, 80]"
  "block fw_mem 0xFFFF8000000E0300 84 = fw_madt"
  unfolding fw_mem_def
  using block_image_hit [of _ fw_rsdp] block_image_hit [of _ fw_xsdt] block_image_hit [of _ "[70, 65, 67, 80]", unfolded length_four]
    block_image_hit [of _ fw_madt]
  by (simp_all add: block_image_miss fw_lengths length_four del: fw_image.simps)

lemma fw_rsdp_fields:
  assumes "block m a 36 = fw_rsdp" "a \<noteq> 0"
  shows "rsdp_revision m a = 2" "xsdp_length m a = 36" "xsdt_addr m a = 0xE0100" "rsdp_valid m a"
proof -
  note part = block_part [of m a fw_rsdp, unfolded fw_lengths, OF assms(1)]
  show 1: "rsdp_revision m a = 2" "xsdp_length m a = 36" "xsdt_addr m a = 0xE0100"
    using part [of 20 4] part [of 24 8] block_nth [OF assms(1), of 15]
    by (simp_all add: rsdp_revision_def xsdp_length_def xsdt_addr_def rd32_def rd64_def rd_block
        fw_rsdp_def)
  show "rsdp_valid m a"
    using part [of 0 20] assms 1 by (simp add: rsdp_valid_def fw_rsdp_def)
qed

lemma fw_xsdt_fields:
  assumes "block m a 52 = fw_xsdt"
  shows "table_length m a = 52" "xsdt_entry m a 0 = 0xE0200" "xsdt_entry m a 1 = 0xE0300"
proof -
  note part = block_part [of m a fw_xsdt, unfolded fw_lengths, OF assms(1)]
  show "table_length m a = 52" "xsdt_entry m a 0 = 0xE0200" "xsdt_entry m a 1 = 0xE0300"
    using part [of 4 4] part [of 36 8] part [of 44 8]
    by (simp_all add: table_length_def xsdt_entry_def rd32_def rd64_def rd_block
        fw_xsdt_def add.commute [of _ a])
qed

lemma signature_apic: "signature_is m a sig_apic \<longleftrightarrow> block m a 4 = sig_apic"
  by (simp add: signature_is_def sig_apic_def length_four del: list.size)

lemma fw_madt_holds:
  assumes "block m a 84 = fw_madt"
  shows "signature_is m a sig_apic" "holds_madt m a 0xFEE00000 fw_records"
proof -
  note part = block_part [of m a fw_madt, unfolded fw_lengths, OF assms(1)]
  have l: "length (concat (map enc fw_records)) = 40" by (simp add: fw_records_def)
  show "signature_is m a sig_apic"
    using part [of 0 4] by (simp add: signature_apic fw_madt_def) (simp add: sig_apic_def)
  have "\<forall>r\<in>set fw_records. wf_record r" by (simp add: fw_records_def)
  moreover have "rd32 m (a + 36) = 0xFEE00000" "unat (table_length m a) = 84"
    using part [of 36 4] part [of 4 4]
    by (simp_all add: table_length_def rd32_def rd_block fw_madt_def sig_apic_def)
  moreover have "block m (a + 44) 40 = concat (map enc fw_records)"
    using part [of 44 40] l by (simp add: fw_madt_def sig_apic_def)
  ultimately show "holds_madt m a 0xFEE00000 fw_records"
    unfolding holds_madt_def l by simp
qed

lemma fw_tables:
  "unat (0xFFFF8000000E0000 :: u64) = 0xFFFF8000000E0000"
  "system_tables fw_mem 0xFFFF800000000000 0xFFFF8000000E0000 = [0xE0200, 0xE0300]"
  "tables_ok fw_mem 0xFFFF800000000000 0xFFFF8000000E0000"
  "first_madt fw_mem 0xFFFF800000000000 [0xE0200, 0xE0300] = 0xFFFF8000000E0300"
proof -
  show u: "unat (0xFFFF8000000E0000 :: u64) = 0xFFFF8000000E0000" by simp
  note R = fw_rsdp_fields [OF fw_blocks(1)] and X = fw_xsdt_fields [OF fw_blocks(2)]
  have two: "[0..<2] = [0, 1 :: nat]" by (simp add: numeral_2_eq_2)
  have root: "root_phys fw_mem 0xFFFF8000000E0000 = 0xE0100"
    unfolding root_phys_def u using R by simp
  show t: "system_tables fw_mem 0xFFFF800000000000 0xFFFF8000000E0000 = [0xE0200, 0xE0300]"
    unfolding system_tables_def root u using R X two by (simp add: Let_def)
  show "tables_ok fw_mem 0xFFFF800000000000 0xFFFF8000000E0000"
    unfolding tables_ok_def root t using X by simp
  have "\<not> signature_is fw_mem 0xFFFF8000000E0200 sig_apic" "signature_is fw_mem 0xFFFF8000000E0300 sig_apic"
    using fw_madt_holds(1) [OF fw_blocks(4)] fw_blocks(3) by (simp_all add: signature_apic, simp add: sig_apic_def)
  then show "first_madt fw_mem 0xFFFF800000000000 [0xE0200, 0xE0300] = 0xFFFF8000000E0300"
    by (simp add: first_madt_def)
qed

section \<open>Properties\<close>



text \<open>After the table is parsed, the keyboard queries return the interrupt number and the flags of the first of the
  first sixteen overrides that is for line 1, and line 1 with no flags where there is none.\<close>

lemma keyboard_routing:
  assumes "holds_madt mem a lapic recs"
  shows "\<exists>st. parse_table mem a madt_init = Some st \<and>
    (get_keyboard_global_irq st, get_keyboard_irq_flags st) =
      (case find (\<lambda>r. source_irq r = 1) (take 16 (overrides recs)) of
         None \<Rightarrow> (1, 0) | Some r \<Rightarrow> (global_irq r, override_flags r))"
  unfolding parse_table_info [OF assms]
  by (simp add: get_keyboard_global_irq_def get_keyboard_irq_flags_def keyboard_override split: option.split)

lemma keyboard_routing_witness:
  "\<exists>st. parse_table fw_mem 0xFFFF8000000E0300 madt_init = Some st \<and>
     get_keyboard_global_irq st = 21 \<and> get_keyboard_irq_flags st = 13"
  using keyboard_routing [OF fw_madt_holds(2) [OF fw_blocks(4)]]
  by (simp add: fw_records_def overrides_def map_filter_def)

text \<open>A record whose length field is zero makes \<^verbatim>\<open>parse_madt\<close> loop for ever: the entry pointer does not advance.\<close>

lemma parse_madt_zero_length:
  assumes "44 < unat (table_length mem a)" and "mem (a + 45) = 0"
  shows "parse_table mem a st = None"
proof (rule ccontr)
  have "mem (a + 44 + 1) = 0" using assms(2) by (simp add: add.commute)
  moreover assume "parse_table mem a st \<noteq> None"
  ultimately show False
    using assms(1) by (auto simp only: parse_table_def not_None_eq dest!: parse_entries_stuck)
qed

lemma parse_madt_zero_length_witness:
  "parse_table (fw_image [(4, [46])]) 0 madt_init = None"
  by (rule parse_madt_zero_length) (simp_all add: table_length_def rd32_def rd4)

text \<open>\<^verbatim>\<open>find_rsdp\<close> returns the first address, on 16-byte boundaries of the first kilobyte of the extended BIOS data area
  and then of the BIOS area from 0xE0000 to 0x100000, that has the signature and whose checksums are
  zero, and 0 where there is none.\<close>

lemma find_rsdp_first:
  "find_rsdp mem =
     (case find (\<lambda>a. signature_is mem a sig_rsdp \<and> rsdp_valid mem a)
        (map (\<lambda>i. unat (rd16 mem 0x40E) * 16 + 16 * i) [0..<64] @ map (\<lambda>i. 0xE0000 + 16 * i) [0..<8192]) of
      Some a \<Rightarrow> a | None \<Rightarrow> 0)"
  unfolding find_rsdp_def scan_rsdp_find find_app Let_def by (auto split: option.split)

end
