(* ===== verification/Keyboard.thy ===== *)
theory Keyboard
  imports Prelude
begin

text \<open>
  Keyboard input of the x86-64 port: the event queues of \<^verbatim>\<open>arch/x86_64/include/keyboard.c\<close> and the PS/2 driver
  \<^verbatim>\<open>arch/x86_64/drivers/ps2k.c\<close> that fills them.

  \<open>keyboard_block_read\<close> halts until an interrupt has queued an event; \<open>readline\<close> is therefore a function of the
  sequence of events it reads, and returns None while more are needed.  The controller behind the I/O ports
  is a parameter of the driver: a state with a read and a write operation.
\<close>

section \<open>Event queues\<close>

definition RING_BUFFER_SIZE :: nat where "RING_BUFFER_SIZE = 100"
definition KEYBOARD_QUEUE_LEVELS :: nat where "KEYBOARD_QUEUE_LEVELS = 10"

datatype key_event_type = KEY_EVENT_NONE | KEY_EVENT_DOWN | KEY_EVENT_UP

record key_event =
  ev_type :: key_event_type
  scan_code :: u8
  ev_value :: u8
  timestamp :: u8

text \<open>One level of \<^verbatim>\<open>keyboard_multilevel_queue\<close> with its \<^verbatim>\<open>keyboard_queue_state\<close>.\<close>

record kqueue =
  kbuf :: "key_event list"
  khead :: nat
  ktail :: nat
  kused :: bool

record keyboard =
  levels :: "kqueue list"
  key_pressed :: "bool list"
  shift_pressed :: bool
  e0_prefix :: bool

definition queue_push :: "key_event \<Rightarrow> kqueue \<Rightarrow> kqueue" where
  "queue_push entry q =
     (let head = khead q; next = (head + 1) mod RING_BUFFER_SIZE;
          q1 = (if next = ktail q then q\<lparr>ktail := (ktail q + 1) mod RING_BUFFER_SIZE\<rparr> else q)
      in q1\<lparr>kbuf := (kbuf q1)[head := entry], khead := next\<rparr>)"

definition queue_poll :: "kqueue \<Rightarrow> key_event option \<times> kqueue" where
  "queue_poll q =
     (if ktail q = khead q then (None, q)
      else (Some (kbuf q ! ktail q), q\<lparr>ktail := (ktail q + 1) mod RING_BUFFER_SIZE\<rparr>))"

definition keyboard_push :: "nat \<Rightarrow> key_event \<Rightarrow> keyboard \<Rightarrow> keyboard" where
  "keyboard_push level entry k = k\<lparr>levels := (levels k)[level := queue_push entry (levels k ! level)]\<rparr>"

definition keyboard_poll :: "nat \<Rightarrow> keyboard \<Rightarrow> key_event option \<times> keyboard" where
  "keyboard_poll level k =
     (let (r, q) = queue_poll (levels k ! level) in (r, k\<lparr>levels := (levels k)[level := q]\<rparr>))"

text \<open>The loop of \<^verbatim>\<open>register_keyboard_listener\<close> over the levels.\<close>

fun first_unused :: "kqueue list \<Rightarrow> nat \<Rightarrow> nat option" where
  "first_unused [] i = None"
| "first_unused (q # qs) i = (if \<not> kused q then Some i else first_unused qs (Suc i))"

definition register_keyboard_listener :: "keyboard \<Rightarrow> string + (nat \<times> keyboard)" where
  "register_keyboard_listener k =
     (case first_unused (levels k) 0 of
        Some level \<Rightarrow> Inr (level, k\<lparr>levels := (levels k)[level := (levels k ! level)\<lparr>kused := True\<rparr>]\<rparr>)
      | None \<Rightarrow> Inl ''keyboard multiqueue full'')"

definition remove_keyboard_listener :: "nat \<Rightarrow> keyboard \<Rightarrow> keyboard" where
  "remove_keyboard_listener level k =
     k\<lparr>levels := (levels k)[level := (levels k ! level)\<lparr>khead := 0, ktail := 0, kused := False\<rparr>]\<rparr>"

section \<open>Line input\<close>

datatype echo = EchoPut u8 | EchoBackspace

text \<open>The loop of \<^verbatim>\<open>readline\<close>, on the events read: the position returned, the buffer, and what was echoed.\<close>

fun readline_loop :: "key_event list \<Rightarrow> nat \<Rightarrow> nat \<Rightarrow> u8 list \<Rightarrow> echo list \<Rightarrow> (nat \<times> u8 list \<times> echo list) option" where
  "readline_loop [] len pos buf out = None"
| "readline_loop (ev # evs) len pos buf out =
     (if ev_type ev \<noteq> KEY_EVENT_DOWN then readline_loop evs len pos buf out
      else let c = ev_value ev
           in if c = 10 then Some (pos, buf[pos := 0], out @ [EchoPut 10])
              else if c = 8 then
                if 0 < pos then readline_loop evs len (pos - 1) buf (out @ [EchoBackspace])
                else readline_loop evs len pos buf out
              else if 32 \<le> sint c \<and> sint c < 127 then
                if pos < len - 1 then readline_loop evs len (pos + 1) (buf[pos := c]) (out @ [EchoPut c])
                else readline_loop evs len pos buf out
              else readline_loop evs len pos buf out)"

definition readline :: "key_event list \<Rightarrow> u8 list \<Rightarrow> int \<Rightarrow> (nat \<times> u8 list \<times> echo list) option" where
  "readline evs buf len = (if len \<le> 0 then Some (0, buf, []) else readline_loop evs (nat len) 0 buf [])"

section \<open>The interrupt handler\<close>

definition scancode_to_ascii :: "u8 list" where
  "scancode_to_ascii =
    [0, 27, 49, 50, 51, 52, 53, 54, 55, 56, 57, 48,
     45, 61, 8, 9, 113, 119, 101, 114, 116, 121, 117, 105,
     111, 112, 91, 93, 10, 1, 97, 115, 100, 102, 103, 104,
     106, 107, 108, 59, 39, 96, 2, 92, 122, 120, 99, 118,
     98, 110, 109, 44, 46, 47, 3, 42, 4, 32]"

definition scancode_to_ascii_uppercase :: "u8 list" where
  "scancode_to_ascii_uppercase =
    [0, 27, 33, 64, 35, 36, 37, 94, 38, 42, 40, 41,
     95, 43, 8, 9, 81, 87, 69, 82, 84, 89, 85, 73,
     79, 80, 123, 125, 10, 1, 65, 83, 68, 70, 71, 72,
     74, 75, 76, 58, 34, 126, 2, 124, 90, 88, 67, 86,
     66, 78, 77, 60, 62, 63, 3, 42, 4, 32]"

definition is_key_pressed :: "nat \<Rightarrow> keyboard \<Rightarrow> bool" where
  "is_key_pressed code k = key_pressed k ! code"

definition broadcast :: "key_event \<Rightarrow> keyboard \<Rightarrow> keyboard" where
  "broadcast ev k =
     fold (\<lambda>lvl k. if kused (levels k ! lvl) then keyboard_push lvl ev k else k) [0..<KEYBOARD_QUEUE_LEVELS] k"

text \<open>\<open>scancode\<close> is the byte read from the data port and \<open>ticks\<close> the tick count; the acknowledgement of the
  interrupt is not modelled.\<close>

definition ps2k_irq_handler :: "u8 \<Rightarrow> u32 \<Rightarrow> keyboard \<Rightarrow> keyboard" where
  "ps2k_irq_handler scancode ticks k =
     (if scancode = 0xE0 then k\<lparr>e0_prefix := True\<rparr>
      else
        let index = (if e0_prefix k then (scancode AND 0x7F) OR 0x80 else scancode AND 0x7F);
            released = scancode AND 0x80;
            k1 = (if released \<noteq> 0 then
                    let k1 = k\<lparr>key_pressed := (key_pressed k)[unat index := False]\<rparr>
                    in if index = 0x2A \<or> index = 0x36 then k1\<lparr>shift_pressed := False\<rparr> else k1
                  else
                    let k1 = k\<lparr>key_pressed := (key_pressed k)[unat index := True]\<rparr>
                    in if index = 0x2A \<or> index = 0x36 then k1\<lparr>shift_pressed := True\<rparr>
                       else if unat index < length scancode_to_ascii then
                         let c = (if shift_pressed k1 then scancode_to_ascii_uppercase ! unat index
                                  else scancode_to_ascii ! unat index)
                         in if c \<noteq> 0 then
                              broadcast \<lparr>ev_type = KEY_EVENT_DOWN, scan_code = index, ev_value = c,
                                timestamp = ucast ticks\<rparr> k1
                            else k1
                       else k1)
        in k1\<lparr>e0_prefix := False\<rparr>)"

section \<open>Bringing up the controller\<close>

text \<open>The controller: what a port read returns and how it changes the device, and what a port write does.\<close>

record 'd controller =
  dev_in :: "'d \<Rightarrow> u16 \<Rightarrow> u8 \<times> 'd"
  dev_out :: "'d \<Rightarrow> u16 \<Rightarrow> u8 \<Rightarrow> 'd"

record ps2k_resources =
  irq :: u8
  port_data :: u16
  port_cmd :: u16

primrec poll_input :: "nat \<Rightarrow> 'd controller \<Rightarrow> u16 \<Rightarrow> 'd \<Rightarrow> 'd" where
  "poll_input 0 c port d = d"
| "poll_input (Suc n) c port d =
     (let (v, d') = dev_in c d port in if v AND 0x02 = 0 then d' else poll_input n c port d')"

definition wait_for_kbd_input :: "'d controller \<Rightarrow> ps2k_resources \<Rightarrow> 'd \<Rightarrow> 'd" where
  "wait_for_kbd_input c r d = poll_input 100000 c (port_cmd r) d"

primrec poll_output :: "nat \<Rightarrow> 'd controller \<Rightarrow> u16 \<Rightarrow> 'd \<Rightarrow> bool \<times> 'd" where
  "poll_output 0 c port d = (False, d)"
| "poll_output (Suc n) c port d =
     (let (v, d') = dev_in c d port in if v AND 0x01 \<noteq> 0 then (True, d') else poll_output n c port d')"

definition wait_for_kbd_output :: "'d controller \<Rightarrow> ps2k_resources \<Rightarrow> 'd \<Rightarrow> bool \<times> 'd" where
  "wait_for_kbd_output c r d = poll_output 100000 c (port_cmd r) d"

text \<open>Wait, then write: to the command port and to the data port.\<close>

definition send_cmd :: "'d controller \<Rightarrow> ps2k_resources \<Rightarrow> u8 \<Rightarrow> 'd \<Rightarrow> 'd" where
  "send_cmd c r v d = dev_out c (wait_for_kbd_input c r d) (port_cmd r) v"

definition send_data :: "'d controller \<Rightarrow> ps2k_resources \<Rightarrow> u8 \<Rightarrow> 'd \<Rightarrow> 'd" where
  "send_data c r v d = dev_out c (wait_for_kbd_input c r d) (port_data r) v"

text \<open>The steps of \<^verbatim>\<open>init_ps2k_driver\<close>; \<open>Inl\<close> is its panic.\<close>

definition ps2k_configure :: "'d controller \<Rightarrow> ps2k_resources \<Rightarrow> 'd \<Rightarrow> 'd" where
  "ps2k_configure c r d0 =
     (let d1 = send_cmd c r 0xAD d0;
          d2 = send_cmd c r 0xA7 d1;
          d3 = snd (dev_in c d2 (port_data r));
          d4 = send_cmd c r 0x20 d3;
          (ready, d5) = wait_for_kbd_output c r d4
      in if ready then
           let (config, d6) = dev_in c d5 (port_data r);
               d7 = send_cmd c r 0x60 d6
           in send_data c r ((config OR 0x01) OR 0x40) d7
         else d5)"

definition ps2k_self_test :: "'d controller \<Rightarrow> ps2k_resources \<Rightarrow> 'd \<Rightarrow> string + 'd" where
  "ps2k_self_test c r d0 =
     (let (ready, d1) = wait_for_kbd_output c r (send_cmd c r 0xAA d0)
      in if ready then
           let (res, d2) = dev_in c d1 (port_data r)
           in if res = 0x55 then Inr d2 else Inl ''ps2k controller failure''
         else Inr d1)"

definition ps2k_port_test :: "'d controller \<Rightarrow> ps2k_resources \<Rightarrow> 'd \<Rightarrow> 'd" where
  "ps2k_port_test c r d0 =
     (let (ready, d1) = wait_for_kbd_output c r (send_cmd c r 0xAB d0)
      in if ready then snd (dev_in c d1 (port_data r)) else d1)"

definition ps2k_reset_device :: "'d controller \<Rightarrow> ps2k_resources \<Rightarrow> 'd \<Rightarrow> string + 'd" where
  "ps2k_reset_device c r d0 =
     (let (ready, d1) = wait_for_kbd_output c r (send_data c r 0xFF d0)
      in if ready then
           let (ack, d2) = dev_in c d1 (port_data r)
           in if ack = 0xFA then
                let (ready2, d3) = wait_for_kbd_output c r d2
                in if ready2 then
                     let (res, d4) = dev_in c d3 (port_data r)
                     in if res = 0xAA then Inr d4 else Inl ''ps2k controller failure''
                   else Inr d3
              else Inl ''ps2k controller failure''
         else Inr d1)"

definition ps2k_enable_scanning :: "'d controller \<Rightarrow> ps2k_resources \<Rightarrow> 'd \<Rightarrow> string + 'd" where
  "ps2k_enable_scanning c r d0 =
     (let (ready, d1) = wait_for_kbd_output c r (send_data c r 0xF4 d0)
      in if ready then
           let (ack, d2) = dev_in c d1 (port_data r)
           in if ack = 0xFA then Inr d2 else Inl ''ps2k controller failure''
         else Inr d1)"

definition init_ps2k_driver :: "'d controller \<Rightarrow> ps2k_resources \<Rightarrow> 'd \<Rightarrow> string + 'd" where
  "init_ps2k_driver c r d0 =
     (case ps2k_self_test c r (ps2k_configure c r d0) of
        Inl e \<Rightarrow> Inl e
      | Inr d1 \<Rightarrow>
          (case ps2k_reset_device c r (send_cmd c r 0xAE (ps2k_port_test c r d1)) of
             Inl e \<Rightarrow> Inl e
           | Inr d2 \<Rightarrow> ps2k_enable_scanning c r d2))"

text \<open>The resources the firmware reports, and the callback that collects them; the callback says whether to go on.\<close>

datatype acpi_resource = FixedIO u16 | IO u16 | IRQ u8 | ExtendedIRQ u32 | EndTag | OtherResource

definition ps2k_handle_resource :: "acpi_resource \<Rightarrow> ps2k_resources \<Rightarrow> bool \<times> ps2k_resources" where
  "ps2k_handle_resource resource res =
     (case resource of
        FixedIO a \<Rightarrow> (True, if port_data res = 0 then res\<lparr>port_data := a\<rparr> else res\<lparr>port_cmd := a\<rparr>)
      | IO a \<Rightarrow> (True, if port_data res = 0 then res\<lparr>port_data := a\<rparr> else res\<lparr>port_cmd := a\<rparr>)
      | IRQ i \<Rightarrow> (True, res\<lparr>irq := i\<rparr>)
      | ExtendedIRQ i \<Rightarrow> (True, res\<lparr>irq := ucast i\<rparr>)
      | EndTag \<Rightarrow> (False, res)
      | OtherResource \<Rightarrow> (True, res))"

end
