(* ===== verification/Keyboard_Proofs.thy ===== *)
theory Keyboard_Proofs
  imports Keyboard
begin

text \<open>
  The ring buffers are bounded queues that drop their oldest entry, the interrupt handler delivers a key to every
  listener, and \<open>readline\<close> edits lines.
\<close>

section \<open>Queues that drop the oldest entry\<close>

text \<open>The entries taken by repeated polling.\<close>

primrec drain :: "('q \<Rightarrow> 'a option \<times> 'q) \<Rightarrow> nat \<Rightarrow> 'q \<Rightarrow> 'a list \<times> 'q" where
  "drain poll 0 q = ([], q)"
| "drain poll (Suc n) q =
     (case poll q of (None, q') \<Rightarrow> ([], q') | (Some x, q') \<Rightarrow> (let (xs, q'') = drain poll n q' in (x # xs, q'')))"

locale lossy_queue =
  fixes wf :: "'q \<Rightarrow> bool" and items :: "'q \<Rightarrow> 'a list" and push :: "'a \<Rightarrow> 'q \<Rightarrow> 'q"
    and poll :: "'q \<Rightarrow> 'a option \<times> 'q" and cap :: nat
  assumes cap_pos: "0 < cap"
    and items_cap: "wf q \<Longrightarrow> length (items q) \<le> cap"
    and push_wf: "wf q \<Longrightarrow> wf (push x q)"
    and push_items: "wf q \<Longrightarrow> items (push x q) = (if length (items q) < cap then items q else tl (items q)) @ [x]"
    and poll_empty: "wf q \<Longrightarrow> items q = [] \<Longrightarrow> poll q = (None, q)"
    and poll_some: "wf q \<Longrightarrow> items q = x # xs \<Longrightarrow> \<exists>q'. poll q = (Some x, q') \<and> items q' = xs \<and> wf q'"
begin

lemma push_drop: "wf q \<Longrightarrow> items (push x q) = drop (length (items q) + 1 - cap) (items q @ [x])"
  using push_items [of q x] items_cap [of q] cap_pos
  by (cases "length (items q) < cap") (auto simp: drop_Suc)

lemma push_all_wf: "wf q \<Longrightarrow> wf (fold push xs q)"
  by (induction xs arbitrary: q) (auto intro: push_wf)

lemma push_all_items: "wf q \<Longrightarrow> items (fold push xs q) = drop (length (items q) + length xs - cap) (items q @ xs)"
proof (induction xs arbitrary: q)
  case (Cons x xs)
  have p: "items (push x q) = drop (length (items q) + 1 - cap) (items q @ [x])"
    by (rule push_drop [OF Cons.prems])
  have le: "length (items q) \<le> cap" by (rule items_cap [OF Cons.prems])
  have "items (fold push (x # xs) q) = drop (length (items (push x q)) + length xs - cap) (items (push x q) @ xs)"
    using Cons.IH [OF push_wf [OF Cons.prems]] by simp
  also have "\<dots> = drop (length (items q) + length (x # xs) - cap) (items q @ x # xs)"
    unfolding p using le cap_pos by (cases "length (items q) < cap") (auto simp: drop_Suc split: list.split)
  finally show ?case .
qed (simp add: items_cap)

lemma drain_items: "wf q \<Longrightarrow> length (items q) \<le> n \<Longrightarrow> fst (drain poll n q) = items q"
proof (induction n arbitrary: q)
  case (Suc n)
  show ?case
  proof (cases "items q")
    case Nil
    then show ?thesis using poll_empty [OF Suc.prems(1)] by simp
  next
    case (Cons x xs)
    then obtain q' where "poll q = (Some x, q')" "items q' = xs" "wf q'" using poll_some [OF Suc.prems(1)] by blast
    then show ?thesis using Suc.IH [of q'] Suc.prems(2) Cons by (simp add: case_prod_beta)
  qed
qed simp

text \<open>A consumer that comes late sees the newest entries, oldest of them first.\<close>

lemma late_consumer:
  "wf q \<Longrightarrow> items q = [] \<Longrightarrow> fst (drain poll cap (fold push xs q)) = drop (length xs - cap) xs"
  using push_all_items [of q xs] push_all_wf [of q xs] drain_items [of "fold push xs q" cap] items_cap by fastforce

end

definition kq_wf :: "kqueue \<Rightarrow> bool" where
  "kq_wf q \<longleftrightarrow> length (kbuf q) = RING_BUFFER_SIZE \<and> khead q < RING_BUFFER_SIZE \<and> ktail q < RING_BUFFER_SIZE"

definition kq_len :: "kqueue \<Rightarrow> nat" where
  "kq_len q = (khead q + RING_BUFFER_SIZE - ktail q) mod RING_BUFFER_SIZE"

definition kq_items :: "kqueue \<Rightarrow> key_event list" where
  "kq_items q = map (\<lambda>i. kbuf q ! ((ktail q + i) mod RING_BUFFER_SIZE)) [0..<kq_len q]"

lemma kq_items_length [simp]: "length (kq_items q) = kq_len q"
  by (simp add: kq_items_def)

lemma kq_len_cases:
  assumes "kq_wf q"
  shows "kq_len q = (if ktail q \<le> khead q then khead q - ktail q else khead q + 100 - ktail q)" "kq_len q \<le> 99"
  using assms by (auto simp: kq_len_def kq_wf_def RING_BUFFER_SIZE_def mod_if)

lemma queue_push_wf: "kq_wf q \<Longrightarrow> kq_wf (queue_push x q)"
  by (simp add: kq_wf_def queue_push_def Let_def RING_BUFFER_SIZE_def)

lemma ring_index:
  assumes "t < 100" "i < (100 :: nat)"
  shows "(t + i) mod 100 = (if t + i < 100 then t + i else t + i - 100)"
  using assms by (auto simp: mod_if)

lemma queue_push_items:
  assumes "kq_wf q"
  shows "kq_items (queue_push x q) = (if kq_len q < 99 then kq_items q else tl (kq_items q)) @ [x]"
proof -
  note W = assms [unfolded kq_wf_def RING_BUFFER_SIZE_def] and L = kq_len_cases [OF assms]
  have wf': "kq_wf (queue_push x q)" by (rule queue_push_wf [OF assms])
  show ?thesis
  proof (cases "kq_len q < 99")
    case True
    have nf: "(khead q + 1) mod 100 \<noteq> ktail q" using True W L by (auto simp: mod_if split: if_splits)
    then have q': "khead (queue_push x q) = (khead q + 1) mod 100" "ktail (queue_push x q) = ktail q"
      "kbuf (queue_push x q) = (kbuf q)[khead q := x]"
      by (simp_all add: queue_push_def Let_def RING_BUFFER_SIZE_def)
    have len: "kq_len (queue_push x q) = Suc (kq_len q)"
      using kq_len_cases [OF wf'] q' L W True by (auto simp: mod_if split: if_splits)
    show ?thesis
    proof (rule nth_equalityI)
      fix i assume "i < length (kq_items (queue_push x q))"
      then have i: "i \<le> kq_len q" "i < 100" using len True by simp_all
      have idx: "(ktail q + i) mod 100 = khead q \<longleftrightarrow> i = kq_len q"
        using ring_index [OF _ i(2), of "ktail q"] W L i by (auto split: if_splits)
      show "kq_items (queue_push x q) ! i = ((if kq_len q < 99 then kq_items q else tl (kq_items q)) @ [x]) ! i"
        using i len q' idx True W by (cases "i = kq_len q") (auto simp: kq_items_def nth_append RING_BUFFER_SIZE_def nth_list_update simp del: upt_Suc)
    qed (use len True in simp)
  next
    case False
    then have l: "kq_len q = 99" using L by simp
    then have full: "(khead q + 1) mod 100 = ktail q" using W L by (auto simp: mod_if split: if_splits)
    then have q': "khead (queue_push x q) = ktail q" "ktail (queue_push x q) = (ktail q + 1) mod 100"
      "kbuf (queue_push x q) = (kbuf q)[khead q := x]"
      by (simp_all add: queue_push_def Let_def RING_BUFFER_SIZE_def)
    have len: "kq_len (queue_push x q) = 99"
      using kq_len_cases [OF wf'] q' W by (auto simp: mod_if split: if_splits)
    show ?thesis
    proof (rule nth_equalityI)
      fix i assume "i < length (kq_items (queue_push x q))"
      then have i: "i < 99" using len by simp
      have e: "((ktail q + 1) mod 100 + i) mod 100 = (ktail q + Suc i) mod 100" by (simp add: mod_simps)
      have idx: "(ktail q + Suc i) mod 100 = khead q \<longleftrightarrow> i = 98"
        using ring_index [of "ktail q" "Suc i"] W L l i by (auto split: if_splits)
      show "kq_items (queue_push x q) ! i = ((if kq_len q < 99 then kq_items q else tl (kq_items q)) @ [x]) ! i"
        using i len l q' idx e W
        by (cases "i = 98") (auto simp: kq_items_def nth_append nth_tl RING_BUFFER_SIZE_def nth_list_update simp del: upt_Suc)
    qed (use len l in simp)
  qed
qed

lemma queue_poll_some:
  assumes "kq_wf q" "kq_items q = x # xs"
  shows "\<exists>q'. queue_poll q = (Some x, q') \<and> kq_items q' = xs \<and> kq_wf q'"
proof -
  note W = assms(1) [unfolded kq_wf_def RING_BUFFER_SIZE_def] and L = kq_len_cases [OF assms(1)]
  let ?q = "q\<lparr>ktail := (ktail q + 1) mod 100\<rparr>"
  have n: "kq_len q = Suc (length xs)" using arg_cong [OF assms(2), of length] by simp
  have wf': "kq_wf ?q" using W by (simp add: kq_wf_def RING_BUFFER_SIZE_def)
  have len: "kq_len ?q = length xs"
    using kq_len_cases [OF wf'] W L n by (auto simp: mod_if split: if_splits)
  have "x = kbuf q ! ktail q"
    using arg_cong [OF assms(2), of hd] n W by (simp add: kq_items_def hd_map upt_conv_Cons RING_BUFFER_SIZE_def del: upt_Suc)
  moreover have "ktail q \<noteq> khead q" using L n by (auto split: if_splits)
  moreover have "kq_items ?q = xs"
  proof -
    have "xs = tl (kq_items q)" using assms(2) by simp
    also have "\<dots> = kq_items ?q"
      by (rule nth_equalityI) (use n len in \<open>auto simp: kq_items_def nth_tl RING_BUFFER_SIZE_def mod_simps simp del: upt_Suc\<close>)
    finally show ?thesis by simp
  qed
  ultimately show ?thesis using wf' by (simp add: queue_poll_def RING_BUFFER_SIZE_def)
qed

interpretation kq: lossy_queue kq_wf kq_items queue_push queue_poll 99
proof unfold_locales
  fix q assume "kq_wf q" "kq_items q = []"
  then have "kq_len q = 0" by (metis kq_items_length list.size(3))
  then show "queue_poll q = (None, q)"
    using kq_len_cases [OF \<open>kq_wf q\<close>] \<open>kq_wf q\<close> by (auto simp: queue_poll_def kq_wf_def RING_BUFFER_SIZE_def split: if_splits)
qed (simp_all add: queue_push_items queue_push_wf kq_len_cases(2) queue_poll_some)

section \<open>The handler delivers to every listener\<close>

lemma keyboard_push_levels:
  "levels (keyboard_push l ev k) = (levels k)[l := queue_push ev (levels k ! l)]"
  by (simp add: keyboard_push_def)

lemma broadcast_levels_aux:
  assumes "length (levels k) = 10" "n \<le> 10"
  shows "levels (fold (\<lambda>lvl k. if kused (levels k ! lvl) then keyboard_push lvl ev k else k) [0..<n] k) =
    map (\<lambda>i. if i < n \<and> kused (levels k ! i) then queue_push ev (levels k ! i) else levels k ! i) [0..<10]"
  using assms(2)
proof (induction n)
  case 0
  then show ?case using assms(1) by (intro nth_equalityI) auto
next
  case (Suc n)
  let ?f = "\<lambda>lvl k. if kused (levels k ! lvl) then keyboard_push lvl ev k else k"
  let ?k = "fold ?f [0..<n] k"
  have ih: "levels ?k = map (\<lambda>i. if i < n \<and> kused (levels k ! i) then queue_push ev (levels k ! i) else levels k ! i) [0..<10]"
    using Suc by simp
  have n: "levels ?k ! n = levels k ! n" using ih Suc.prems by simp
  have "levels (fold ?f [0..<Suc n] k) = levels (?f n ?k)" by simp
  also have "\<dots> = (if kused (levels k ! n) then (levels ?k)[n := queue_push ev (levels k ! n)] else levels ?k)"
    using n by (simp add: keyboard_push_levels)
  also have "\<dots> = map (\<lambda>i. if i < Suc n \<and> kused (levels k ! i) then queue_push ev (levels k ! i) else levels k ! i) [0..<10]"
    unfolding ih using Suc.prems by (intro nth_equalityI) (auto simp: nth_list_update less_Suc_eq split: if_splits)
  finally show ?case .
qed

lemma broadcast_levels:
  assumes "length (levels k) = 10"
  shows "length (levels (broadcast ev k)) = 10"
    "i < 10 \<Longrightarrow> levels (broadcast ev k) ! i = (if kused (levels k ! i) then queue_push ev (levels k ! i) else levels k ! i)"
  using broadcast_levels_aux [OF assms, of 10 ev] by (simp_all add: broadcast_def KEYBOARD_QUEUE_LEVELS_def)

section \<open>Line editing\<close>

text \<open>The reference: the line a user edits, on the characters typed; None until the line is complete.\<close>

fun edit_line :: "nat \<Rightarrow> u8 list \<Rightarrow> u8 list \<Rightarrow> u8 list option" where
  "edit_line room line [] = None"
| "edit_line room line (c # cs) =
     (if c = 10 then Some line
      else if c = 8 then edit_line room (butlast line) cs
      else if 32 \<le> sint c \<and> sint c < 127 \<and> length line < room then edit_line room (line @ [c]) cs
      else edit_line room line cs)"

definition typed :: "key_event list \<Rightarrow> u8 list" where
  "typed evs = map ev_value (filter (\<lambda>e. ev_type e = KEY_EVENT_DOWN) evs)"

text \<open>The text an echo leaves on the screen.\<close>

fun shown :: "u8 list \<Rightarrow> echo list \<Rightarrow> u8 list" where
  "shown t [] = t"
| "shown t (EchoPut c # es) = shown (t @ [c]) es"
| "shown t (EchoBackspace # es) = shown (butlast t) es"

lemma shown_append: "shown t (es @ fs) = shown (shown t es) fs"
  by (induction t es rule: shown.induct) auto

lemma take_update: "pos < length buf \<Longrightarrow> take (Suc pos) (buf[pos := c]) = take pos buf @ [c]"
  by (simp add: take_Suc_conv_app_nth)

definition line_read :: "nat \<Rightarrow> nat \<Rightarrow> u8 list option \<Rightarrow> (nat \<times> u8 list \<times> echo list) option \<Rightarrow> bool" where
  "line_read len size_buf e r =
     (case e of
        None \<Rightarrow> r = None
      | Some line \<Rightarrow> \<exists>buf out. r = Some (length line, buf, out) \<and> length line < len \<and>
          take (length line) buf = line \<and> buf ! length line = 0 \<and> length buf = size_buf \<and> shown [] out = line @ [10])"

lemma typed_Cons:
  "typed (e # evs) = (if ev_type e = KEY_EVENT_DOWN then ev_value e # typed evs else typed evs)"
  by (simp add: typed_def)

lemma readline_loop_edit:
  assumes "pos < len" "len \<le> length buf" "shown [] out = take pos buf"
  shows "line_read len (length buf) (edit_line (len - 1) (take pos buf) (typed evs)) (readline_loop evs len pos buf out)"
  using assms
proof (induction evs len pos buf out rule: readline_loop.induct)
  case (2 ev evs len pos buf out)
  show ?case
  proof (cases "ev_type ev = KEY_EVENT_DOWN")
    case False
    then show ?thesis using 2 by (simp add: typed_Cons)
  next
    case down: True
    consider (nl) "ev_value ev = 10" | (bs) "ev_value ev = 8"
      | (ch) "ev_value ev \<noteq> 10" "ev_value ev \<noteq> 8" "32 \<le> sint (ev_value ev)" "sint (ev_value ev) < 127"
      | (no) "ev_value ev \<noteq> 10" "ev_value ev \<noteq> 8" "\<not> (32 \<le> sint (ev_value ev) \<and> sint (ev_value ev) < 127)"
      by blast
    then show ?thesis
    proof cases
      case nl
      then show ?thesis using 2 down by (simp add: typed_Cons shown_append min_absorb2 line_read_def)
    next
      case bs
      have "butlast (take pos buf) = take (pos - 1) buf"
        using 2(7,8) by (cases pos) (simp_all add: take_Suc_conv_app_nth)
      then show ?thesis using 2 down bs by (cases "pos = 0") (simp_all add: typed_Cons shown_append)
    next
      case ch
      then show ?thesis
        using 2 down take_update [of pos buf "ev_value ev"]
        by (cases "pos < len - 1") (simp_all add: typed_Cons shown_append min_absorb2 Let_def less_diff_conv)
    next
      case no
      then show ?thesis using 2 down by (auto simp: typed_Cons Let_def)
    qed
  qed
qed (simp add: typed_def line_read_def)

section \<open>Properties\<close>


definition fresh_queue :: kqueue where
  "fresh_queue = \<lparr>kbuf = replicate 100 \<lparr>ev_type = KEY_EVENT_NONE, scan_code = 0, ev_value = 0, timestamp = 0\<rparr>,
     khead = 0, ktail = 0, kused = True\<rparr>"

lemma fresh_queue_wf: "kq_wf fresh_queue" "kq_items fresh_queue = []"
  by (simp_all add: fresh_queue_def kq_wf_def kq_items_def kq_len_def RING_BUFFER_SIZE_def)

definition down :: "u8 \<Rightarrow> key_event" where
  "down c = \<lparr>ev_type = KEY_EVENT_DOWN, scan_code = 0, ev_value = c, timestamp = 0\<rparr>"


text \<open>C17: a key press reaches every registered listener and no other.  When the press of an ordinary key arrives,
  the queue of each registered level gets exactly one event at its back, with the character for the current
  shift state; the other levels do not change.\<close>

theorem ps2k_delivers:
  assumes "length (levels k) = 10" "\<forall>q\<in>set (levels k). kq_wf q" "\<not> e0_prefix k"
    "unat code < 58" "code \<noteq> 0" "code \<noteq> 0x2A" "code \<noteq> 0x36" "i < 10"
  shows "let k' = ps2k_irq_handler code ticks k;
             c = (if shift_pressed k then scancode_to_ascii_uppercase else scancode_to_ascii) ! unat code;
             ev = \<lparr>ev_type = KEY_EVENT_DOWN, scan_code = code, ev_value = c, timestamp = ucast ticks\<rparr>
    in if kused (levels k ! i)
       then kq_items (levels k' ! i) = (if length (kq_items (levels k ! i)) < 99 then kq_items (levels k ! i)
              else tl (kq_items (levels k ! i))) @ [ev]
       else levels k' ! i = levels k ! i"
proof -
  have u: "unat code < 58" by fact
  have m7: "(0x7F :: u8) = mask 7" by (simp add: mask_eq_exp_minus_1)
  have a: "code AND 0x7F = code"
    using u unat_and_mask [of code 7] by (simp add: m7 word_unat_eq_iff)
  have b: "code AND 0x80 = 0"
  proof -
    have e: "(0x80 :: u8) = 2 ^ 7" by simp
    have "\<not> bit (unat code) 7" using u by (simp add: bit_iff_odd div_eq_0_iff)
    then have "\<not> bit code 7" by (simp add: bit_unsigned_iff)
    then show ?thesis by (simp only: e and_exp_eq_0_iff_not_bit) simp
  qed
  have len: "length scancode_to_ascii = 58" by (simp add: scancode_to_ascii_def)
  let ?c = "(if shift_pressed k then scancode_to_ascii_uppercase else scancode_to_ascii) ! unat code"
  have c: "?c \<noteq> 0"
  proof -
    have "\<forall>j\<in>set [1..<58]. scancode_to_ascii ! j \<noteq> 0 \<and> scancode_to_ascii_uppercase ! j \<noteq> 0" by code_simp
    moreover have "unat code \<noteq> 0" using assms(5) by (simp add: unat_eq_0)
    ultimately show ?thesis using u by auto
  qed
  have "code \<noteq> 0xE0" using u by auto
  then have "levels (ps2k_irq_handler code ticks k) ! i =
      (if kused (levels k ! i) then queue_push \<lparr>ev_type = KEY_EVENT_DOWN, scan_code = code, ev_value = ?c, timestamp = ucast ticks\<rparr> (levels k ! i)
       else levels k ! i)"
    using assms(1,3,6-8) a b c u len
    by (simp add: ps2k_irq_handler_def Let_def broadcast_levels if_distrib [of "\<lambda>t. t ! _"])
  then show ?thesis
    using assms(1,2,8) by (simp add: Let_def kq.push_items)
qed

definition demo_keyboard :: keyboard where
  "demo_keyboard = \<lparr>levels = fresh_queue # replicate 9 (fresh_queue\<lparr>kused := False\<rparr>), key_pressed = replicate 256 False,
     shift_pressed = False, e0_prefix = False\<rparr>"

theorem ps2k_delivers_witness:
  "kq_items (levels (ps2k_irq_handler 0x1E 7 demo_keyboard) ! 0) =
     [\<lparr>ev_type = KEY_EVENT_DOWN, scan_code = 0x1E, ev_value = 97, timestamp = 7\<rparr>]"
proof -
  have w: "kq_wf (fresh_queue\<lparr>kused := b\<rparr>)" for b
    using fresh_queue_wf(1) by (simp add: kq_wf_def)
  show ?thesis
    using ps2k_delivers [of demo_keyboard "0x1E" 0 7] fresh_queue_wf w [of False]
    by (simp add: demo_keyboard_def scancode_to_ascii_def fresh_queue_def [of] Let_def)
qed

text \<open>C22: \<^verbatim>\<open>readline\<close> returns the line as edited by its user.  It waits until the line is complete; then the buffer holds
  the line, terminated and within the caller's length, and the screen shows the same line.\<close>

theorem readline_edits:
  assumes "0 < len" "nat len \<le> length buf"
  shows "line_read (nat len) (length buf) (edit_line (nat len - 1) [] (typed evs)) (readline evs buf len)"
  using readline_loop_edit [of 0 "nat len" buf "[]" evs] assms by (simp add: readline_def)

theorem readline_edits_witness:
  "\<exists>buf out. readline [down 97, down 98, down 8, down 99, down 10] (replicate 4 7) 4 = Some (2, buf, out) \<and>
     take 2 buf = [97, 99] \<and> buf ! 2 = 0"
proof -
  have e: "edit_line (nat 4 - 1) [] (typed [down 97, down 98, down 8, down 99, down 10]) = Some [97, 99]"
    by (simp add: typed_def down_def)
  have "line_read (nat 4) (length (replicate 4 (7::u8))) (edit_line (nat 4 - 1) [] (typed [down 97, down 98, down 8, down 99, down 10]))
     (readline [down 97, down 98, down 8, down 99, down 10] (replicate 4 7) 4)"
    by (rule readline_edits) simp_all
  then show ?thesis unfolding e by (auto simp: line_read_def numeral_2_eq_2)
qed

text \<open>A controller that is always ready, answers data reads from a list and records what is written.\<close>

record scripted =
  answers :: "u8 list"
  written :: "(u16 \<times> u8) list"

definition script :: "ps2k_resources \<Rightarrow> scripted controller" where
  "script r =
     \<lparr>dev_in = (\<lambda>d port. if port = port_cmd r then (0x01, d) else (hd (answers d), d\<lparr>answers := tl (answers d)\<rparr>)),
      dev_out = (\<lambda>d port v. d\<lparr>written := written d @ [(port, v)]\<rparr>)\<rparr>"

lemma script_wait [simp]:
  "wait_for_kbd_input (script r) r d = d" "wait_for_kbd_output (script r) r d = (True, d)"
proof -
  have "(100000 :: nat) = Suc 99999" by simp
  then show "wait_for_kbd_input (script r) r d = d" "wait_for_kbd_output (script r) r d = (True, d)"
    unfolding wait_for_kbd_input_def wait_for_kbd_output_def by (simp_all only: poll_input.simps poll_output.simps) (simp_all add: script_def)
qed

lemma script_send [simp]:
  "send_cmd (script r) r v d = d\<lparr>written := written d @ [(port_cmd r, v)]\<rparr>"
  "send_data (script r) r v d = d\<lparr>written := written d @ [(port_data r, v)]\<rparr>"
  "port_data r \<noteq> port_cmd r \<Longrightarrow> dev_in (script r) d (port_data r) = (hd (answers d), d\<lparr>answers := tl (answers d)\<rparr>)"
  by (simp_all add: send_cmd_def send_data_def) (simp_all add: script_def)

text \<open>C32: the controller is brought up in the documented order.  With a controller that answers at once, the driver sends
  the ten commands in order, keeps the configuration bits it read apart from the two it sets, and finishes;
  it panics exactly when the self-test, the reset acknowledgement, the keyboard's self-test or the scan-enable
  acknowledgement is not the expected byte.\<close>

theorem ps2k_handshake:
  assumes "port_data r \<noteq> port_cmd r"
  shows "init_ps2k_driver (script r) r \<lparr>answers = [stale, config, test, port, ack1, bat, ack2], written = []\<rparr> =
    (if test = 0x55 \<and> ack1 = 0xFA \<and> bat = 0xAA \<and> ack2 = 0xFA then
       Inr \<lparr>answers = [], written =
         [(port_cmd r, 0xAD), (port_cmd r, 0xA7), (port_cmd r, 0x20), (port_cmd r, 0x60),
          (port_data r, (config OR 0x01) OR 0x40), (port_cmd r, 0xAA), (port_cmd r, 0xAB), (port_cmd r, 0xAE),
          (port_data r, 0xFF), (port_data r, 0xF4)]\<rparr>
     else Inl ''ps2k controller failure'')"
  using assms
  by (simp add: init_ps2k_driver_def ps2k_configure_def ps2k_self_test_def ps2k_port_test_def ps2k_reset_device_def
    ps2k_enable_scanning_def Let_def)

theorem ps2k_handshake_witness:
  "init_ps2k_driver (script \<lparr>irq = 1, port_data = 0x60, port_cmd = 0x64\<rparr>) \<lparr>irq = 1, port_data = 0x60, port_cmd = 0x64\<rparr>
     \<lparr>answers = [0, 0x30, 0x55, 0, 0xFE, 0, 0], written = []\<rparr> = Inl ''ps2k controller failure''"
  using ps2k_handshake [of "\<lparr>irq = 1, port_data = 0x60, port_cmd = 0x64\<rparr>" 0 "0x30" "0x55" 0 "0xFE" 0 0] by simp

end
