(* ===== verification/Graphics.thy ===== *)
theory Graphics
  imports Prelude
begin

text \<open>
  Drawing: \<^verbatim>\<open>drivers/graphics.c\<close> and the glyph renderer \<^verbatim>\<open>kernel/fonts/font.c\<close>.

  The frame buffer and the back buffer are functions from pixel numbers to colours.  Coordinates are
  integers as in the C signatures; the pixel number is computed in 32 bits, as the C expression is.  The
  lemmas give the colour of every pixel after a rectangle, a glyph or a copy was drawn.
\<close>

section \<open>State\<close>

datatype gfx_target = GFX_TARGET_BACKBUFFER | GFX_TARGET_FRAMEBUFFER

type_synonym pixels = "nat \<Rightarrow> u32"

record gfx =
  fb_pitch :: nat
  fb_width :: nat
  fb_height :: nat
  fb_pixels :: pixels
  backbuffer :: pixels
  screen_size :: nat
  gtarget :: gfx_target

definition gfx_set_target :: "gfx_target \<Rightarrow> gfx \<Rightarrow> gfx" where
  "gfx_set_target t g = g\<lparr>gtarget := t\<rparr>"

text \<open>\<^verbatim>\<open>draw_buffer()\<close>, and a change of what it points to.\<close>

definition draw_buffer :: "gfx \<Rightarrow> pixels" where
  "draw_buffer g = (if gtarget g = GFX_TARGET_FRAMEBUFFER then fb_pixels g else backbuffer g)"

definition upd_buffer :: "(pixels \<Rightarrow> pixels) \<Rightarrow> gfx \<Rightarrow> gfx" where
  "upd_buffer f g =
     (if gtarget g = GFX_TARGET_FRAMEBUFFER then g\<lparr>fb_pixels := f (fb_pixels g)\<rparr> else g\<lparr>backbuffer := f (backbuffer g)\<rparr>)"

text \<open>\<open>gfx_init\<close> takes the geometry and the memory of the frame buffer; the zeroed back buffer comes from the heap.\<close>

definition gfx_init :: "nat \<Rightarrow> nat \<Rightarrow> nat \<Rightarrow> pixels \<Rightarrow> gfx" where
  "gfx_init pitch width height mem =
     \<lparr>fb_pitch = pitch, fb_width = width, fb_height = height, fb_pixels = mem, backbuffer = (\<lambda>_. 0),
      screen_size = (pitch * height) mod 2 ^ 32, gtarget = GFX_TARGET_BACKBUFFER\<rparr>"

definition rgb :: "u8 \<Rightarrow> u8 \<Rightarrow> u8 \<Rightarrow> u32" where
  "rgb r g b = push_bit 16 (ucast r) OR push_bit 8 (ucast g) OR ucast b"

section \<open>Operations\<close>

definition stride :: "gfx \<Rightarrow> nat" where "stride g = fb_pitch g div 4"

text \<open>The arguments of \<^verbatim>\<open>gfx_put_pixel\<close> are unsigned: a negative coordinate becomes a large one.\<close>

definition gfx_put_pixel :: "int \<Rightarrow> int \<Rightarrow> u32 \<Rightarrow> gfx \<Rightarrow> gfx" where
  "gfx_put_pixel x y val g =
     (let ux = nat (x mod 2 ^ 32); uy = nat (y mod 2 ^ 32)
      in if fb_width g \<le> ux \<or> fb_height g \<le> uy then g
         else upd_buffer (\<lambda>b. b((uy * stride g + ux) mod 2 ^ 32 := val)) g)"

primrec copy_pixels :: "nat \<Rightarrow> nat \<Rightarrow> nat \<Rightarrow> pixels \<Rightarrow> pixels" where
  "copy_pixels 0 dst src b = b"
| "copy_pixels (Suc n) dst src b = (let b' = copy_pixels n dst src b in b'(dst + n := b' (src + n)))"

definition gfx_render :: "gfx \<Rightarrow> gfx" where
  "gfx_render g =
     (if gtarget g \<noteq> GFX_TARGET_BACKBUFFER then g
      else g\<lparr>fb_pixels := \<lambda>i. if i < screen_size g div 4 then backbuffer g i else fb_pixels g i\<rparr>)"

primrec fill_row :: "nat \<Rightarrow> nat \<Rightarrow> u32 \<Rightarrow> pixels \<Rightarrow> pixels" where
  "fill_row 0 start val b = b"
| "fill_row (Suc n) start val b = (fill_row n start val b)(start + n := val)"

definition gfx_fill_rect :: "int \<Rightarrow> int \<Rightarrow> int \<Rightarrow> int \<Rightarrow> u32 \<Rightarrow> gfx \<Rightarrow> gfx" where
  "gfx_fill_rect x0 y0 x1 y1 val g =
     (let x0' = (if x0 < 0 then 0 else x0);
          y0' = (if y0 < 0 then 0 else y0);
          x1' = (if x1 \<ge> int (fb_width g) then int (fb_width g) - 1 else x1);
          y1' = (if y1 \<ge> int (fb_height g) then int (fb_height g) - 1 else y1)
      in if x0' > x1' \<or> y0' > y1' then g
         else upd_buffer (fold (\<lambda>y. fill_row (nat (x1' - x0' + 1)) ((y * stride g) mod 2 ^ 32 + nat x0') val)
                [nat y0'..<nat y1' + 1]) g)"

definition gfx_clear_screen :: "gfx \<Rightarrow> gfx" where
  "gfx_clear_screen g = upd_buffer (fill_row (screen_size g div 4) 0 0) g"

section \<open>Glyphs\<close>

text \<open>\<^verbatim>\<open>fontStyle_t\<close>; the tables are lists.\<close>

record font =
  GlyphCount :: nat
  FirstAsciiCode :: nat
  GlyphBytesWidth :: nat
  GlyphHeight :: nat
  FixedWidth :: nat
  GlyphWidth :: "nat list"
  GlyphBitmaps :: "u8 list"

definition glyph_bit :: "font \<Rightarrow> nat \<Rightarrow> nat \<Rightarrow> nat \<Rightarrow> bool" where
  "glyph_bit f idx row col =
     (GlyphBitmaps f ! (idx * (GlyphBytesWidth f * GlyphHeight f) + row * GlyphBytesWidth f + col div 8) AND
        drop_bit (col mod 8) 0x80 \<noteq> 0)"

definition in_font :: "font \<Rightarrow> u8 \<Rightarrow> bool" where
  "in_font f c \<longleftrightarrow> \<not> (unat c < FirstAsciiCode f \<or> FirstAsciiCode f + GlyphCount f \<le> unat c)"

definition advance :: "font \<Rightarrow> nat \<Rightarrow> nat" where
  "advance f idx = (if FixedWidth f \<noteq> 0 then FixedWidth f else if GlyphWidth f = [] then 0 else GlyphWidth f ! idx)"

definition font_draw_char :: "font \<Rightarrow> u8 \<Rightarrow> int \<Rightarrow> int \<Rightarrow> u32 \<Rightarrow> gfx \<Rightarrow> nat \<times> gfx" where
  "font_draw_char f c x y color g =
     (if \<not> in_font f c then (advance f 0, g)
      else let idx = unat c - FirstAsciiCode f
           in (advance f idx,
               fold (\<lambda>row. fold (\<lambda>col g. if glyph_bit f idx row col then gfx_put_pixel (x + int col) (y + int row) color g else g)
                 [0..<GlyphBytesWidth f * 8]) [0..<GlyphHeight f] g))"

primrec font_draw_string :: "font \<Rightarrow> u8 list \<Rightarrow> int \<Rightarrow> int \<Rightarrow> u32 \<Rightarrow> gfx \<Rightarrow> gfx" where
  "font_draw_string f [] x y color g = g"
| "font_draw_string f (c # s) x y color g =
     (let (adv, g1) = font_draw_char f c x y color g in font_draw_string f s (x + int adv) y color g1)"

section \<open>Pixels\<close>

text \<open>A geometry whose rows fit their stride and whose pixel numbers fit 32 bits.\<close>

definition gfx_ok :: "gfx \<Rightarrow> bool" where
  "gfx_ok g \<longleftrightarrow> fb_width g \<le> stride g \<and> fb_height g * stride g \<le> 2 ^ 31 \<and> fb_width g < 2 ^ 31 \<and> fb_height g < 2 ^ 31"

definition pixel :: "gfx \<Rightarrow> nat \<Rightarrow> nat \<Rightarrow> u32" where
  "pixel g x y = draw_buffer g (y * stride g + x)"

definition same_geometry :: "gfx \<Rightarrow> gfx \<Rightarrow> bool" where
  "same_geometry g g' \<longleftrightarrow> fb_pitch g' = fb_pitch g \<and> fb_width g' = fb_width g \<and> fb_height g' = fb_height g \<and>
     gtarget g' = gtarget g \<and> screen_size g' = screen_size g"

lemma upd_buffer_simps [simp]:
  "fb_pitch (upd_buffer f g) = fb_pitch g" "fb_width (upd_buffer f g) = fb_width g"
  "fb_height (upd_buffer f g) = fb_height g" "gtarget (upd_buffer f g) = gtarget g"
  "screen_size (upd_buffer f g) = screen_size g" "stride (upd_buffer f g) = stride g"
  "draw_buffer (upd_buffer f g) = f (draw_buffer g)" "same_geometry g (upd_buffer f g)"
  by (auto simp: upd_buffer_def draw_buffer_def stride_def same_geometry_def)

lemma same_geometry_refl [simp]: "same_geometry g g"
  by (simp add: same_geometry_def)

lemma same_geometry_trans: "same_geometry g g' \<Longrightarrow> same_geometry g' g'' \<Longrightarrow> same_geometry g g''"
  by (simp add: same_geometry_def)

lemma same_geometry_ok: "same_geometry g g' \<Longrightarrow> gfx_ok g' = gfx_ok g" "same_geometry g g' \<Longrightarrow> stride g' = stride g"
  by (simp_all add: same_geometry_def gfx_ok_def stride_def)

lemma geometry_transfer:
  assumes "same_geometry g g'" "gfx_ok g" "X < fb_width g" "Y < fb_height g"
  shows "gfx_ok g'" "X < fb_width g'" "Y < fb_height g'"
  using assms same_geometry_ok(1) [OF assms(1)] by (simp_all add: same_geometry_def)

text \<open>Pixel numbers of different pixels are different.\<close>

lemma pixel_number_inj:
  assumes "x < w" "x' < w" "w \<le> (s :: nat)"
  shows "y * s + x = y' * s + x' \<longleftrightarrow> y = y' \<and> x = x'"
proof
  assume eq: "y * s + x = y' * s + x'"
  have "x < s" "x' < s" using assms by simp_all
  then have "y = (y * s + x) div s" "y' = (y' * s + x') div s" "x = (y * s + x) mod s" "x' = (y' * s + x') mod s"
    by simp_all
  then show "y = y' \<and> x = x'" using eq by metis
qed simp

lemma pixel_number_bound:
  assumes "gfx_ok g" "x < fb_width g" "y < fb_height g"
  shows "y * stride g + x < 2 ^ 31"
proof -
  have "y * stride g + x < (y + 1) * stride g" using assms by (simp add: gfx_ok_def)
  also have "\<dots> \<le> fb_height g * stride g" using assms(3) by (intro mult_le_mono1) simp
  finally show ?thesis using assms(1) by (simp add: gfx_ok_def)
qed

lemma put_pixel_pixel:
  assumes "gfx_ok g" "0 \<le> x" "0 \<le> y" "x < 2 ^ 32" "y < 2 ^ 32" "X < fb_width g" "Y < fb_height g"
  shows "pixel (gfx_put_pixel x y val g) X Y = (if x = int X \<and> y = int Y then val else pixel g X Y)"
proof (cases "fb_width g \<le> nat x \<or> fb_height g \<le> nat y")
  case True
  then show ?thesis using assms by (auto simp: gfx_put_pixel_def)
next
  case False
  then have i: "(nat y * stride g + nat x) mod 2 ^ 32 = nat y * stride g + nat x"
    using pixel_number_bound [OF assms(1), of "nat x" "nat y"] by simp
  have "Y * stride g + X = nat y * stride g + nat x \<longleftrightarrow> Y = nat y \<and> X = nat x"
    using False assms by (intro pixel_number_inj) (auto simp: gfx_ok_def)
  then show ?thesis
    using False assms(2-5) i by (auto simp: gfx_put_pixel_def pixel_def)
qed

lemma put_pixel_geometry [simp]: "same_geometry g (gfx_put_pixel x y val g)"
  by (simp add: gfx_put_pixel_def Let_def)

lemma fill_row_apply: "fill_row n start val b i = (if start \<le> i \<and> i < start + n then val else b i)"
  by (induction n) auto

lemma fold_fill_rows:
  assumes "x1 < s" "x0 \<le> x1" "X < s" "\<forall>y\<in>set ys. y * s < 2 ^ 32"
  shows "fold (\<lambda>y. fill_row (x1 - x0 + 1) ((y * s) mod 2 ^ 32 + x0) val) ys b (Y * s + X) =
    (if Y \<in> set ys \<and> x0 \<le> X \<and> X \<le> x1 then val else b (Y * s + X))"
  using assms(4)
proof (induction ys arbitrary: b)
  case (Cons y ys)
  have "y * s + x0 \<le> Y * s + X \<and> Y * s + X < y * s + x0 + (x1 - x0 + 1) \<longleftrightarrow> Y = y \<and> x0 \<le> X \<and> X \<le> x1"
  proof
    assume a: "y * s + x0 \<le> Y * s + X \<and> Y * s + X < y * s + x0 + (x1 - x0 + 1)"
    then have "y * s \<le> Y * s + X" "Y * s + X < y * s + s" using assms(1,2) by simp_all
    then have "(Y * s + X) div s = y" by (intro div_nat_eqI) (simp_all add: algebra_simps)
    then have "Y = y" using assms(3) by simp
    then show "Y = y \<and> x0 \<le> X \<and> X \<le> x1" using a assms(2) by simp
  qed (use assms(2) in simp)
  moreover have "(y * s) mod 2 ^ 32 = y * s" using Cons.prems by simp
  ultimately have "fill_row (x1 - x0 + 1) ((y * s) mod 2 ^ 32 + x0) val b (Y * s + X) =
      (if Y = y \<and> x0 \<le> X \<and> X \<le> x1 then val else b (Y * s + X))"
    by (simp only: fill_row_apply)
  moreover have "fold (\<lambda>y. fill_row (x1 - x0 + 1) ((y * s) mod 2 ^ 32 + x0) val) ys b' (Y * s + X) =
      (if Y \<in> set ys \<and> x0 \<le> X \<and> X \<le> x1 then val else b' (Y * s + X))" for b'
    by (rule Cons.IH) (use Cons.prems in simp)
  ultimately show ?case
    by (simp only: fold_Cons comp_apply list.set insert_iff) auto
qed simp

lemma fill_rect_pixel:
  assumes "gfx_ok g" "0 \<le> x0" "0 \<le> y0" "x0 \<le> x1" "y0 \<le> y1" "x1 < int (fb_width g)" "y1 < int (fb_height g)"
    and "X < fb_width g"
  shows "pixel (gfx_fill_rect x0 y0 x1 y1 val g) X Y =
    (if x0 \<le> int X \<and> int X \<le> x1 \<and> y0 \<le> int Y \<and> int Y \<le> y1 then val else pixel g X Y)"
proof -
  have n: "nat (x1 - x0 + 1) = nat x1 - nat x0 + 1" using assms by simp
  have "y * stride g < 2 ^ 32" if "y \<in> set [nat y0..<nat y1 + 1]" for y
  proof -
    have "y * stride g + 0 < 2 ^ 31"
      by (rule pixel_number_bound [OF assms(1)]) (use that assms in auto)
    then show ?thesis by simp
  qed
  then have "fold (\<lambda>y. fill_row (nat x1 - nat x0 + 1) ((y * stride g) mod 2 ^ 32 + nat x0) val) [nat y0..<nat y1 + 1]
      (draw_buffer g) (Y * stride g + X) =
    (if Y \<in> set [nat y0..<nat y1 + 1] \<and> nat x0 \<le> X \<and> X \<le> nat x1 then val else draw_buffer g (Y * stride g + X))"
    using assms by (intro fold_fill_rows) (auto simp: gfx_ok_def)
  moreover have "Y \<in> set [nat y0..<nat y1 + 1] \<and> nat x0 \<le> X \<and> X \<le> nat x1 \<longleftrightarrow>
      x0 \<le> int X \<and> int X \<le> x1 \<and> y0 \<le> int Y \<and> int Y \<le> y1"
    using assms(2,3,4,5) by auto
  moreover have "gfx_fill_rect x0 y0 x1 y1 val g = upd_buffer (fold (\<lambda>y. fill_row (nat x1 - nat x0 + 1)
      ((y * stride g) mod 2 ^ 32 + nat x0) val) [nat y0..<nat y1 + 1]) g"
    using assms(2-7) by (simp add: gfx_fill_rect_def n del: fill_row.simps upt_Suc)
  ultimately show ?thesis
    by (simp only: pixel_def upd_buffer_simps)
qed

lemma fill_rect_geometry [simp]: "same_geometry g (gfx_fill_rect x0 y0 x1 y1 val g)"
  by (simp add: gfx_fill_rect_def Let_def)

lemma copy_pixels_apply:
  "dst \<le> src \<Longrightarrow> copy_pixels n dst src b i = (if dst \<le> i \<and> i < dst + n then b (src + (i - dst)) else b i)"
  by (induction n arbitrary: i) (auto simp: Let_def less_Suc_eq)

lemma fold_geometry: "(\<And>a h. same_geometry h (f a h)) \<Longrightarrow> same_geometry g (fold f as g)"
  by (induction as arbitrary: g) (auto intro: same_geometry_trans)

lemma draw_char_geometry: "same_geometry g (snd (font_draw_char f c x y color g))"
  by (auto simp: font_draw_char_def Let_def intro!: fold_geometry)

text \<open>A row of a glyph, then the glyph.\<close>

lemma glyph_row_pixel:
  assumes "gfx_ok g" "0 \<le> x" "0 \<le> y" "x + int n < 2 ^ 32" "y < 2 ^ 32" "X < fb_width g" "Y < fb_height g"
  shows "pixel (fold (\<lambda>col g. if P col then gfx_put_pixel (x + int col) y color g else g) [0..<n] g) X Y =
    (if y = int Y \<and> x \<le> int X \<and> int X < x + int n \<and> P (X - nat x) then color else pixel g X Y)"
  using assms(4)
proof (induction n)
  case (Suc n)
  let ?g = "fold (\<lambda>col g. if P col then gfx_put_pixel (x + int col) y color g else g) [0..<n] g"
  have "same_geometry g ?g" by (rule fold_geometry) simp
  note ok = geometry_transfer [OF this assms(1,6,7)]
  have "pixel (gfx_put_pixel (x + int n) y color ?g) X Y =
      (if x + int n = int X \<and> y = int Y then color else pixel ?g X Y)"
    using assms(2,3,5) Suc.prems by (intro put_pixel_pixel ok) auto
  moreover have "x + int n = int X \<Longrightarrow> X - nat x = n" using assms(2) by simp
  moreover have "int X < x + int (Suc n) \<longleftrightarrow> int X < x + int n \<or> x + int n = int X" by auto
  moreover have "pixel ?g X Y = (if y = int Y \<and> x \<le> int X \<and> int X < x + int n \<and> P (X - nat x) then color
      else pixel g X Y)"
    using Suc by simp
  ultimately show ?case
    using assms(2) by (cases "P n") (auto split: if_splits)
qed auto

lemma draw_char_pixel:
  assumes "gfx_ok g" "0 \<le> x" "0 \<le> y" "x + int (GlyphBytesWidth f * 8) < 2 ^ 32" "y + int (GlyphHeight f) < 2 ^ 32"
    "X < fb_width g" "Y < fb_height g"
  shows "pixel (snd (font_draw_char f c x y color g)) X Y =
    (if in_font f c \<and> x \<le> int X \<and> int X < x + int (GlyphBytesWidth f * 8) \<and> y \<le> int Y \<and> int Y < y + int (GlyphHeight f) \<and>
        glyph_bit f (unat c - FirstAsciiCode f) (Y - nat y) (X - nat x) then color else pixel g X Y)"
proof (cases "in_font f c")
  case True
  define idx where "idx = unat c - FirstAsciiCode f"
  define row_step where "row_step row = fold (\<lambda>col g. if glyph_bit f idx row col then
      gfx_put_pixel (x + int col) (y + int row) color g else g) [0..<GlyphBytesWidth f * 8]" for row
  have "pixel (fold row_step [0..<h] g) X Y =
      (if x \<le> int X \<and> int X < x + int (GlyphBytesWidth f * 8) \<and> y \<le> int Y \<and> int Y < y + int h \<and>
        glyph_bit f idx (Y - nat y) (X - nat x) then color else pixel g X Y)" if "h \<le> GlyphHeight f" for h
    using that
  proof (induction h)
    case (Suc h)
    let ?g = "fold row_step [0..<h] g"
    have "same_geometry g ?g" by (rule fold_geometry) (auto simp: row_step_def intro: fold_geometry)
    note ok = geometry_transfer [OF this assms(1,6,7)]
    have "pixel (row_step h ?g) X Y = (if y + int h = int Y \<and> x \<le> int X \<and> int X < x + int (GlyphBytesWidth f * 8) \<and>
        glyph_bit f idx h (X - nat x) then color else pixel ?g X Y)"
      unfolding row_step_def [of h] using assms(2-5) Suc.prems by (intro glyph_row_pixel ok) auto
    moreover have "y + int h = int Y \<Longrightarrow> Y - nat y = h" using assms(3) by simp
    moreover have "int Y < y + int (Suc h) \<longleftrightarrow> int Y < y + int h \<or> y + int h = int Y" by auto
    moreover have "pixel ?g X Y = (if x \<le> int X \<and> int X < x + int (GlyphBytesWidth f * 8) \<and> y \<le> int Y \<and>
        int Y < y + int h \<and> glyph_bit f idx (Y - nat y) (X - nat x) then color else pixel g X Y)"
      using Suc by simp
    ultimately show ?case using assms(3) by (auto split: if_splits)
  qed auto
  from this [of "GlyphHeight f"] show ?thesis
    using True by (simp add: font_draw_char_def Let_def idx_def row_step_def [abs_def])
qed (simp add: font_draw_char_def)

end
