(* ===== verification/Console.thy ===== *)
theory Console
  imports Graphics Irq "HOL-Library.Monad_Syntax"
begin

text \<open>
  Text output: the frame-buffer console \<^verbatim>\<open>include/kernel/console.c\<close>, the serial port \<^verbatim>\<open>drivers/serial.c\<close> and the
  kernel log \<^verbatim>\<open>kernel/log.c\<close>.

  A format with its arguments is turned into the characters to write; None is an access outside a buffer
  or a string, or an argument of another type than the directive reads.  The characters then go through
  \<^verbatim>\<open>console_putchar\<close> to the screen and through \<^verbatim>\<open>serial_putchar\<close> to the line.
\<close>

section \<open>Console\<close>

record console =
  con_gfx :: gfx
  con_font :: font
  fg_color :: u32
  bg_color :: u32
  cursor_col :: nat
  cursor_row :: nat
  max_cols :: nat
  max_rows :: nat
  cell_w :: nat
  cell_h :: nat
  screen_w :: nat
  screen_h :: nat
  cpu_flags :: u64

definition console_init :: "font \<Rightarrow> gfx \<Rightarrow> u64 \<Rightarrow> console" where
  "console_init f g0 flags =
     (let g = gfx_set_target GFX_TARGET_FRAMEBUFFER g0;
          cw = (if FixedWidth f \<noteq> 0 then FixedWidth f else GlyphWidth f ! 0);
          ch = GlyphHeight f
      in \<lparr>con_gfx = g, con_font = f, fg_color = rgb 0xCC 0xCC 0xCC, bg_color = rgb 0 0 0, cursor_col = 0,
          cursor_row = 0, max_cols = fb_width g div cw, max_rows = fb_height g div ch, cell_w = cw, cell_h = ch,
          screen_w = fb_width g, screen_h = fb_height g, cpu_flags = flags\<rparr>)"

text \<open>The copy is within the frame buffer, whatever the drawing target is.\<close>

definition scroll_up :: "console \<Rightarrow> console" where
  "scroll_up c =
     (let g = con_gfx c;
          row_pixels = cell_h c * stride g;
          copy_count = stride g * (screen_h c - cell_h c);
          b1 = copy_pixels copy_count 0 row_pixels (fb_pixels g);
          b2 = fill_row row_pixels (stride g * (screen_h c - cell_h c)) (bg_color c) b1
      in c\<lparr>con_gfx := g\<lparr>fb_pixels := b2\<rparr>, cursor_row := max_rows c - 1\<rparr>)"

definition newline :: "console \<Rightarrow> console" where
  "newline c =
     (let c1 = c\<lparr>cursor_col := 0, cursor_row := cursor_row c + 1\<rparr>
      in if max_rows c1 \<le> cursor_row c1 then scroll_up c1 else c1)"

text \<open>The part of \<^verbatim>\<open>console_putchar\<close> that draws, and that of \<^verbatim>\<open>console_backspace\<close> that clears, the cell at the cursor.\<close>

definition clear_cell :: "console \<Rightarrow> console" where
  "clear_cell c =
     (let px = int (cursor_col c * cell_w c); py = int (cursor_row c * cell_h c)
      in c\<lparr>con_gfx := gfx_fill_rect px py (px + int (cell_w c) - 1) (py + int (cell_h c) - 1) (bg_color c) (con_gfx c)\<rparr>)"

definition draw_cell :: "u8 \<Rightarrow> console \<Rightarrow> console" where
  "draw_cell ch c =
     (let px = int (cursor_col c * cell_w c); py = int (cursor_row c * cell_h c); c1 = clear_cell c
      in c1\<lparr>con_gfx := snd (font_draw_char (con_font c1) ch px py (fg_color c1) (con_gfx c1))\<rparr>)"

text \<open>\<^verbatim>\<open>(cursor_col + 4) & ~3\<close> is the next multiple of four.\<close>

definition put_body :: "u8 \<Rightarrow> console \<Rightarrow> console" where
  "put_body ch c =
     (if ch = 10 then newline c
      else if ch = 9 then
        let c1 = c\<lparr>cursor_col := (cursor_col c + 4) div 4 * 4\<rparr>
        in if max_cols c1 \<le> cursor_col c1 then newline c1 else c1
      else
        let c1 = (if max_cols c \<le> cursor_col c then newline c else c);
            c2 = draw_cell ch c1
        in c2\<lparr>cursor_col := cursor_col c2 + 1\<rparr>)"

definition console_putchar :: "u8 \<Rightarrow> console \<Rightarrow> console" where
  "console_putchar ch c =
     (let (flags, r) = irq_save (cpu_flags c);
          c1 = put_body ch (c\<lparr>cpu_flags := r\<rparr>)
      in c1\<lparr>cpu_flags := irq_restore flags (cpu_flags c1)\<rparr>)"

definition console_backspace :: "console \<Rightarrow> console" where
  "console_backspace c =
     (if cursor_col c = 0 then
        if cursor_row c = 0 then c
        else clear_cell (c\<lparr>cursor_row := cursor_row c - 1, cursor_col := max_cols c - 1\<rparr>)
      else clear_cell (c\<lparr>cursor_col := cursor_col c - 1\<rparr>))"

primrec console_puts :: "u8 list \<Rightarrow> console \<Rightarrow> console" where
  "console_puts [] c = c"
| "console_puts (ch # s) c = console_puts s (console_putchar ch c)"

definition console_set_fg :: "u32 \<Rightarrow> console \<Rightarrow> console" where "console_set_fg col c = c\<lparr>fg_color := col\<rparr>"
definition console_set_bg :: "u32 \<Rightarrow> console \<Rightarrow> console" where "console_set_bg col c = c\<lparr>bg_color := col\<rparr>"

definition console_clear :: "console \<Rightarrow> console" where
  "console_clear c = c\<lparr>con_gfx := gfx_clear_screen (con_gfx c), cursor_col := 0, cursor_row := 0\<rparr>"

section \<open>Formats\<close>

datatype varg = VInt u32 | VLong u64 | VPtr u64 | VStr "u8 list"

text \<open>The digit loop of \<^verbatim>\<open>console_write_uint\<close>, with the room left in its buffer, and the text written.\<close>

fun write_digits :: "nat \<Rightarrow> u64 \<Rightarrow> u64 \<Rightarrow> u8 list \<Rightarrow> u8 list option" where
  "write_digits room val base buf =
     (if val = 0 then Some buf
      else case room of
             0 \<Rightarrow> None
           | Suc r \<Rightarrow>
               let d = val mod base
               in write_digits r (val div base) base (buf @ [if d < 10 then 48 + ucast d else 97 + ucast d - 10]))"

definition console_write_uint :: "u64 \<Rightarrow> u64 \<Rightarrow> u8 list option" where
  "console_write_uint val base = (if val = 0 then Some [48] else map_option rev (write_digits 21 val base []))"

definition console_write_int :: "u64 \<Rightarrow> u8 list option" where
  "console_write_int val =
     (if sint val < 0 then map_option (\<lambda>t. 45 # t) (console_write_uint (- val) 10) else console_write_uint val 10)"

text \<open>\<^verbatim>\<open>serial_write_uint\<close> fills its buffer from the end.\<close>

definition hex_digits :: "u8 list" where
  "hex_digits = [48, 49, 50, 51, 52, 53, 54, 55, 56, 57, 97, 98, 99, 100, 101, 102]"

fun serial_digits :: "nat \<Rightarrow> u64 \<Rightarrow> u64 \<Rightarrow> u8 list \<Rightarrow> u8 list" where
  "serial_digits 0 val base buf = buf"
| "serial_digits (Suc i) val base buf =
     (if val \<noteq> 0 then serial_digits i (val div base) base (hex_digits ! unat (val mod base) # buf) else buf)"

definition serial_write_uint :: "u64 \<Rightarrow> u64 \<Rightarrow> u8 list option" where
  "serial_write_uint val base = (if val = 0 then Some [48] else Some (serial_digits 64 val base []))"

definition serial_write_int :: "u64 \<Rightarrow> u8 list option" where
  "serial_write_int val =
     (if sint val < 0 then map_option (\<lambda>t. 45 # t) (serial_write_uint (- val) 10) else serial_write_uint val 10)"

text \<open>One directive: the characters after the percent sign (108 is l, 100 d, 117 u, 120 x, 112 p, 115 s, 99 c) and the
  arguments; the text, what is left of the format and of the arguments.  \<open>wu\<close> and \<open>wi\<close> are the writers of the
  device.  A format that ends after the sign makes the code read behind its end.\<close>

fun directive :: "(u64 \<Rightarrow> u64 \<Rightarrow> u8 list option) \<Rightarrow> (u64 \<Rightarrow> u8 list option) \<Rightarrow> u8 list \<Rightarrow> varg list \<Rightarrow>
    (u8 list \<times> u8 list \<times> varg list) option" where
  "directive wu wi (c # p) args =
     (if c = 108 then
        (case p of
           [] \<Rightarrow> None
         | k # p' \<Rightarrow>
             if k = 100 then (case args of VLong v # as \<Rightarrow> map_option (\<lambda>t. (t, p', as)) (wi v) | _ \<Rightarrow> None)
             else if k = 117 then (case args of VLong v # as \<Rightarrow> map_option (\<lambda>t. (t, p', as)) (wu v 10) | _ \<Rightarrow> None)
             else if k = 120 then (case args of VLong v # as \<Rightarrow> map_option (\<lambda>t. (t, p', as)) (wu v 16) | _ \<Rightarrow> None)
             else Some ([37, 108, k], p', args))
      else if c = 100 then (case args of VInt v # as \<Rightarrow> map_option (\<lambda>t. (t, p, as)) (wi (scast v)) | _ \<Rightarrow> None)
      else if c = 117 then (case args of VInt v # as \<Rightarrow> map_option (\<lambda>t. (t, p, as)) (wu (ucast v) 10) | _ \<Rightarrow> None)
      else if c = 120 then (case args of VInt v # as \<Rightarrow> map_option (\<lambda>t. (t, p, as)) (wu (ucast v) 16) | _ \<Rightarrow> None)
      else if c = 112 then (case args of VPtr v # as \<Rightarrow> map_option (\<lambda>t. ([48, 120] @ t, p, as)) (wu v 16) | _ \<Rightarrow> None)
      else if c = 115 then (case args of VStr t # as \<Rightarrow> Some (t, p, as) | _ \<Rightarrow> None)
      else if c = 99 then (case args of VInt v # as \<Rightarrow> Some ([ucast v], p, as) | _ \<Rightarrow> None)
      else if c = 37 then Some ([37], p, args)
      else Some ([37, c], p, args))"
| "directive wu wi [] args = None"

lemma directive_shorter: "directive wu wi p args = Some (t, p', args') \<Longrightarrow> length p' < length p"
  by (induction wu wi p args rule: directive.induct)
    (auto split: if_splits list.splits varg.splits simp: Let_def)

function vformat :: "(u64 \<Rightarrow> u64 \<Rightarrow> u8 list option) \<Rightarrow> (u64 \<Rightarrow> u8 list option) \<Rightarrow> u8 list \<Rightarrow> varg list \<Rightarrow> u8 list option" where
  "vformat wu wi [] args = Some []"
| "vformat wu wi (c # p) args =
     (if c \<noteq> 37 then map_option (\<lambda>t. c # t) (vformat wu wi p args)
      else case directive wu wi p args of
             None \<Rightarrow> None
           | Some (t, p', args') \<Rightarrow> map_option (\<lambda>u. t @ u) (vformat wu wi p' args'))"
  by pat_completeness auto
termination
  by (relation "measure (\<lambda>(wu, wi, p, args). length p)") (auto dest: directive_shorter)

definition console_vprintf :: "u8 list \<Rightarrow> varg list \<Rightarrow> console \<Rightarrow> console option" where
  "console_vprintf fmt args c = map_option (\<lambda>t. console_puts t c) (vformat console_write_uint console_write_int fmt args)"

definition console_printf :: "u8 list \<Rightarrow> varg list \<Rightarrow> console \<Rightarrow> console option" where
  "console_printf fmt args c = console_vprintf fmt args c"

section \<open>Serial port\<close>

definition COM1_PORT :: u16 where "COM1_PORT = 0x3F8"

text \<open>The port: the bytes written to its registers, whether it was set up, and the values that successive reads of its line
  status register return.\<close>

record serial =
  ser_writes :: "(u16 \<times> u8) list"
  serial_initialized :: bool
  line_status :: "nat \<Rightarrow> u8"
  status_reads :: nat

definition ser_outb :: "u16 \<Rightarrow> u8 \<Rightarrow> serial \<Rightarrow> serial" where
  "ser_outb port v s = s\<lparr>ser_writes := ser_writes s @ [(port, v)]\<rparr>"

definition init_serial :: "serial \<Rightarrow> serial" where
  "init_serial s0 =
     (let s = s0\<lparr>serial_initialized := False\<rparr>;
          s1 = ser_outb (COM1_PORT + 1) 0x00 s;
          s2 = ser_outb (COM1_PORT + 3) 0x80 s1;
          s3 = ser_outb (COM1_PORT + 0) 0x03 s2;
          s4 = ser_outb (COM1_PORT + 1) 0x00 s3;
          s5 = ser_outb (COM1_PORT + 3) 0x03 s4;
          s6 = ser_outb (COM1_PORT + 2) 0xC7 s5;
          s7 = ser_outb (COM1_PORT + 4) 0x0B s6
      in s7\<lparr>serial_initialized := True\<rparr>)"

definition serial_transmit_empty :: "serial \<Rightarrow> u8 \<times> serial" where
  "serial_transmit_empty s = (line_status s (status_reads s) AND 0x20, s\<lparr>status_reads := status_reads s + 1\<rparr>)"

text \<open>The loop that waits for the transmitter; None is a wait that does not end.\<close>

partial_function (option) wait_transmit :: "serial \<Rightarrow> serial option" where
  "wait_transmit s = (let (v, s1) = serial_transmit_empty s in if v = 0 then wait_transmit s1 else Some s1)"

definition serial_putchar :: "u8 \<Rightarrow> serial \<Rightarrow> serial option" where
  "serial_putchar ch s = map_option (ser_outb COM1_PORT ch) (wait_transmit s)"

primrec serial_write :: "u8 list \<Rightarrow> serial \<Rightarrow> serial option" where
  "serial_write [] s = Some s"
| "serial_write (ch # t) s = do { s1 \<leftarrow> serial_putchar ch s; serial_write t s1 }"

definition serial_vprintf :: "u8 list \<Rightarrow> varg list \<Rightarrow> serial \<Rightarrow> serial option" where
  "serial_vprintf fmt args s = do { t \<leftarrow> vformat serial_write_uint serial_write_int fmt args; serial_write t s }"

definition serial_printf :: "u8 list \<Rightarrow> varg list \<Rightarrow> serial \<Rightarrow> serial option" where
  "serial_printf fmt args s = serial_vprintf fmt args s"

primrec hex_text :: "nat \<Rightarrow> u32 \<Rightarrow> u8 list \<Rightarrow> u8 list" where
  "hex_text 0 val buf = buf"
| "hex_text (Suc n) val buf = hex_text n (drop_bit 4 val) (hex_digits ! unat (val AND 0xF) # buf)"

definition serial_write_hex :: "u8 list \<Rightarrow> u32 \<Rightarrow> serial \<Rightarrow> serial option" where
  "serial_write_hex prefix val s = do {
     s1 \<leftarrow> serial_write prefix s;
     s2 \<leftarrow> serial_write [48, 120] s1;
     s3 \<leftarrow> serial_write (hex_text 8 val []) s2;
     serial_write [10] s3 }"

section \<open>Kernel log\<close>

datatype log_level = KERN_RAW | KERN_DEBUG | KERN_INFO | KERN_OK | KERN_WARN | KERN_ERROR | KERN_FATAL

primrec level_number :: "log_level \<Rightarrow> nat" where
  "level_number KERN_RAW = 0" | "level_number KERN_DEBUG = 1" | "level_number KERN_INFO = 2"
| "level_number KERN_OK = 3" | "level_number KERN_WARN = 4" | "level_number KERN_ERROR = 5"
| "level_number KERN_FATAL = 6"

definition DEBUG_FG :: u32 where "DEBUG_FG = rgb 0x87 0xCE 0xFA"
definition INFO_FG :: u32 where "INFO_FG = rgb 0xCC 0xCC 0xCC"
definition WARN_FG :: u32 where "WARN_FG = rgb 0xFF 0xFF 0x00"
definition ERROR_FG :: u32 where "ERROR_FG = rgb 0xFF 0x00 0x00"
definition FATAL_FG :: u32 where "FATAL_FG = rgb 0xFF 0xFF 0xFF"
definition OK_FG :: u32 where "OK_FG = rgb 0x00 0xCC 0x00"
definition FATAL_BG :: u32 where "FATAL_BG = rgb 0xCC 0x00 0x00"

definition ascii :: "string \<Rightarrow> u8 list" where "ascii s = map of_char s"

text \<open>The switch: tag and colours.  The case for warnings has no break.\<close>

fun level_tag :: "log_level \<Rightarrow> console \<Rightarrow> u8 list \<times> console" where
  "level_tag KERN_RAW c = ([], console_set_fg INFO_FG c)"
| "level_tag KERN_DEBUG c = (ascii ''[DBUG]:'', console_set_fg DEBUG_FG c)"
| "level_tag KERN_INFO c = (ascii ''[INFO]:'', console_set_fg INFO_FG c)"
| "level_tag KERN_OK c = (ascii ''[ OK ]:'', console_set_fg OK_FG c)"
| "level_tag KERN_ERROR c = (ascii ''[ERROR]:'', console_set_fg ERROR_FG c)"
| "level_tag KERN_FATAL c = (ascii ''[FATAL]:'', console_set_bg FATAL_BG (console_set_fg FATAL_FG c))"
| "level_tag KERN_WARN c =
     (ascii ''[FATAL]:'', console_set_bg FATAL_BG (console_set_fg FATAL_FG (console_set_fg WARN_FG c)))"

definition printk :: "log_level \<Rightarrow> log_level \<Rightarrow> u8 list \<Rightarrow> varg list \<Rightarrow> console \<times> serial \<Rightarrow> (console \<times> serial) option" where
  "printk threshold level fmt args = (\<lambda>(c, s).
     if level_number level < level_number threshold then Some (c, s)
     else let (tag, c1) = level_tag level c;
              c2 = console_puts tag c1
          in do {
            s1 \<leftarrow> serial_write tag s;
            c3 \<leftarrow> console_vprintf fmt args c2;
            s2 \<leftarrow> serial_vprintf fmt args s1;
            Some (console_set_bg (rgb 0 0 0) (console_set_fg INFO_FG c3), s2)
          })"

end
