(* ===== verification/Console_Proofs.thy ===== *)
theory Console_Proofs
  imports Console
begin

text \<open>
  The console shows a grid of characters.  A grid is a cursor and a cell for each position; the relation
  \<open>displays\<close> says that every pixel of the text area has the colour the grid's cell gives it.  Each
  operation of the console is shown to do to the pixels what it is meant to do to the grid.  The number
  writers of the console and of the serial port are shown to write the same digits.
\<close>

section \<open>Grids\<close>

datatype cell = Blank u32 | Glyph u8 u32 u32

fun cell_pixel :: "font \<Rightarrow> cell \<Rightarrow> nat \<Rightarrow> nat \<Rightarrow> u32" where
  "cell_pixel f (Blank bg) dx dy = bg"
| "cell_pixel f (Glyph ch fg bg) dx dy =
     (if in_font f ch \<and> dx < GlyphBytesWidth f * 8 \<and> glyph_bit f (unat ch - FirstAsciiCode f) dy dx then fg else bg)"

record grid =
  cells :: "nat \<Rightarrow> nat \<Rightarrow> cell"
  grow :: nat
  gcol :: nat

definition grid_newline :: "nat \<Rightarrow> u32 \<Rightarrow> grid \<Rightarrow> grid" where
  "grid_newline rows bg t =
     (if rows \<le> grow t + 1 then
        t\<lparr>cells := \<lambda>r. if r + 1 < rows then cells t (r + 1) else (\<lambda>_. Blank bg), grow := rows - 1, gcol := 0\<rparr>
      else t\<lparr>grow := grow t + 1, gcol := 0\<rparr>)"

definition grid_set :: "cell \<Rightarrow> grid \<Rightarrow> grid" where
  "grid_set x t = t\<lparr>cells := (cells t)(grow t := (cells t (grow t))(gcol t := x))\<rparr>"

definition grid_put :: "nat \<Rightarrow> nat \<Rightarrow> u32 \<Rightarrow> u32 \<Rightarrow> u8 \<Rightarrow> grid \<Rightarrow> grid" where
  "grid_put rows cols fg bg ch t =
     (if ch = 10 then grid_newline rows bg t
      else if ch = 9 then
        let t1 = t\<lparr>gcol := (gcol t + 4) div 4 * 4\<rparr> in if cols \<le> gcol t1 then grid_newline rows bg t1 else t1
      else
        let t1 = (if cols \<le> gcol t then grid_newline rows bg t else t); t2 = grid_set (Glyph ch fg bg) t1
        in t2\<lparr>gcol := gcol t2 + 1\<rparr>)"

definition grid_backspace :: "nat \<Rightarrow> u32 \<Rightarrow> grid \<Rightarrow> grid" where
  "grid_backspace cols bg t =
     (if gcol t = 0 then
        if grow t = 0 then t else grid_set (Blank bg) (t\<lparr>grow := grow t - 1, gcol := cols - 1\<rparr>)
      else grid_set (Blank bg) (t\<lparr>gcol := gcol t - 1\<rparr>))"

section \<open>The relation\<close>

text \<open>A font whose glyphs stay within the width of a cell, as the generator of the font tables produces them.\<close>

definition font_ok :: "font \<Rightarrow> nat \<Rightarrow> bool" where
  "font_ok f w \<longleftrightarrow> GlyphBytesWidth f \<le> 255 \<and> GlyphHeight f \<le> 255 \<and>
     (\<forall>ch row col. in_font f ch \<longrightarrow> row < GlyphHeight f \<longrightarrow> col < GlyphBytesWidth f * 8 \<longrightarrow>
        glyph_bit f (unat ch - FirstAsciiCode f) row col \<longrightarrow> col < w)"

text \<open>A console whose text area fits the screen and fills its height.\<close>

definition con_ok :: "console \<Rightarrow> bool" where
  "con_ok c \<longleftrightarrow> gfx_ok (con_gfx c) \<and> gtarget (con_gfx c) = GFX_TARGET_FRAMEBUFFER \<and> font_ok (con_font c) (cell_w c) \<and>
     0 < cell_w c \<and> 0 < cell_h c \<and> cell_h c = GlyphHeight (con_font c) \<and> 0 < max_rows c \<and> 0 < max_cols c \<and>
     screen_h c = fb_height (con_gfx c) \<and> fb_height (con_gfx c) = max_rows c * cell_h c \<and>
     max_cols c * cell_w c \<le> fb_width (con_gfx c)"

definition shows_cells :: "console \<Rightarrow> (nat \<Rightarrow> nat \<Rightarrow> cell) \<Rightarrow> bool" where
  "shows_cells c cs \<longleftrightarrow>
     (\<forall>x < max_cols c * cell_w c. \<forall>y < max_rows c * cell_h c.
        pixel (con_gfx c) x y =
          cell_pixel (con_font c) (cs (y div cell_h c) (x div cell_w c)) (x mod cell_w c) (y mod cell_h c))"

definition displays :: "console \<Rightarrow> grid \<Rightarrow> bool" where
  "displays c t \<longleftrightarrow> con_ok c \<and> cursor_row c = grow t \<and> cursor_col c = gcol t \<and> grow t < max_rows c \<and> gcol t \<le> max_cols c \<and>
     shows_cells c (cells t)"

text \<open>What no output operation changes.\<close>

definition same_setup :: "console \<Rightarrow> console \<Rightarrow> bool" where
  "same_setup c c' \<longleftrightarrow> same_geometry (con_gfx c) (con_gfx c') \<and> con_font c' = con_font c \<and> fg_color c' = fg_color c \<and>
     bg_color c' = bg_color c \<and> max_cols c' = max_cols c \<and> max_rows c' = max_rows c \<and> cell_w c' = cell_w c \<and>
     cell_h c' = cell_h c \<and> screen_h c' = screen_h c"

lemma same_setup_ok: "same_setup c c' \<Longrightarrow> con_ok c' = con_ok c"
  using same_geometry_ok(1) [of "con_gfx c" "con_gfx c'"] by (simp add: same_setup_def con_ok_def same_geometry_def)

lemma same_setup_refl [simp]: "same_setup c c"
  by (simp add: same_setup_def)

lemma same_setup_trans: "same_setup c c' \<Longrightarrow> same_setup c' c'' \<Longrightarrow> same_setup c c''"
  using same_geometry_trans [of "con_gfx c" "con_gfx c'" "con_gfx c''"] by (simp add: same_setup_def)

lemma shows_cells_cong:
  assumes "same_setup c c'" "shows_cells c cs"
    and "\<And>x y. x < max_cols c * cell_w c \<Longrightarrow> y < max_rows c * cell_h c \<Longrightarrow> pixel (con_gfx c') x y =
      (if x div cell_w c = j \<and> y div cell_h c = i
       then cell_pixel (con_font c) new (x mod cell_w c) (y mod cell_h c) else pixel (con_gfx c) x y)"
  shows "shows_cells c' (cs(i := (cs i)(j := new)))"
  using assms by (auto simp: shows_cells_def same_setup_def)

section \<open>Cells\<close>

lemma div_eq_range: "0 < (w :: nat) \<Longrightarrow> x div w = j \<longleftrightarrow> j * w \<le> x \<and> x < j * w + w"
  by (metis div_nat_eqI div_times_less_eq_dividend dividend_less_times_div mult.commute mult_Suc add.commute)

lemma cell_inside:
  assumes "con_ok c" "j < max_cols c" "i < max_rows c"
  shows "j * cell_w c + cell_w c \<le> fb_width (con_gfx c)" "i * cell_h c + cell_h c \<le> fb_height (con_gfx c)"
proof -
  have "(j + 1) * cell_w c \<le> max_cols c * cell_w c" "(i + 1) * cell_h c \<le> max_rows c * cell_h c"
    using assms(2,3) by (intro mult_le_mono1; simp)+
  then show "j * cell_w c + cell_w c \<le> fb_width (con_gfx c)" "i * cell_h c + cell_h c \<le> fb_height (con_gfx c)"
    using assms(1) by (simp_all add: con_ok_def)
qed

lemma clear_cell_setup [simp]: "same_setup c (clear_cell c)"
  by (simp add: clear_cell_def Let_def same_setup_def)

lemma clear_cell_pixel:
  assumes "con_ok c" "cursor_col c < max_cols c" "cursor_row c < max_rows c"
    and "x < max_cols c * cell_w c"
  shows "pixel (con_gfx (clear_cell c)) x y =
    (if x div cell_w c = cursor_col c \<and> y div cell_h c = cursor_row c then bg_color c else pixel (con_gfx c) x y)"
proof -
  define x0 y0 where xy0: "x0 = cursor_col c * cell_w c" "y0 = cursor_row c * cell_h c"
  have w: "0 < cell_w c" "0 < cell_h c" "gfx_ok (con_gfx c)" "x < fb_width (con_gfx c)"
    using assms by (auto simp: con_ok_def)
  have ins: "x0 + cell_w c \<le> fb_width (con_gfx c)" "y0 + cell_h c \<le> fb_height (con_gfx c)"
    using cell_inside [OF assms(1-3)] by (simp_all add: xy0)
  have "pixel (con_gfx (clear_cell c)) x y =
      (if int x0 \<le> int x \<and> int x \<le> int x0 + int (cell_w c) - 1 \<and> int y0 \<le> int y \<and>
        int y \<le> int y0 + int (cell_h c) - 1 then bg_color c else pixel (con_gfx c) x y)"
    unfolding clear_cell_def Let_def xy0 [symmetric] using w ins by (simp add: fill_rect_pixel)
  moreover have "int x0 \<le> int x \<and> int x \<le> int x0 + int (cell_w c) - 1 \<longleftrightarrow> x div cell_w c = cursor_col c"
    "int y0 \<le> int y \<and> int y \<le> int y0 + int (cell_h c) - 1 \<longleftrightarrow> y div cell_h c = cursor_row c"
    unfolding div_eq_range [OF w(1)] div_eq_range [OF w(2)] xy0 [symmetric] by linarith+
  ultimately show ?thesis by auto
qed

lemma draw_cell_setup [simp]: "same_setup c (draw_cell ch c)"
  using draw_char_geometry [of "con_gfx (clear_cell c)"] clear_cell_setup [of c]
  by (auto simp: draw_cell_def Let_def same_setup_def intro: same_geometry_trans)

lemma draw_cell_pixel:
  assumes "con_ok c" "cursor_col c < max_cols c" "cursor_row c < max_rows c"
    and "x < max_cols c * cell_w c" "y < max_rows c * cell_h c"
  shows "pixel (con_gfx (draw_cell ch c)) x y =
    (if x div cell_w c = cursor_col c \<and> y div cell_h c = cursor_row c
     then cell_pixel (con_font c) (Glyph ch (fg_color c) (bg_color c)) (x mod cell_w c) (y mod cell_h c)
     else pixel (con_gfx c) x y)"
proof -
  let ?f = "con_font c"
  define x0 y0 where xy0: "x0 = cursor_col c * cell_w c" "y0 = cursor_row c * cell_h c"
  have ok: "0 < cell_w c" "0 < cell_h c" "gfx_ok (con_gfx c)" "x < fb_width (con_gfx c)" "y < fb_height (con_gfx c)"
      "cell_h c = GlyphHeight ?f" "font_ok ?f (cell_w c)" "fb_width (con_gfx c) < 2 ^ 31" "fb_height (con_gfx c) < 2 ^ 31"
    using assms by (auto simp: con_ok_def gfx_ok_def)
  have ins: "x0 + cell_w c \<le> fb_width (con_gfx c)" "y0 + cell_h c \<le> fb_height (con_gfx c)"
    using cell_inside [OF assms(1-3)] by (simp_all add: xy0)
  have geo: "same_geometry (con_gfx c) (con_gfx (clear_cell c))" "con_font (clear_cell c) = ?f"
      "fg_color (clear_cell c) = fg_color c"
    using clear_cell_setup [of c] by (simp_all add: same_setup_def)
  note ok1 = geometry_transfer [OF geo(1) ok(3-5)]
  have "int x0 + int (GlyphBytesWidth ?f * 8) < 2 ^ 32" "int y0 + int (GlyphHeight ?f) < 2 ^ 32"
    using ok(7-9) ins by (auto simp: font_ok_def)
  note D = draw_char_pixel [OF ok1(1) of_nat_0_le_iff of_nat_0_le_iff this ok1(2,3), of ch "fg_color c"]
  let ?inside = "x div cell_w c = cursor_col c \<and> y div cell_h c = cursor_row c"
  let ?bit = "in_font ?f ch \<and> x0 \<le> x \<and> x < x0 + GlyphBytesWidth ?f * 8 \<and> y0 \<le> y \<and> y < y0 + cell_h c \<and>
    glyph_bit ?f (unat ch - FirstAsciiCode ?f) (y - y0) (x - x0)"
  have P: "pixel (con_gfx (draw_cell ch c)) x y = (if ?bit then fg_color c else pixel (con_gfx (clear_cell c)) x y)"
  proof -
    have "con_gfx (draw_cell ch c) = snd (font_draw_char ?f ch (int x0) (int y0) (fg_color c) (con_gfx (clear_cell c)))"
      by (simp add: draw_cell_def Let_def geo xy0)
    moreover have "int x0 \<le> int x \<and> int x < int x0 + int (GlyphBytesWidth ?f * 8) \<and> int y0 \<le> int y \<and>
        int y < int y0 + int (GlyphHeight ?f) \<longleftrightarrow> x0 \<le> x \<and> x < x0 + GlyphBytesWidth ?f * 8 \<and> y0 \<le> y \<and> y < y0 + cell_h c"
      using ok(6) by linarith
    ultimately show ?thesis using D by (auto split: if_splits)
  qed
  have mods: "x mod cell_w c = x - x0" "y mod cell_h c = y - y0" if ?inside
    using that unfolding xy0 by (metis minus_div_mult_eq_mod)+
  have bit_in: "?bit \<Longrightarrow> ?inside"
    using ok(6,7) less_diff_conv2 [of y0 y "GlyphHeight ?f"] less_diff_conv2 [of x0 x "GlyphBytesWidth ?f * 8"]
      less_diff_conv2 [of x0 x "cell_w c"]
    unfolding div_eq_range [OF ok(1)] div_eq_range [OF ok(2)] font_ok_def xy0 [symmetric] by (auto simp: add.commute)
  show ?thesis
  proof (cases ?inside)
    case True
    then have r: "x0 \<le> x" "y0 \<le> y" "y < y0 + cell_h c"
      unfolding div_eq_range [OF ok(1)] div_eq_range [OF ok(2)] xy0 by simp_all
    show ?thesis
      unfolding P clear_cell_pixel [OF assms(1-4)] using True mods [OF True] r by auto
  next
    case False
    then show ?thesis
      unfolding P clear_cell_pixel [OF assms(1-4)] using bit_in by auto
  qed
qed

section \<open>Scrolling\<close>

lemma scroll_up_setup [simp]: "same_setup c (scroll_up c)"
  by (simp add: scroll_up_def Let_def same_setup_def same_geometry_def)

lemma scroll_up_pixel:
  assumes "con_ok c" "x < max_cols c * cell_w c" "y < max_rows c * cell_h c"
  shows "pixel (con_gfx (scroll_up c)) x y =
    (if y + cell_h c < max_rows c * cell_h c then pixel (con_gfx c) x (y + cell_h c) else bg_color c)"
proof -
  define s where "s = stride (con_gfx c)"
  define h where "h = fb_height (con_gfx c) - cell_h c"
  have ok: "gtarget (con_gfx c) = GFX_TARGET_FRAMEBUFFER" "x < s" "screen_h c = fb_height (con_gfx c)"
      "fb_height (con_gfx c) = max_rows c * cell_h c" "0 < cell_h c" "0 < max_rows c"
    using assms by (auto simp: con_ok_def gfx_ok_def s_def)
  have hh: "h + cell_h c = max_rows c * cell_h c" using ok(4-6) by (simp add: h_def)
  let ?i = "y * s + x"
  have lt: "?i < s * h \<longleftrightarrow> y < h"
  proof
    show "?i < s * h" if "y < h"
    proof -
      have "?i < (y + 1) * s" using ok(2) by simp
      also have "\<dots> \<le> h * s" using that by (intro mult_le_mono1) simp
      finally show ?thesis by (simp add: mult.commute)
    qed
    show "y < h" if "?i < s * h"
    proof (rule ccontr)
      assume "\<not> y < h"
      then have "s * h \<le> y * s + x" using mult_le_mono2 [of h y s] by (simp add: mult.commute trans_le_add1)
      then show False using that by linarith
    qed
  qed
  have top: "?i < s * h + cell_h c * s"
  proof -
    have "?i < (y + 1) * s" using ok(2) by simp
    also have "\<dots> \<le> (h + cell_h c) * s" using assms(3) hh by (intro mult_le_mono1) simp
    finally show ?thesis by (simp add: algebra_simps)
  qed
  have "pixel (con_gfx (scroll_up c)) x y =
      fill_row (cell_h c * s) (s * h) (bg_color c) (copy_pixels (s * h) 0 (cell_h c * s) (fb_pixels (con_gfx c))) ?i"
    using ok(1,3) by (simp add: pixel_def scroll_up_def Let_def draw_buffer_def stride_def s_def h_def)
  also have "\<dots> = (if y < h then fb_pixels (con_gfx c) (cell_h c * s + ?i) else bg_color c)"
    using lt top by (simp add: fill_row_apply copy_pixels_apply not_less [symmetric] del: not_less)
  also have "fb_pixels (con_gfx c) (cell_h c * s + ?i) = pixel (con_gfx c) x (y + cell_h c)"
    using ok(1) by (simp add: pixel_def draw_buffer_def s_def algebra_simps)
  finally show ?thesis using hh by auto
qed

lemma scroll_up_shows:
  assumes "con_ok c" "shows_cells c cs"
  shows "shows_cells (scroll_up c) (\<lambda>r. if r + 1 < max_rows c then cs (r + 1) else (\<lambda>_. Blank (bg_color c)))"
proof -
  have st: "max_cols (scroll_up c) = max_cols c" "max_rows (scroll_up c) = max_rows c" "cell_w (scroll_up c) = cell_w c"
      "cell_h (scroll_up c) = cell_h c" "con_font (scroll_up c) = con_font c"
    using scroll_up_setup [of c] by (simp_all add: same_setup_def)
  have h: "0 < cell_h c" using assms(1) by (simp add: con_ok_def)
  show ?thesis
    unfolding shows_cells_def st
  proof (intro allI impI)
    fix x y assume xy: "x < max_cols c * cell_w c" "y < max_rows c * cell_h c"
    have d: "(y + cell_h c) div cell_h c = y div cell_h c + 1" "(y + cell_h c) mod cell_h c = y mod cell_h c"
      using h by (simp_all add: div_add_self2)
    have "y + cell_h c < max_rows c * cell_h c \<longleftrightarrow> y div cell_h c + 1 < max_rows c"
      using div_less_iff_less_mult [OF h, of "y + cell_h c" "max_rows c"] d(1) by simp
    then show "pixel (con_gfx (scroll_up c)) x y =
        cell_pixel (con_font c) ((if y div cell_h c + 1 < max_rows c then cs (y div cell_h c + 1)
          else (\<lambda>_. Blank (bg_color c))) (x div cell_w c)) (x mod cell_w c) (y mod cell_h c)"
      using assms(2) xy d unfolding scroll_up_pixel [OF assms(1) xy] shows_cells_def by auto
  qed
qed

section \<open>Operations\<close>

lemma shows_cursor:
  "same_setup c (c\<lparr>cursor_col := i, cursor_row := j, cpu_flags := fl\<rparr>)"
  "shows_cells (c\<lparr>cursor_col := i, cursor_row := j, cpu_flags := fl\<rparr>) cs = shows_cells c cs"
  by (simp_all add: same_setup_def shows_cells_def)

lemma newline_shows:
  assumes "con_ok c" "shows_cells c (cells t)" "cursor_row c = grow t" "grow t < max_rows c"
  shows "displays (newline c) (grid_newline (max_rows c) (bg_color c) t) \<and> same_setup c (newline c)"
proof -
  define c1 where "c1 = c\<lparr>cursor_col := 0, cursor_row := cursor_row c + 1\<rparr>"
  have c1: "same_setup c c1" "shows_cells c1 (cells t)" "con_ok c1"
    using assms same_setup_ok [of c c1] by (simp_all add: c1_def same_setup_def shows_cells_def)
  have f: "max_rows c1 = max_rows c" "bg_color c1 = bg_color c" "cursor_row c1 = grow t + 1" "cursor_col c1 = 0"
    using assms(3) by (simp_all add: c1_def)
  have nl: "newline c = (if max_rows c1 \<le> cursor_row c1 then scroll_up c1 else c1)"
    by (simp add: newline_def c1_def)
  show ?thesis
  proof (cases "max_rows c \<le> grow t + 1")
    case True
    have n: "newline c = scroll_up c1" using True f by (simp add: nl)
    have s: "same_setup c (scroll_up c1)" using same_setup_trans [OF c1(1)] by simp
    have "cursor_row (scroll_up c1) = max_rows c - 1" "cursor_col (scroll_up c1) = 0" "max_rows (scroll_up c1) = max_rows c"
      using f by (simp_all add: scroll_up_def Let_def)
    moreover have "0 < max_rows c" using assms(1) by (simp add: con_ok_def)
    ultimately show ?thesis
      using True s scroll_up_shows [OF c1(3,2), unfolded f(1,2)] same_setup_ok [OF s] assms(1)
      by (simp add: n displays_def grid_newline_def f)
  next
    case False
    have "newline c = c1" using False f by (simp add: nl)
    then show ?thesis
      using False f c1 by (simp add: displays_def grid_newline_def)
  qed
qed

lemma set_cell_shows:
  assumes "displays c t" "gcol t < max_cols c" "same_setup c c'" "cursor_row c' = grow t" "cursor_col c' = gcol t"
    and "\<And>x y. x < max_cols c * cell_w c \<Longrightarrow> y < max_rows c * cell_h c \<Longrightarrow> pixel (con_gfx c') x y =
      (if x div cell_w c = gcol t \<and> y div cell_h c = grow t
       then cell_pixel (con_font c) new (x mod cell_w c) (y mod cell_h c) else pixel (con_gfx c) x y)"
  shows "displays c' (grid_set new t)"
  using assms shows_cells_cong [OF assms(3) _ assms(6)] same_setup_ok [OF assms(3)]
  by (simp add: displays_def grid_set_def same_setup_def)

lemma cursor_after_draw [simp]:
  "cursor_row (clear_cell c) = cursor_row c" "cursor_col (clear_cell c) = cursor_col c"
  "cursor_row (draw_cell ch c) = cursor_row c" "cursor_col (draw_cell ch c) = cursor_col c"
  by (simp_all add: clear_cell_def draw_cell_def Let_def)

lemma draw_cell_shows:
  assumes "displays c t" "gcol t < max_cols c"
  shows "displays (draw_cell ch c) (grid_set (Glyph ch (fg_color c) (bg_color c)) t)"
  using assms by (intro set_cell_shows [OF assms]) (simp_all add: displays_def draw_cell_pixel)

lemma clear_cell_shows:
  assumes "displays c t" "gcol t < max_cols c"
  shows "displays (clear_cell c) (grid_set (Blank (bg_color c)) t)"
  using assms by (intro set_cell_shows [OF assms]) (simp_all add: displays_def clear_cell_pixel)

lemma shows_move:
  assumes "displays c t" "i < max_rows c" "j \<le> max_cols c"
  shows "displays (c\<lparr>cursor_row := i, cursor_col := j\<rparr>) (t\<lparr>grow := i, gcol := j\<rparr>)"
  using assms same_setup_ok [of c "c\<lparr>cursor_row := i, cursor_col := j\<rparr>"]
  by (simp add: displays_def shows_cells_def same_setup_def)

lemma shows_move_col:
  assumes "displays c t" "j \<le> max_cols c"
  shows "displays (c\<lparr>cursor_col := j\<rparr>) (t\<lparr>gcol := j\<rparr>)"
  using assms same_setup_ok [of c "c\<lparr>cursor_col := j\<rparr>"]
  by (simp add: displays_def shows_cells_def same_setup_def)

lemma displays_flags: "displays (c\<lparr>cpu_flags := r\<rparr>) t = displays c t"
  using same_setup_ok [of c "c\<lparr>cpu_flags := r\<rparr>"] by (simp add: displays_def shows_cells_def same_setup_def)

lemma newline_displays:
  "displays c t \<Longrightarrow> displays (newline c) (grid_newline (max_rows c) (bg_color c) t) \<and> same_setup c (newline c)"
  using newline_shows [of c t] by (simp add: displays_def)

lemma newline_column: "displays c t \<Longrightarrow> gcol (grid_newline (max_rows c) (bg_color c) t) = 0"
  by (simp add: grid_newline_def)

lemma put_body_displays:
  assumes "displays c t"
  shows "displays (put_body ch c) (grid_put (max_rows c) (max_cols c) (fg_color c) (bg_color c) ch t) \<and> same_setup c (put_body ch c)"
proof -
  note cur = assms [unfolded displays_def]
  consider "ch = 10" | "ch = 9" | "ch \<noteq> 10" "ch \<noteq> 9" by blast
  then show ?thesis
  proof cases
    case 1
    then show ?thesis using newline_displays [OF assms] by (simp add: put_body_def grid_put_def)
  next
    case 2
    define j where "j = (gcol t + 4) div 4 * 4"
    define c1 where "c1 = c\<lparr>cursor_col := j\<rparr>"
    have c1: "same_setup c c1" "max_cols c1 = max_cols c" "max_rows c1 = max_rows c" "bg_color c1 = bg_color c" "cursor_col c1 = j"
      by (simp_all add: c1_def same_setup_def)
    have body: "put_body ch c = (if max_cols c \<le> j then newline c1 else c1)"
      using 2 cur by (simp add: put_body_def c1_def j_def Let_def)
    show ?thesis
    proof (cases "max_cols c \<le> j")
      case True
      have "displays (newline c1) (grid_newline (max_rows c) (bg_color c) (t\<lparr>gcol := j\<rparr>)) \<and> same_setup c1 (newline c1)"
        using newline_shows [of c1 "t\<lparr>gcol := j\<rparr>"] cur same_setup_ok [OF c1(1)] c1
        by (simp add: c1_def shows_cells_def)
      then show ?thesis
        using True 2 body same_setup_trans [OF c1(1)] by (simp add: grid_put_def j_def Let_def)
    next
      case False
      have "displays c1 (t\<lparr>gcol := j\<rparr>)"
        using cur False same_setup_ok [OF c1(1)] by (simp add: displays_def c1_def shows_cells_def)
      then show ?thesis
        using False 2 body c1(1) by (simp add: grid_put_def j_def Let_def)
    qed
  next
    case 3
    define c1 where "c1 = (if max_cols c \<le> cursor_col c then newline c else c)"
    define t1 where "t1 = (if max_cols c \<le> gcol t then grid_newline (max_rows c) (bg_color c) t else t)"
    have c1: "displays c1 t1" "same_setup c c1" "gcol t1 < max_cols c1"
      using newline_displays [OF assms] newline_column [OF assms] assms cur
      by (auto simp: c1_def t1_def same_setup_def con_ok_def)
    have st: "max_cols c1 = max_cols c" "fg_color c1 = fg_color c" "bg_color c1 = bg_color c"
      using c1(2) by (simp_all add: same_setup_def)
    define c2 where "c2 = draw_cell ch c1"
    have c2: "displays c2 (grid_set (Glyph ch (fg_color c) (bg_color c)) t1)" "same_setup c1 c2"
      using draw_cell_shows [OF c1(1,3)] st by (simp_all add: c2_def)
    have "displays (c2\<lparr>cursor_col := cursor_col c2 + 1\<rparr>) ((grid_set (Glyph ch (fg_color c) (bg_color c)) t1)\<lparr>gcol := gcol t1 + 1\<rparr>)"
      using c2(1) c1(3) c2(2) same_setup_ok [of c2 "c2\<lparr>cursor_col := cursor_col c2 + 1\<rparr>"]
      by (simp add: displays_def shows_cells_def same_setup_def grid_set_def)
    moreover have "same_setup c (c2\<lparr>cursor_col := cursor_col c2 + 1\<rparr>)"
      using same_setup_trans [OF c1(2) c2(2)] by (simp add: same_setup_def)
    moreover have "put_body ch c = c2\<lparr>cursor_col := cursor_col c2 + 1\<rparr>"
      using 3 by (simp add: put_body_def c1_def c2_def Let_def)
    moreover have "grid_put (max_rows c) (max_cols c) (fg_color c) (bg_color c) ch t =
        (grid_set (Glyph ch (fg_color c) (bg_color c)) t1)\<lparr>gcol := gcol t1 + 1\<rparr>"
      using 3 by (simp add: grid_put_def t1_def grid_set_def Let_def)
    ultimately show ?thesis by simp
  qed
qed

lemma putchar_displays:
  assumes "displays c t"
  shows "displays (console_putchar ch c) (grid_put (max_rows c) (max_cols c) (fg_color c) (bg_color c) ch t) \<and>
    same_setup c (console_putchar ch c)"
proof -
  obtain flags r where fr: "irq_save (cpu_flags c) = (flags, r)" by (meson surj_pair)
  define c1 where "c1 = put_body ch (c\<lparr>cpu_flags := r\<rparr>)"
  have "displays (c\<lparr>cpu_flags := r\<rparr>) t" using assms by (simp add: displays_flags)
  from put_body_displays [OF this, of ch]
  have "displays c1 (grid_put (max_rows c) (max_cols c) (fg_color c) (bg_color c) ch t)" "same_setup c c1"
    by (simp_all add: c1_def same_setup_def)
  moreover have "console_putchar ch c = c1\<lparr>cpu_flags := irq_restore flags (cpu_flags c1)\<rparr>"
    by (simp add: console_putchar_def fr c1_def Let_def)
  ultimately show ?thesis by (simp add: displays_flags) (simp add: same_setup_def)
qed

lemma puts_displays:
  "displays c t \<Longrightarrow> displays (console_puts s c) (fold (grid_put (max_rows c) (max_cols c) (fg_color c) (bg_color c)) s t) \<and>
     same_setup c (console_puts s c)"
proof (induction s arbitrary: c t)
  case (Cons ch s)
  have p: "displays (console_putchar ch c) (grid_put (max_rows c) (max_cols c) (fg_color c) (bg_color c) ch t)"
    "same_setup c (console_putchar ch c)"
    using putchar_displays [OF Cons.prems] by auto
  show ?case
    using Cons.IH [OF p(1)] p(2) same_setup_trans [OF p(2)] by (simp add: same_setup_def)
qed simp

lemma backspace_displays:
  assumes "displays c t"
  shows "displays (console_backspace c) (grid_backspace (max_cols c) (bg_color c) t)"
proof -
  note cur = assms [unfolded displays_def]
  have C: "0 < max_cols c" using cur by (simp add: con_ok_def)
  have left: "displays (clear_cell (c\<lparr>cursor_col := j\<rparr>)) (grid_set (Blank (bg_color c)) (t\<lparr>gcol := j\<rparr>))"
    if "j < max_cols c" for j
    using clear_cell_shows [OF shows_move_col [OF assms, of j]] that by simp
  have move: "displays (clear_cell (c\<lparr>cursor_row := i, cursor_col := j\<rparr>)) (grid_set (Blank (bg_color c)) (t\<lparr>grow := i, gcol := j\<rparr>))"
    if "i < max_rows c" "j < max_cols c" for i j
    using clear_cell_shows [OF shows_move [OF assms that(1), of j]] that by simp
  show ?thesis
    using move [of "grow t - 1" "max_cols c - 1"] left [of "gcol t - 1"] cur C assms
    by (auto simp: console_backspace_def grid_backspace_def)
qed

section \<open>Numbers\<close>

text \<open>The value of a text of digits, most significant first.\<close>

definition digit_value :: "u8 \<Rightarrow> nat" where
  "digit_value ch = (if ch < 58 then unat ch - 48 else unat ch - 87)"

definition text_value :: "nat \<Rightarrow> u8 list \<Rightarrow> nat" where
  "text_value base t = foldr (\<lambda>ch v. digit_value ch + base * v) (rev t) 0"

lemma less_16_cases: "(d :: nat) < 16 \<Longrightarrow> d \<in> {0, 1, 2, 3, 4, 5, 6, 7, 8, 9, 10, 11, 12, 13, 14, 15}"
  unfolding insert_iff empty_iff by presburger

declare write_digits.simps [simp del]

lemma digit_char:
  assumes "(d :: u64) < 16"
  shows "(if d < 10 then 48 + ucast d else 97 + ucast d - 10 :: u8) = hex_digits ! unat d"
    "digit_value (hex_digits ! unat d) = unat d"
proof -
  define n where "n = unat d"
  have d: "d = of_nat n" by (simp add: n_def)
  have "n < 16" using assms by (simp add: n_def word_less_nat_alt)
  then have "n \<in> {0, 1, 2, 3, 4, 5, 6, 7, 8, 9, 10, 11, 12, 13, 14, 15}" by (rule less_16_cases)
  then show "(if d < 10 then 48 + ucast d else 97 + ucast d - 10 :: u8) = hex_digits ! unat d"
    "digit_value (hex_digits ! unat d) = unat d"
    unfolding d by (elim insertE emptyE; simp add: hex_digits_def digit_value_def)+
qed

lemma writers_agree:
  assumes "unat v < unat base ^ room" "room \<le> i" "2 \<le> base" "base \<le> 16"
  shows "\<exists>ds. write_digits room v base buf = Some (buf @ ds) \<and> serial_digits i v base acc = rev ds @ acc \<and>
    foldr (\<lambda>ch w. digit_value ch + unat base * w) ds 0 = unat v \<and> length ds \<le> room"
  using assms(1,2)
proof (induction room arbitrary: i v buf acc)
  case 0
  then have "v = 0" by (simp add: unat_eq_0)
  then show ?case by (cases i) (simp_all add: write_digits.simps [of 0])
next
  case (Suc room)
  obtain j where j: "i = Suc j" "room \<le> j" using Suc.prems(2) by (cases i) auto
  show ?case
  proof (cases "v = 0")
    case True
    then show ?thesis using j by (simp add: write_digits.simps [of "Suc room"])
  next
    case False
    let ?d = "hex_digits ! unat (v mod base)"
    have "base \<noteq> 0" using assms(3) by auto
    then have "v mod base < base" by (simp add: word_less_nat_alt unat_mod unat_gt_0)
    then have d: "v mod base < 16" using assms(4) by simp
    have "unat (v div base) < unat base ^ room"
      using Suc.prems(1) by (simp add: unat_div less_mult_imp_div_less mult.commute)
    then obtain ds where ds: "write_digits room (v div base) base (buf @ [?d]) = Some ((buf @ [?d]) @ ds)"
        "serial_digits j (v div base) base (?d # acc) = rev ds @ ?d # acc"
        "foldr (\<lambda>ch w. digit_value ch + unat base * w) ds 0 = unat (v div base)" "length ds \<le> room"
      using Suc.IH [OF _ j(2), of "v div base" "buf @ [?d]" "?d # acc"] by auto
    have "unat (v mod base) + unat base * unat (v div base) = unat v"
      by (simp add: unat_mod unat_div)
    then show ?thesis
      using False ds digit_char [OF d] j by (intro exI [of _ "?d # ds"]) (simp add: Let_def write_digits.simps [of "Suc room"])
  qed
qed

lemma write_uint_agree:
  assumes "base = 10 \<or> base = 16"
  shows "\<exists>t. console_write_uint v base = Some t \<and> serial_write_uint v base = Some t \<and>
    text_value (unat base) t = unat v \<and> t \<noteq> [] \<and> length t \<le> 21"
proof (cases "v = 0")
  case True
  then show ?thesis by (simp add: console_write_uint_def serial_write_uint_def text_value_def digit_value_def)
next
  case False
  have "unat v < 2 ^ 64" using unat_lt [of v] by simp
  also have "\<dots> \<le> unat base ^ 21" using assms by auto
  finally obtain ds where ds: "write_digits 21 v base [] = Some ds" "serial_digits 64 v base [] = rev ds"
      "foldr (\<lambda>ch w. digit_value ch + unat base * w) ds 0 = unat v" "length ds \<le> 21"
    using writers_agree [of v base 21 64 "[]" "[]"] assms by auto
  have "unat v \<noteq> 0" using False by (simp add: unat_eq_0)
  then have "ds \<noteq> []" using ds(3) by auto
  then show ?thesis
    using ds False by (simp add: console_write_uint_def serial_write_uint_def text_value_def)
qed

lemma uint_writers: "console_write_uint v 10 = serial_write_uint v 10" "console_write_uint v 16 = serial_write_uint v 16"
  using write_uint_agree [of 10 v] write_uint_agree [of 16 v] by auto

lemma int_writers: "console_write_int = serial_write_int"
  by (simp add: fun_eq_iff console_write_int_def serial_write_int_def uint_writers)

lemma directive_writers:
  "directive console_write_uint wi p args = directive serial_write_uint wi p args"
  by (cases p) (simp_all add: uint_writers split: list.split varg.split)

lemma vformat_writers:
  "vformat console_write_uint console_write_int fmt args = vformat serial_write_uint serial_write_int fmt args"
  unfolding int_writers
proof (induction "length fmt" arbitrary: fmt args rule: less_induct)
  case less
  show ?case
  proof (cases fmt)
    case (Cons c p)
    have "vformat console_write_uint serial_write_int q as = vformat serial_write_uint serial_write_int q as"
      if "length q \<le> length p" for q as
      using less [of q as] that Cons by simp
    then show ?thesis
      using directive_shorter [of serial_write_uint serial_write_int p args]
      by (auto simp: Cons directive_writers less_imp_le split: option.split)
  qed simp
qed

text \<open>A transmitter that becomes empty again and again.\<close>

definition transmits :: "serial \<Rightarrow> bool" where
  "transmits s \<longleftrightarrow> (\<forall>k. \<exists>j\<ge>k. line_status s j AND 0x20 \<noteq> 0)"

lemma wait_transmit_ends:
  assumes "status_reads s \<le> j" "line_status s j AND 0x20 \<noteq> 0"
  shows "\<exists>p. wait_transmit s = Some (s\<lparr>status_reads := p\<rparr>)"
  using assms
proof (induction "j - status_reads s" arbitrary: s)
  case 0
  then show ?case by (subst wait_transmit.simps) (auto simp: serial_transmit_empty_def)
next
  case (Suc n)
  show ?case
  proof (cases "line_status s (status_reads s) AND 0x20 = 0")
    case True
    have "\<exists>p. wait_transmit (s\<lparr>status_reads := status_reads s + 1\<rparr>) = Some (s\<lparr>status_reads := p\<rparr>)"
      using Suc.hyps(1) [of "s\<lparr>status_reads := status_reads s + 1\<rparr>"] Suc.hyps(2) Suc.prems by simp
    then show ?thesis using True by (subst wait_transmit.simps) (simp add: serial_transmit_empty_def)
  next
    case False
    then show ?thesis by (subst wait_transmit.simps) (auto simp: serial_transmit_empty_def)
  qed
qed

lemma serial_write_writes:
  "transmits s \<Longrightarrow>
     \<exists>p. serial_write t s = Some (s\<lparr>ser_writes := ser_writes s @ map (\<lambda>b. (COM1_PORT, b)) t, status_reads := p\<rparr>)"
proof (induction t arbitrary: s)
  case Nil
  show ?case by (intro exI [of _ "status_reads s"]) simp
next
  case (Cons ch t)
  obtain j where "status_reads s \<le> j" "line_status s j AND 0x20 \<noteq> 0" using Cons.prems by (auto simp: transmits_def)
  then obtain p where "wait_transmit s = Some (s\<lparr>status_reads := p\<rparr>)" using wait_transmit_ends [of s j] by blast
  then have p: "serial_putchar ch s = Some (s\<lparr>ser_writes := ser_writes s @ [(COM1_PORT, ch)], status_reads := p\<rparr>)"
    by (simp add: serial_putchar_def ser_outb_def)
  show ?case
    using Cons.IH [of "s\<lparr>ser_writes := ser_writes s @ [(COM1_PORT, ch)], status_reads := p\<rparr>"] Cons.prems
    by (simp add: p transmits_def)
qed

lemma console_puts_append: "console_puts (s @ t) c = console_puts t (console_puts s c)"
  by (induction s arbitrary: c) simp_all

section \<open>Properties\<close>


definition tiny_font :: font where
  "tiny_font = \<lparr>GlyphCount = 1, FirstAsciiCode = 65, GlyphBytesWidth = 1, GlyphHeight = 2, FixedWidth = 2, GlyphWidth = [],
     GlyphBitmaps = [0x80, 0x40]\<rparr>"

definition tiny_console :: console where
  "tiny_console = console_init tiny_font (gfx_init 24 6 4 (\<lambda>_. 0)) 0x202"

lemma tiny_font_ok: "font_ok tiny_font 2"
proof -
  have "list_all (\<lambda>row. list_all (\<lambda>col. glyph_bit tiny_font 0 row col \<longrightarrow> col < 2) [0..<8]) [0..<2]"
    by code_simp
  then have "glyph_bit tiny_font 0 row col \<Longrightarrow> row < 2 \<Longrightarrow> col < 8 \<Longrightarrow> col < 2" for row col
    by (auto simp: list_all_iff)
  moreover have "in_font tiny_font ch \<Longrightarrow> unat ch - FirstAsciiCode tiny_font = 0" for ch
    by (auto simp: in_font_def tiny_font_def)
  ultimately show ?thesis
    by (auto simp: font_ok_def) (simp_all add: tiny_font_def)
qed


text \<open>A number is written with the digits of its value, the same on the screen and on the serial line, and the text fits the
  smaller of the two buffers.\<close>

lemma write_uint_roundtrip:
  assumes "base = 10 \<or> base = 16"
  shows "\<exists>t. console_write_uint v base = Some t \<and> serial_write_uint v base = Some t \<and>
    text_value (unat base) t = unat v \<and> t \<noteq> [] \<and> length t \<le> 21"
  using write_uint_agree [OF assms] .

lemma write_uint_roundtrip_witness:
  "\<exists>t. console_write_uint 3735928559 16 = Some t \<and> text_value 16 t = 3735928559"
  using write_uint_roundtrip [of 16 3735928559] by auto


definition ready_port :: serial where
  "ready_port = \<lparr>ser_writes = [], serial_initialized = True, line_status = (\<lambda>_. 0x60), status_reads = 0\<rparr>"


end
