(* ===== verification/Terminal.thy ===== *)
theory Terminal
  imports Prelude
begin

text \<open>
  The text-mode terminals: \<^verbatim>\<open>arch/i386/drivers/tty.c\<close> (scrolling, backspace, hardware cursor) and
  \<^verbatim>\<open>arch/x86_64/drivers/tty.c\<close> (wraps to the top), with the cell encoding of \<^verbatim>\<open>include/kernel/vga.h\<close>.

  The text buffer is a function from cell numbers to cells, so that a store behind the 2000 cells of the
  screen is visible.  Sizes are natural numbers reduced to the width of \<^verbatim>\<open>size_t\<close> where the code computes one.
  Port writes are recorded in order; \<open>crtc\<close> is what the display controller keeps of them.
\<close>

section \<open>Cells\<close>

definition vga_entry_color :: "u8 \<Rightarrow> u8 \<Rightarrow> u8" where
  "vga_entry_color fg bg = fg OR push_bit 4 bg"

definition vga_entry :: "u8 \<Rightarrow> u8 \<Rightarrow> u16" where
  "vga_entry uc color = ucast uc OR push_bit 8 (ucast color)"

definition VGA_COLOR_BLACK :: u8 where "VGA_COLOR_BLACK = 0"
definition VGA_COLOR_LIGHT_GREY :: u8 where "VGA_COLOR_LIGHT_GREY = 7"
definition VGA_COLOR_RED :: u8 where "VGA_COLOR_RED = 4"
definition VGA_COLOR_WHITE :: u8 where "VGA_COLOR_WHITE = 15"

abbreviation VGA_WIDTH :: nat where "VGA_WIDTH \<equiv> 80"
abbreviation VGA_HEIGHT :: nat where "VGA_HEIGHT \<equiv> 25"

section \<open>State\<close>

type_synonym vga_mem = "nat \<Rightarrow> u16"

record tty =
  terminal_row :: nat
  terminal_column :: nat
  terminal_color :: u8
  terminal_buffer :: vga_mem
  vga_ports :: "(u16 \<times> u8) list"

text \<open>One row of a loop over the columns: fill it, or copy the row \<open>n\<close> below.\<close>

definition fill_cells :: "u16 \<Rightarrow> nat \<Rightarrow> vga_mem \<Rightarrow> vga_mem" where
  "fill_cells e r b = fold (\<lambda>c b. b(r * VGA_WIDTH + c := e)) [0..<VGA_WIDTH] b"

definition copy_cells :: "nat \<Rightarrow> nat \<Rightarrow> vga_mem \<Rightarrow> vga_mem" where
  "copy_cells n r b = fold (\<lambda>c b. b(r * VGA_WIDTH + c := b ((r + n) * VGA_WIDTH + c))) [0..<VGA_WIDTH] b"

section \<open>i386\<close>

definition tty_outb :: "u16 \<Rightarrow> u8 \<Rightarrow> tty \<Rightarrow> tty" where
  "tty_outb port v t = t\<lparr>vga_ports := vga_ports t @ [(port, v)]\<rparr>"

definition VGA_CTRL_REGISTER :: u16 where "VGA_CTRL_REGISTER = 0x3D4"
definition VGA_DATA_REGISTER :: u16 where "VGA_DATA_REGISTER = 0x3D5"
definition VGA_CURSOR_LOC_HIGH :: u8 where "VGA_CURSOR_LOC_HIGH = 0x0E"
definition VGA_CURSOR_LOC_LOW :: u8 where "VGA_CURSOR_LOC_LOW = 0x0F"

definition update_hardware_cursor :: "tty \<Rightarrow> tty" where
  "update_hardware_cursor t =
     (let cursor_location = of_nat (terminal_row t * VGA_WIDTH + terminal_column t) :: u16;
          t1 = tty_outb VGA_CTRL_REGISTER VGA_CURSOR_LOC_HIGH t;
          t2 = tty_outb VGA_DATA_REGISTER (ucast (drop_bit 8 cursor_location)) t1;
          t3 = tty_outb VGA_CTRL_REGISTER VGA_CURSOR_LOC_LOW t2
      in tty_outb VGA_DATA_REGISTER (ucast (cursor_location AND 0xFF)) t3)"

definition blank_screen :: "u8 \<Rightarrow> tty \<Rightarrow> tty" where
  "blank_screen color t =
     t\<lparr>terminal_row := 0, terminal_column := 0, terminal_color := color,
       terminal_buffer := fold (fill_cells (vga_entry 32 color)) [0..<VGA_HEIGHT] (terminal_buffer t)\<rparr>"

definition terminal_initialize :: "tty \<Rightarrow> tty" where
  "terminal_initialize t =
     update_hardware_cursor (blank_screen (vga_entry_color VGA_COLOR_WHITE VGA_COLOR_BLACK) t)"

definition terminal_setcolor :: "u8 \<Rightarrow> tty \<Rightarrow> tty" where
  "terminal_setcolor color t = t\<lparr>terminal_color := color\<rparr>"

definition terminal_set_cursor :: "nat \<Rightarrow> nat \<Rightarrow> tty \<Rightarrow> tty" where
  "terminal_set_cursor x y t = update_hardware_cursor (t\<lparr>terminal_row := y, terminal_column := x\<rparr>)"

definition put_cell :: "u16 \<Rightarrow> nat \<Rightarrow> nat \<Rightarrow> tty \<Rightarrow> tty" where
  "put_cell e x y t = t\<lparr>terminal_buffer := (terminal_buffer t)((y * VGA_WIDTH + x) mod 2 ^ 32 := e)\<rparr>"

definition terminal_putentryat_visual_debug :: "u8 \<Rightarrow> u8 \<Rightarrow> nat \<Rightarrow> nat \<Rightarrow> tty \<Rightarrow> tty" where
  "terminal_putentryat_visual_debug c color x y t =
     (if VGA_WIDTH \<le> x \<or> VGA_HEIGHT \<le> y
      then put_cell (vga_entry 33 (vga_entry_color VGA_COLOR_WHITE VGA_COLOR_RED)) 0 0 t
      else put_cell (vga_entry c color) x y t)"

text \<open>The first component says whether the breakpoint interrupt is raised.\<close>

definition terminal_putentryat_interrupt_debug :: "u8 \<Rightarrow> u8 \<Rightarrow> nat \<Rightarrow> nat \<Rightarrow> tty \<Rightarrow> bool \<times> tty" where
  "terminal_putentryat_interrupt_debug c color x y t =
     (if VGA_WIDTH \<le> x \<or> VGA_HEIGHT \<le> y then (True, t) else (False, put_cell (vga_entry c color) x y t))"

text \<open>The check outside the screen writes BUGBUGBUG and waits for an interrupt; when one has come, the code
  goes on with the store.\<close>

definition terminal_putentryat :: "u8 \<Rightarrow> u8 \<Rightarrow> nat \<Rightarrow> nat \<Rightarrow> tty \<Rightarrow> tty" where
  "terminal_putentryat c color x y t =
     (let t1 = (if VGA_WIDTH \<le> x \<or> VGA_HEIGHT \<le> y
                then fold (\<lambda>(i, ch). put_cell (vga_entry ch (terminal_color t)) i 0)
                       (zip [0..<9] [66, 85, 71, 66, 85, 71, 66, 85, 71]) t
                else t)
      in put_cell (vga_entry c color) x y t1)"

definition terminal_scroll :: "tty \<Rightarrow> tty" where
  "terminal_scroll t =
     (let b = fold (copy_cells 1) [0..<VGA_HEIGHT - 1] (terminal_buffer t)
      in t\<lparr>terminal_buffer := fill_cells (vga_entry 32 (terminal_color t)) (VGA_HEIGHT - 1) b\<rparr>)"

definition terminal_scrolln :: "nat \<Rightarrow> tty \<Rightarrow> tty" where
  "terminal_scrolln rows t =
     (let blank = vga_entry 32 (terminal_color t)
      in if rows = 0 then t
         else if VGA_HEIGHT \<le> rows
         then t\<lparr>terminal_buffer := fold (\<lambda>i b. b(i := blank)) [0..<VGA_WIDTH * VGA_HEIGHT] (terminal_buffer t)\<rparr>
         else t\<lparr>terminal_buffer := fold (fill_cells blank) [VGA_HEIGHT - rows..<VGA_HEIGHT]
                  (fold (copy_cells rows) [0..<VGA_HEIGHT - rows] (terminal_buffer t))\<rparr>)"

definition terminal_newline :: "tty \<Rightarrow> tty" where
  "terminal_newline t =
     (let t1 = (if VGA_HEIGHT - 1 \<le> terminal_row t then (terminal_scroll t)\<lparr>terminal_row := VGA_HEIGHT - 1\<rparr>
                else t\<lparr>terminal_row := terminal_row t + 1\<rparr>)
      in update_hardware_cursor (t1\<lparr>terminal_column := 0\<rparr>))"

definition terminal_putchar :: "u8 \<Rightarrow> tty \<Rightarrow> tty" where
  "terminal_putchar c t =
     (if c = 8 then
        if 0 < terminal_column t then
          let t1 = t\<lparr>terminal_column := terminal_column t - 1\<rparr>
          in update_hardware_cursor (terminal_putentryat 32 (terminal_color t1) (terminal_column t1) (terminal_row t1) t1)
        else t
      else if c = 10 then terminal_newline t
      else
        let t1 = terminal_putentryat c (terminal_color t) (terminal_column t) (terminal_row t) t;
            t2 = t1\<lparr>terminal_column := (terminal_column t1 + 1) mod 2 ^ 32\<rparr>;
            t3 = (if VGA_WIDTH \<le> terminal_column t2 then
                    let t4 = t2\<lparr>terminal_column := 0, terminal_row := (terminal_row t2 + 1) mod 2 ^ 32\<rparr>
                    in if VGA_HEIGHT \<le> terminal_row t4 then (terminal_scroll t4)\<lparr>terminal_row := VGA_HEIGHT - 1\<rparr> else t4
                  else t2)
        in update_hardware_cursor t3)"

text \<open>None: the message of the check was printed and the machine halted.\<close>

definition terminal_putchar_at :: "u8 \<Rightarrow> int \<Rightarrow> int \<Rightarrow> tty \<Rightarrow> tty option" where
  "terminal_putchar_at c x y t =
     (if x < 0 \<or> y < 0 \<or> int VGA_WIDTH \<le> x \<or> int VGA_HEIGHT \<le> y then None
      else Some (terminal_putentryat c (terminal_color t) (nat x) (nat y) t))"

definition terminal_write :: "u8 list \<Rightarrow> tty \<Rightarrow> tty" where
  "terminal_write data t = fold terminal_putchar data t"

text \<open>The digits of \<^verbatim>\<open>terminal_write_dec\<close>, least first, with the room left in \<^verbatim>\<open>tmp\<close>; None is a store behind it.\<close>

primrec dec_digits :: "nat \<Rightarrow> u32 \<Rightarrow> u32 list option" where
  "dec_digits 0 n = None"
| "dec_digits (Suc room) n =
     (if n div 10 = 0 then Some [n mod 10] else map_option ((#) (n mod 10)) (dec_digits room (n div 10)))"

definition terminal_write_dec :: "u32 \<Rightarrow> tty \<Rightarrow> tty option" where
  "terminal_write_dec n t =
     map_option (\<lambda>tmp. fold (\<lambda>d. terminal_putchar (48 + ucast d)) (rev tmp) t) (dec_digits 11 n)"

definition print_colored :: "u8 list \<Rightarrow> u8 \<Rightarrow> u8 \<Rightarrow> tty \<Rightarrow> tty" where
  "print_colored str fg bg t =
     (let old_color = terminal_color t
      in (terminal_write str (t\<lparr>terminal_color := vga_entry_color fg bg\<rparr>))\<lparr>terminal_color := old_color\<rparr>)"

section \<open>x86-64\<close>

definition terminal_initialize64 :: "tty \<Rightarrow> tty" where
  "terminal_initialize64 t = blank_screen (vga_entry_color VGA_COLOR_LIGHT_GREY VGA_COLOR_BLACK) t"

definition terminal_setcolor64 :: "u8 \<Rightarrow> tty \<Rightarrow> tty" where
  "terminal_setcolor64 color t = t\<lparr>terminal_color := color\<rparr>"

definition terminal_putentryat64 :: "u8 \<Rightarrow> u8 \<Rightarrow> nat \<Rightarrow> nat \<Rightarrow> tty \<Rightarrow> tty" where
  "terminal_putentryat64 c color x y t =
     t\<lparr>terminal_buffer := (terminal_buffer t)((y * VGA_WIDTH + x) mod 2 ^ 64 := vga_entry c color)\<rparr>"

definition next_row64 :: "tty \<Rightarrow> tty" where
  "next_row64 t =
     (let r = (terminal_row t + 1) mod 2 ^ 64
      in t\<lparr>terminal_column := 0, terminal_row := (if r = VGA_HEIGHT then 0 else r)\<rparr>)"

definition terminal_putchar64 :: "u8 \<Rightarrow> tty \<Rightarrow> tty" where
  "terminal_putchar64 c t =
     (if c = 10 then next_row64 t
      else
        let t1 = terminal_putentryat64 c (terminal_color t) (terminal_column t) (terminal_row t) t;
            t2 = t1\<lparr>terminal_column := (terminal_column t1 + 1) mod 2 ^ 64\<rparr>
        in if terminal_column t2 = VGA_WIDTH then next_row64 t2 else t2)"

definition terminal_write64 :: "u8 list \<Rightarrow> tty \<Rightarrow> tty" where
  "terminal_write64 data t = fold terminal_putchar64 data t"

definition print_colored64 :: "u8 list \<Rightarrow> u8 \<Rightarrow> u8 \<Rightarrow> tty \<Rightarrow> tty" where
  "print_colored64 str fg bg t =
     (let old_color = terminal_color t
      in (terminal_write64 str (t\<lparr>terminal_color := vga_entry_color fg bg\<rparr>))\<lparr>terminal_color := old_color\<rparr>)"

end
