(* ===== verification/Terminal_Proofs.thy ===== *)
theory Terminal_Proofs
  imports Terminal
begin

text \<open>
  The terminals show what was printed.  The i386 terminal refines a grid of 25 rows of 80 cells with
  scrolling and backspace, keeps the hardware cursor where it prints, and stores nowhere else; from that
  follows what the screen shows after any number of lines.  What both terminals promise to their callers is
  the locale \<open>terminal\<close>.
\<close>

section \<open>Rows and cells\<close>

declare upt_rec_numeral [simp del] distrib_right_numeral [simp del]

lemma cell_inj [simp]:
  assumes "c < 80" and "c' < (80 :: nat)"
  shows "r * 80 + c = r' * 80 + c' \<longleftrightarrow> r = r' \<and> c = c'"
proof
  assume eq: "r * 80 + c = r' * 80 + c'"
  have "(r * 80 + c) div 80 = r" "(r' * 80 + c') div 80 = r'" using assms by simp_all
  with eq show "r = r' \<and> c = c'" by simp
qed simp

lemma fill_cells_upto:
  assumes "n \<le> 80" and "c < 80"
  shows "fold (\<lambda>c b. b(r * 80 + c := e)) [0..<n] b (r' * 80 + c) = (if r' = r \<and> c < n then e else b (r' * 80 + c))"
  using assms by (induction n) (auto simp: less_Suc_eq)

lemma fill_cells_at [simp]:
  "c < 80 \<Longrightarrow> fill_cells e r b (r' * 80 + c) = (if r' = r then e else b (r' * 80 + c))"
  using fill_cells_upto [OF order_refl, of c r e b r'] by (simp add: fill_cells_def)

lemma copy_cells_upto:
  assumes "n \<le> 80" and "c < 80" and "0 < k"
  shows "fold (\<lambda>c b. b(r * 80 + c := b ((r + k) * 80 + c))) [0..<n] b (r' * 80 + c) =
    (if r' = r \<and> c < n then b ((r + k) * 80 + c) else b (r' * 80 + c))"
  using assms(1,2)
proof (induction n arbitrary: r' c)
  case 0
  then show ?case by simp
next
  case (Suc n)
  then have "n \<le> 80" "n < 80" by simp_all
  with Suc show ?case using assms(3) by (auto simp: less_Suc_eq)
qed

lemma copy_cells_at [simp]:
  assumes "c < 80" and "0 < k"
  shows "copy_cells k r b (r' * 80 + c) = (if r' = r then b ((r + k) * 80 + c) else b (r' * 80 + c))"
  using copy_cells_upto [OF order_refl assms, of r b r'] assms(1) by (auto simp: copy_cells_def)

lemma fold_fill_at:
  assumes "c < 80" and "distinct rs"
  shows "fold (fill_cells e) rs b (r * 80 + c) = (if r \<in> set rs then e else b (r * 80 + c))"
  using assms by (induction rs arbitrary: b) auto

lemma fold_copy_at:
  assumes "c < 80" and "0 < k"
  shows "fold (copy_cells k) [0..<n] b (r * 80 + c) = (if r < n then b ((r + k) * 80 + c) else b (r * 80 + c))"
  using assms by (induction n arbitrary: r) (auto simp: less_Suc_eq)

lemma beyond_rows: "r < 25 \<Longrightarrow> c < 80 \<Longrightarrow> 2000 \<le> k \<Longrightarrow> r * 80 + c \<noteq> (k :: nat)"
  by linarith

lemma cell_split: "\<exists>r c. k = r * 80 + c \<and> c < (80 :: nat)"
  by (rule exI [of _ "k div 80"], rule exI [of _ "k mod 80"]) simp

section \<open>The screen\<close>

text \<open>The rows of a terminal, and the grid a terminal with this interface is meant to be.\<close>

definition tty_rows :: "tty \<Rightarrow> u16 list list" where
  "tty_rows t = map (\<lambda>r. map (\<lambda>c. terminal_buffer t (r * 80 + c)) [0..<80]) [0..<25]"

definition grid_put :: "u16 \<Rightarrow> nat \<Rightarrow> nat \<Rightarrow> u16 list list \<Rightarrow> u16 list list" where
  "grid_put e r c g = g[r := (g ! r)[c := e]]"

definition grid_scroll :: "u16 \<Rightarrow> u16 list list \<Rightarrow> u16 list list" where
  "grid_scroll e g = tl g @ [replicate 80 e]"

definition grid_next :: "u16 \<Rightarrow> u16 list list \<times> nat \<Rightarrow> u16 list list \<times> nat \<times> nat" where
  "grid_next blank = (\<lambda>(g, r). if r < 24 then (g, Suc r, 0) else (grid_scroll blank g, 24, 0))"

definition grid_putchar :: "u8 \<Rightarrow> u8 \<Rightarrow> u16 list list \<times> nat \<times> nat \<Rightarrow> u16 list list \<times> nat \<times> nat" where
  "grid_putchar color ch = (\<lambda>(g, r, c).
     let blank = vga_entry 32 color
     in if ch = 8 then (if c = 0 then (g, r, c) else (grid_put blank r (c - 1) g, r, c - 1))
        else if ch = 10 then grid_next blank (g, r)
        else let g' = grid_put (vga_entry ch color) r c g
             in if c < 79 then (g', r, Suc c) else grid_next blank (g', r))"

definition tty_grid :: "tty \<Rightarrow> u16 list list \<times> nat \<times> nat" where
  "tty_grid t = (tty_rows t, terminal_row t, terminal_column t)"

definition on_screen :: "tty \<Rightarrow> bool" where
  "on_screen t \<longleftrightarrow> terminal_row t < 25 \<and> terminal_column t < 80"

lemma tty_rows_eqI:
  assumes "length g = 25" and "\<And>r. r < 25 \<Longrightarrow> length (g ! r) = 80"
    and "\<And>r c. r < 25 \<Longrightarrow> c < 80 \<Longrightarrow> terminal_buffer t (r * 80 + c) = g ! r ! c"
  shows "tty_rows t = g"
  using assms by (auto simp: tty_rows_def intro!: nth_equalityI)

lemma tty_rows_shape [simp]:
  "length (tty_rows t) = 25" "r < 25 \<Longrightarrow> length (tty_rows t ! r) = 80"
  by (simp_all add: tty_rows_def)

lemma tty_rows_nth [simp]:
  "r < 25 \<Longrightarrow> c < 80 \<Longrightarrow> tty_rows t ! r ! c = terminal_buffer t (r * 80 + c)"
  by (simp add: tty_rows_def)

lemma tty_rows_cong: "terminal_buffer t = terminal_buffer t' \<Longrightarrow> tty_rows t = tty_rows t'"
  by (simp add: tty_rows_def)

lemma put_cell_rows:
  assumes "x < 80" "y < 25"
  shows "tty_rows (put_cell e x y t) = grid_put e y x (tty_rows t)"
proof (rule tty_rows_eqI)
  have small: "(y * 80 + x) mod 2 ^ 32 = y * 80 + x" using assms by simp
  show "terminal_buffer (put_cell e x y t) (r * 80 + c) = grid_put e y x (tty_rows t) ! r ! c"
    if "r < 25" "c < 80" for r c
    using assms that unfolding put_cell_def small by (auto simp: grid_put_def nth_list_update)
qed (use assms in \<open>auto simp: grid_put_def nth_list_update\<close>)

lemma scroll_rows: "tty_rows (terminal_scroll t) = grid_scroll (vga_entry 32 (terminal_color t)) (tty_rows t)"
proof (rule tty_rows_eqI)
  show "terminal_buffer (terminal_scroll t) (r * 80 + c) = grid_scroll (vga_entry 32 (terminal_color t)) (tty_rows t) ! r ! c"
    if "r < 25" "c < 80" for r c
    using that
    by (auto simp: terminal_scroll_def Let_def fold_copy_at grid_scroll_def nth_append nth_tl)
qed (auto simp: grid_scroll_def nth_append nth_tl)

text \<open>Scrolling by several rows is scrolling row by row.\<close>

lemma scrolln_rows:
  assumes "n \<le> 25"
  shows "tty_rows (terminal_scrolln n t) = (grid_scroll (vga_entry 32 (terminal_color t)) ^^ n) (tty_rows t)"
proof -
  define e where "e = vga_entry 32 (terminal_color t)"
  have iter: "(grid_scroll e ^^ k) g = drop k g @ replicate k (replicate 80 e)" if "k \<le> length g" for k g
    using that
  proof (induction k)
    case (Suc k)
    then show ?case
      by (simp add: grid_scroll_def drop_Suc tl_drop replicate_append_same)
  qed simp
  have "tty_rows (terminal_scrolln n t) = drop n (tty_rows t) @ replicate n (replicate 80 e)"
  proof (rule tty_rows_eqI)
    show "terminal_buffer (terminal_scrolln n t) (r * 80 + c) = (drop n (tty_rows t) @ replicate n (replicate 80 e)) ! r ! c"
      if "r < 25" "c < 80" for r c
    proof (cases "n = 25")
      case True
      have all: "fold (\<lambda>i b. b(i := e)) [0..<m] b k = (if k < m then e else b k)" for m b and k :: nat
        by (induction m) (auto simp: less_Suc_eq)
      have "r * 80 + c < 80 * 25" using that by linarith
      with True show ?thesis using that
        by (simp add: terminal_scrolln_def Let_def all e_def [symmetric])
    next
      case False
      with assms that show ?thesis
        by (auto simp: terminal_scrolln_def Let_def fold_copy_at fold_fill_at e_def [symmetric] nth_append add.commute [of n r]
           )
    qed
  qed (use assms in \<open>auto simp: nth_append\<close>)
  with iter [of n "tty_rows t"] assms show ?thesis by (simp add: e_def)
qed

section \<open>The hardware cursor\<close>

text \<open>What the display controller keeps: the index last selected and the two halves of the cursor location.\<close>

fun crtc_write :: "u16 \<times> u8 \<Rightarrow> u8 \<times> u8 \<times> u8 \<Rightarrow> u8 \<times> u8 \<times> u8" where
  "crtc_write (port, v) (index, high, low) =
     (if port = VGA_CTRL_REGISTER then (v, high, low)
      else if port = VGA_DATA_REGISTER then
        if index = VGA_CURSOR_LOC_HIGH then (index, v, low)
        else if index = VGA_CURSOR_LOC_LOW then (index, high, v)
        else (index, high, low)
      else (index, high, low))"

definition crtc :: "tty \<Rightarrow> u8 \<times> u8 \<times> u8" where
  "crtc t = fold crtc_write (vga_ports t) (0, 0, 0)"

definition cursor_shown :: "tty \<Rightarrow> nat" where
  "cursor_shown t = (let (_, high, low) = crtc t in unat high * 256 + unat low)"

lemma byte_split: "unat (ucast (drop_bit 8 w) :: u8) * 256 + unat (ucast (w AND 0xFF) :: u8) = unat (w :: u16)"
proof -
  have m: "(0xFF :: u16) = mask 8" by (simp add: mask_eq_exp_minus_1)
  have "unat w < 256 * 256" using unat_lt [of w] by simp
  then have "unat w div 256 < 256" by (simp add: less_mult_imp_div_less)
  then show ?thesis
    unfolding m by (simp add: unsigned_ucast_eq take_bit_nat_def unat_drop_bit unat_and_mask)
qed

lemma update_hardware_cursor_frame [simp]:
  "terminal_row (update_hardware_cursor t) = terminal_row t"
  "terminal_column (update_hardware_cursor t) = terminal_column t"
  "terminal_color (update_hardware_cursor t) = terminal_color t"
  "terminal_buffer (update_hardware_cursor t) = terminal_buffer t"
  by (simp_all add: update_hardware_cursor_def tty_outb_def Let_def)

lemma tty_rows_update_cursor [simp]: "tty_rows (update_hardware_cursor t) = tty_rows t"
  by (rule tty_rows_cong) simp

lemma cursor_shown_update:
  assumes "on_screen t"
  shows "cursor_shown (update_hardware_cursor t) = terminal_row t * 80 + terminal_column t"
proof -
  have "unat (of_nat (terminal_row t * 80 + terminal_column t) :: u16) = terminal_row t * 80 + terminal_column t"
    using assms by (intro unat_of_nat_small) (auto simp: on_screen_def)
  then show ?thesis
    using byte_split [of "of_nat (terminal_row t * 80 + terminal_column t)"]
    by (cases "fold crtc_write (vga_ports t) (0, 0, 0)")
      (simp add: cursor_shown_def crtc_def update_hardware_cursor_def tty_outb_def Let_def
        VGA_CTRL_REGISTER_def VGA_DATA_REGISTER_def VGA_CURSOR_LOC_HIGH_def VGA_CURSOR_LOC_LOW_def)
qed

section \<open>Contract of a terminal\<close>

text \<open>What both drivers promise of one character: the cursor stays on the screen, the colour is kept and no
  memory behind the screen is touched.  Whole strings inherit it.\<close>

locale terminal =
  fixes put :: "u8 \<Rightarrow> tty \<Rightarrow> tty"
  assumes put_on_screen: "on_screen t \<Longrightarrow> on_screen (put c t)"
    and put_color: "terminal_color (put c t) = terminal_color t"
    and put_inside: "on_screen t \<Longrightarrow> 2000 \<le> k \<Longrightarrow> terminal_buffer (put c t) k = terminal_buffer t k"
begin

lemma write_on_screen: "on_screen t \<Longrightarrow> on_screen (fold put s t)"
  by (induction s arbitrary: t) (simp_all add: put_on_screen)

lemma write_color: "terminal_color (fold put s t) = terminal_color t"
  by (induction s arbitrary: t) (simp_all add: put_color)

lemma write_inside: "on_screen t \<Longrightarrow> 2000 \<le> k \<Longrightarrow> terminal_buffer (fold put s t) k = terminal_buffer t k"
  by (induction s arbitrary: t) (simp_all add: put_on_screen put_inside)

lemma colored_restores:
  assumes "on_screen t"
  shows "let t' = (fold put s (t\<lparr>terminal_color := col\<rparr>))\<lparr>terminal_color := terminal_color t\<rparr>
    in terminal_color t' = terminal_color t \<and> on_screen t' \<and>
      (\<forall>k \<ge> 2000. terminal_buffer t' k = terminal_buffer t k)"
proof -
  let ?t = "t\<lparr>terminal_color := col\<rparr>"
  have "on_screen ?t" using assms by (simp add: on_screen_def)
  with write_on_screen [OF this, of s] write_inside [OF this, of _ s] show ?thesis
    by (simp add: on_screen_def)
qed

end

text \<open>The effect of the i386 \<^verbatim>\<open>terminal_putchar\<close>, one case per branch.\<close>

lemma putentryat_in: "x < 80 \<Longrightarrow> y < 25 \<Longrightarrow> terminal_putentryat c color x y t = put_cell (vga_entry c color) x y t"
  by (simp add: terminal_putentryat_def)

lemma put_cell_frame [simp]:
  "terminal_row (put_cell e x y t) = terminal_row t" "terminal_column (put_cell e x y t) = terminal_column t"
  "terminal_color (put_cell e x y t) = terminal_color t"
  by (simp_all add: put_cell_def)

lemma scroll_frame [simp]:
  "terminal_row (terminal_scroll t) = terminal_row t" "terminal_column (terminal_scroll t) = terminal_column t"
  "terminal_color (terminal_scroll t) = terminal_color t"
  by (simp_all add: terminal_scroll_def Let_def)

lemma put_cell_inside: "x < 80 \<Longrightarrow> y < 25 \<Longrightarrow> 2000 \<le> k \<Longrightarrow> terminal_buffer (put_cell e x y t) k = terminal_buffer t k"
  by (simp add: put_cell_def beyond_rows [of y x k])

lemma scroll_inside:
  assumes "2000 \<le> k"
  shows "terminal_buffer (terminal_scroll t) k = terminal_buffer t k"
proof -
  obtain r c where k: "k = r * 80 + c" "c < 80" using cell_split by blast
  with assms have "25 \<le> r" by linarith
  with k show ?thesis by (simp add: terminal_scroll_def Let_def fold_copy_at)
qed

lemma tty_rows_upd [simp]:
  "tty_rows (t\<lparr>terminal_row := r\<rparr>) = tty_rows t" "tty_rows (t\<lparr>terminal_column := c\<rparr>) = tty_rows t"
  "tty_rows (t\<lparr>terminal_color := col\<rparr>) = tty_rows t"
  by (simp_all add: tty_rows_def)

lemma putchar_color [simp]: "terminal_color (terminal_putchar c t) = terminal_color t"
proof -
  have "terminal_color (fold (\<lambda>(i, ch). put_cell (vga_entry ch col) i 0) xs t) = terminal_color t" for xs col t
    by (induction xs arbitrary: t) (auto simp: put_cell_def)
  then have "terminal_color (terminal_putentryat ch col x y t) = terminal_color t" for ch col x y t
    by (simp add: terminal_putentryat_def Let_def)
  then show ?thesis by (simp add: terminal_putchar_def terminal_newline_def Let_def)
qed

lemma putchar_refines:
  assumes "on_screen t"
  shows "tty_grid (terminal_putchar c t) = grid_putchar (terminal_color t) c (tty_grid t)"
proof -
  have b: "terminal_row t < 25" "terminal_column t < 80" using assms by (simp_all add: on_screen_def)
  consider "c = 8" "terminal_column t = 0" | "c = 8" "0 < terminal_column t" | "c = 10" | "c \<noteq> 8" "c \<noteq> 10"
    by blast
  then show ?thesis
  proof cases
    case 1
    then show ?thesis by (simp add: terminal_putchar_def grid_putchar_def tty_grid_def)
  next
    case 2
    with b show ?thesis
      by (simp add: terminal_putchar_def grid_putchar_def tty_grid_def Let_def putentryat_in put_cell_rows)
  next
    case 3
    with b show ?thesis
      by (auto simp: terminal_putchar_def terminal_newline_def grid_putchar_def grid_next_def tty_grid_def Let_def scroll_rows)
  next
    case 4
    with b show ?thesis
      by (auto simp: terminal_putchar_def grid_putchar_def grid_next_def tty_grid_def Let_def putentryat_in
          put_cell_rows scroll_rows)
  qed
qed

lemma grid_putchar_bounds:
  assumes "r < 25" and "c < 80" and "grid_putchar col ch (g, r, c) = (g', r', c')"
  shows "r' < 25 \<and> c' < 80"
  using assms by (auto simp: grid_putchar_def grid_next_def Let_def split: if_splits)

lemma putchar_on_screen: "on_screen t \<Longrightarrow> on_screen (terminal_putchar c t)"
  using grid_putchar_bounds [OF _ _ putchar_refines [unfolded tty_grid_def, symmetric], of t c]
  by (simp add: on_screen_def)

lemma putchar_inside:
  assumes "on_screen t" and "2000 \<le> k"
  shows "terminal_buffer (terminal_putchar c t) k = terminal_buffer t k"
  using assms by (auto simp: on_screen_def terminal_putchar_def terminal_newline_def Let_def putentryat_in put_cell_inside scroll_inside)

interpretation tty32: terminal terminal_putchar
  by unfold_locales (simp_all add: putchar_on_screen putchar_inside)

text \<open>The x86-64 terminal keeps the contract too; it starts again at the top instead of scrolling.\<close>

lemma putentryat64_eq:
  "x < 80 \<Longrightarrow> y < 25 \<Longrightarrow> terminal_putentryat64 c color x y t = put_cell (vga_entry c color) x y t"
  by (simp add: terminal_putentryat64_def put_cell_def)

interpretation tty64: terminal terminal_putchar64
proof
  fix t :: tty and c :: u8 and k :: nat
  show "terminal_color (terminal_putchar64 c t) = terminal_color t"
    by (simp add: terminal_putchar64_def next_row64_def terminal_putentryat64_def Let_def)
  assume "on_screen t"
  then have b: "terminal_row t < 25" "terminal_column t < 80" by (simp_all add: on_screen_def)
  then show "on_screen (terminal_putchar64 c t)"
    by (auto simp: on_screen_def terminal_putchar64_def next_row64_def terminal_putentryat64_def Let_def)
  assume "2000 \<le> k"
  with b show "terminal_buffer (terminal_putchar64 c t) k = terminal_buffer t k"
    by (auto simp: terminal_putchar64_def next_row64_def Let_def putentryat64_eq put_cell_inside)
qed

lemma putchar64_rows:
  assumes "on_screen t" and "c \<noteq> 10"
  shows "tty_rows (terminal_putchar64 c t) =
    grid_put (vga_entry c (terminal_color t)) (terminal_row t) (terminal_column t) (tty_rows t)"
  using assms put_cell_rows [of "terminal_column t" "terminal_row t" "vga_entry c (terminal_color t)" t]
  by (cases "terminal_column t = 79")
    (simp_all add: on_screen_def terminal_putchar64_def next_row64_def Let_def putentryat64_eq)

lemma print_colored_color:
  "on_screen t \<Longrightarrow> terminal_color (print_colored s fg bg t) = terminal_color t \<and> on_screen (print_colored s fg bg t)"
  "on_screen t \<Longrightarrow> terminal_color (print_colored64 s fg bg t) = terminal_color t \<and> on_screen (print_colored64 s fg bg t)"
  using tty32.colored_restores [of t s "vga_entry_color fg bg"] tty64.colored_restores [of t s "vga_entry_color fg bg"]
  by (simp_all add: print_colored_def print_colored64_def terminal_write_def terminal_write64_def Let_def)

section \<open>Strings\<close>

definition cursor_synced :: "tty \<Rightarrow> bool" where
  "cursor_synced t \<longleftrightarrow> on_screen t \<and> cursor_shown t = terminal_row t * 80 + terminal_column t"

lemma putchar_synced:
  assumes "cursor_synced t"
  shows "cursor_synced (terminal_putchar c t)"
proof (cases "c = 8 \<and> terminal_column t = 0")
  case True
  with assms show ?thesis by (simp add: terminal_putchar_def)
next
  case False
  then have "\<exists>t'. terminal_putchar c t = update_hardware_cursor t'"
    by (cases "c = 8"; cases "c = 10") (auto simp: terminal_putchar_def terminal_newline_def Let_def)
  then obtain t' where t': "terminal_putchar c t = update_hardware_cursor t'" ..
  have "on_screen (terminal_putchar c t)"
    using assms by (simp add: cursor_synced_def putchar_on_screen)
  then have "on_screen t'" by (simp add: t' on_screen_def)
  with t' show ?thesis by (simp add: cursor_synced_def cursor_shown_update) (simp add: on_screen_def)
qed

lemma write_synced: "cursor_synced t \<Longrightarrow> cursor_synced (terminal_write s t)"
  by (induction s arbitrary: t) (simp_all add: terminal_write_def putchar_synced)

lemma write_refines:
  "on_screen t \<Longrightarrow> tty_grid (terminal_write s t) = fold (grid_putchar (terminal_color t)) s (tty_grid t)"
proof (induction s arbitrary: t)
  case (Cons c s)
  then show ?case
    using Cons.IH [of "terminal_putchar c t"] by (simp add: terminal_write_def putchar_on_screen putchar_refines)
qed (simp add: terminal_write_def)

section \<open>What the screen shows\<close>

abbreviation printable :: "u8 list \<Rightarrow> bool" where
  "printable l \<equiv> 8 \<notin> set l \<and> 10 \<notin> set l"

definition line_row :: "u8 \<Rightarrow> u8 list \<Rightarrow> u16 list" where
  "line_row col l = map (\<lambda>ch. vga_entry ch col) l @ replicate (80 - length l) (vga_entry 32 col)"

text \<open>The last rows of the lines printed so far and the empty row behind them, filled up to the height of the screen.\<close>

definition shown :: "u8 \<Rightarrow> u8 list list \<Rightarrow> u16 list list" where
  "shown col ls =
     (let rows = map (line_row col) ls @ [line_row col []]
      in drop (length rows - 25) rows @ replicate (25 - length rows) (line_row col []))"

lemma grid_line:
  assumes "printable l" and "c + length l \<le> 79" and "r < length g" and "length (g ! r) = 80"
  shows "fold (grid_putchar col) l (g, r, c) =
    (g[r := take c (g ! r) @ map (\<lambda>ch. vga_entry ch col) l @ drop (c + length l) (g ! r)], r, c + length l)"
  using assms
proof (induction l arbitrary: g c)
  case (Cons ch l)
  let ?e = "vga_entry ch col"
  let ?g = "g[r := (g ! r)[c := ?e]]"
  have c: "c < 79" using Cons.prems(2) by simp
  have "fold (grid_putchar col) (ch # l) (g, r, c) = fold (grid_putchar col) l (?g, r, Suc c)"
    using Cons.prems(1) c by (auto simp: grid_putchar_def grid_put_def Let_def)
  also have "\<dots> = (?g[r := take (Suc c) (?g ! r) @ map (\<lambda>ch. vga_entry ch col) l @ drop (Suc c + length l) (?g ! r)],
      r, Suc c + length l)"
    using Cons.prems by (intro Cons.IH) auto
  finally show ?case
    using Cons.prems c by (simp add: take_Suc_conv_app_nth)
qed simp

lemma shown_line:
  assumes "length l \<le> 79" and "printable l"
  shows "fold (grid_putchar col) (l @ [10]) (shown col ls, min (length ls) 24, 0) =
    (shown col (ls @ [l]), min (Suc (length ls)) 24, 0)"
proof -
  let ?b = "line_row col []"
  let ?r = "min (length ls) 24"
  have len: "length (shown col ls) = 25" by (simp add: shown_def Let_def)
  have blank: "shown col ls ! ?r = ?b"
    by (cases "length ls \<le> 24") (auto simp: shown_def Let_def nth_append)
  have row: "map (\<lambda>ch. vga_entry ch col) l @ drop (length l) ?b = line_row col l"
    by (simp add: line_row_def)
  have "fold (grid_putchar col) l (shown col ls, ?r, 0) = ((shown col ls)[?r := line_row col l], ?r, length l)"
    using grid_line [of l 0 ?r "shown col ls" col] assms len blank row by (simp add: line_row_def)
  moreover have "grid_putchar col 10 ((shown col ls)[?r := line_row col l], ?r, length l) =
      (shown col (ls @ [l]), min (Suc (length ls)) 24, 0)"
  proof (cases "length ls < 24")
    case True
    then obtain k where k: "24 - length ls = Suc k" "23 - length ls = k" by (cases "24 - length ls") auto
    then show ?thesis using True
      by (simp add: grid_putchar_def grid_next_def Let_def shown_def list_update_append)
  next
    case False
    have b: "replicate 80 (vga_entry 32 col) = ?b" by (simp add: line_row_def)
    define rows where "rows = drop (length ls - 24) (map (line_row col) ls)"
    have "length rows = 24" using False by (simp add: rows_def)
    moreover have "shown col ls = rows @ [?b]" using False by (simp add: shown_def rows_def Let_def)
    moreover have "length ls - 23 = Suc (length ls - 24)" using False by simp
    then have "shown col (ls @ [l]) = tl rows @ [line_row col l, ?b]"
      using False by (simp add: shown_def rows_def Let_def drop_Suc tl_drop)
    ultimately show ?thesis using False
      by (cases rows) (simp_all add: grid_putchar_def grid_next_def grid_scroll_def Let_def b list_update_append)
  qed
  ultimately show ?thesis by simp
qed

lemma shown_lines:
  assumes "\<forall>l \<in> set ls. length l \<le> 79 \<and> printable l"
  shows "fold (grid_putchar col) (concat (map (\<lambda>l. l @ [10]) ls)) (shown col [], 0, 0) =
    (shown col ls, min (length ls) 24, 0)"
  using assms
proof (induction ls rule: rev_induct)
  case (snoc l ls)
  then show ?case using shown_line [of l col ls] by simp
qed simp

lemma initialize_screen:
  "on_screen (terminal_initialize t)" "cursor_synced (terminal_initialize t)"
  "terminal_color (terminal_initialize t) = 15"
  "tty_grid (terminal_initialize t) = (shown 15 [], 0, 0)"
  "2000 \<le> k \<Longrightarrow> terminal_buffer (terminal_initialize t) k = terminal_buffer t k"
proof -
  have col: "vga_entry_color VGA_COLOR_WHITE VGA_COLOR_BLACK = 15"
    by (simp add: vga_entry_color_def VGA_COLOR_WHITE_def VGA_COLOR_BLACK_def)
  show scr: "on_screen (terminal_initialize t)" and "terminal_color (terminal_initialize t) = 15"
    by (simp_all add: terminal_initialize_def blank_screen_def on_screen_def col)
  show "cursor_synced (terminal_initialize t)"
    using cursor_shown_update [of "blank_screen 15 t"]
    by (simp add: terminal_initialize_def cursor_synced_def col on_screen_def blank_screen_def)
  have "tty_rows (blank_screen 15 t) = replicate 25 (line_row 15 [])"
    by (rule tty_rows_eqI) (auto simp: blank_screen_def fold_fill_at line_row_def)
  moreover have "shown 15 [] = replicate 25 (line_row 15 [])"
    using replicate_app_Cons_same [of 24 "line_row 15 []" "[]"] by (simp add: shown_def numeral_eq_Suc)
  ultimately show "tty_grid (terminal_initialize t) = (shown 15 [], 0, 0)"
    by (simp add: tty_grid_def terminal_initialize_def col) (simp add: blank_screen_def)
  assume k: "2000 \<le> k"
  obtain r c where rc: "k = r * 80 + c" "c < 80" using cell_split by blast
  with k have "25 \<le> r" by linarith
  with rc show "terminal_buffer (terminal_initialize t) k = terminal_buffer t k"
    by (simp add: terminal_initialize_def blank_screen_def fold_fill_at)
qed

text \<open>\<^verbatim>\<open>terminal_write_dec\<close> has room for every number and prints its decimal digits.\<close>

lemma dec_digits_value:
  assumes "unat n < 10 ^ room" and "0 < room"
  shows "\<exists>ds. dec_digits room n = Some ds \<and> (\<forall>d \<in> set ds. d < 10) \<and> foldr (\<lambda>d v. unat d + 10 * v) ds 0 = unat n"
  using assms
proof (induction room arbitrary: n)
  case (Suc room)
  have d: "unat (n div 10) = unat n div 10" "unat (n mod 10) = unat n mod 10"
    by (simp_all add: unat_div unat_mod)
  have m: "n mod 10 < 10" by (simp add: word_less_nat_alt d)
  show ?case
  proof (cases "n div 10 = 0")
    case True
    then have "unat n div 10 = 0" using d(1) by simp
    then show ?thesis using True m d(2) by auto
  next
    case False
    then have "unat n div 10 \<noteq> 0" using d(1) by (metis unat_eq_zero)
    with Suc.prems have "0 < room" by (cases room) auto
    moreover have "unat (n div 10) < 10 ^ room"
      using Suc.prems(1) d(1) by (simp add: less_mult_imp_div_less mult.commute)
    ultimately obtain ds where "dec_digits room (n div 10) = Some ds" "\<forall>d \<in> set ds. d < 10"
      "foldr (\<lambda>d v. unat d + 10 * v) ds 0 = unat (n div 10)"
      using Suc.IH by blast
    with False m d show ?thesis by auto
  qed
qed simp

lemma write_dec_text:
  "\<exists>ds :: u32 list. terminal_write_dec n t = Some (terminal_write (map (\<lambda>d. 48 + ucast d) (rev ds)) t) \<and>
     (\<forall>d \<in> set ds. d < 10) \<and> foldr (\<lambda>d v. unat d + 10 * v) ds 0 = unat n"
proof -
  have "unat n < 10 ^ 11" using unat_lt [of n] by simp
  then obtain ds where "dec_digits 11 n = Some ds" "\<forall>d \<in> set ds. d < 10"
    "foldr (\<lambda>d v. unat d + 10 * v) ds 0 = unat n"
    using dec_digits_value [of n 11] by auto
  then show ?thesis
    by (intro exI [of _ ds]) (simp add: terminal_write_dec_def terminal_write_def fold_map comp_def)
qed

text \<open>Outside the screen the check does not keep the store from happening.\<close>

lemma putentryat_overrun:
  "25 \<le> y \<Longrightarrow> terminal_buffer (terminal_putentryat c color x y t) ((y * 80 + x) mod 2 ^ 32) = vga_entry c color"
  by (simp add: terminal_putentryat_def put_cell_def Let_def)

section \<open>Properties\<close>

text \<open>C23: after any number of lines printed on the initialised i386 terminal, the screen shows the last of them,
  each in a row of its own and padded with blanks, and an empty row; the hardware cursor is at the start of
  that row and no memory behind the screen has changed.\<close>

theorem terminal_shows_lines:
  assumes "\<forall>l \<in> set ls. length l \<le> 79 \<and> printable l"
  shows "let t' = terminal_write (concat (map (\<lambda>l. l @ [10]) ls)) (terminal_initialize t)
    in tty_grid t' = (shown 15 ls, min (length ls) 24, 0) \<and> cursor_shown t' = min (length ls) 24 * 80 \<and>
      (\<forall>k \<ge> 2000. terminal_buffer t' k = terminal_buffer t k)"
proof -
  let ?s = "concat (map (\<lambda>l. l @ [10]) ls)"
  let ?t = "terminal_write ?s (terminal_initialize t)"
  have grid: "tty_grid ?t = (shown 15 ls, min (length ls) 24, 0)"
    using write_refines [OF initialize_screen(1), of ?s t] shown_lines [OF assms, of 15]
    by (simp add: initialize_screen)
  moreover have "cursor_shown ?t = min (length ls) 24 * 80"
    using write_synced [OF initialize_screen(2), of ?s t] grid by (simp add: cursor_synced_def tty_grid_def)
  moreover have "terminal_buffer ?t k = terminal_buffer t k" if "2000 \<le> k" for k
    using tty32.write_inside [OF initialize_screen(1) that, of ?s t] initialize_screen(5) [OF that, of t]
    by (simp add: terminal_write_def)
  ultimately show ?thesis by (simp add: Let_def)
qed

theorem terminal_shows_lines_witness:
  "let t' = terminal_write [72, 105, 10, 33, 10]
       (terminal_initialize \<lparr>terminal_row = 0, terminal_column = 0, terminal_color = 0, terminal_buffer = (\<lambda>_. 0), vga_ports = []\<rparr>)
   in tty_grid t' = (shown 15 [[72, 105], [33]], Suc (Suc 0), 0) \<and> cursor_shown t' = 160 \<and>
     (\<forall>k \<ge> 2000. terminal_buffer t' k = 0)"
  using terminal_shows_lines [of "[[72, 105], [33]]"
      "\<lparr>terminal_row = 0, terminal_column = 0, terminal_color = 0, terminal_buffer = (\<lambda>_. 0), vga_ports = []\<rparr>"]
  by simp

end
