(* ===== verification/Descriptors.thy ===== *)
theory Descriptors
  imports Prelude
begin

text \<open>
  Segment and interrupt descriptor tables: \<^verbatim>\<open>arch/x86_64/interrupts/descriptor_tables.c\<close> with the table loads of
  \<^verbatim>\<open>gdt.S\<close>, and \<^verbatim>\<open>arch/i386/gdt/descriptor_tables.c\<close> with the remapping of the two interrupt controllers.

  The tables are lists of records with the fields of the C structures.  The addresses of the tables and of
  the assembly stubs are fixed by the linker and are arguments.  What the processor makes of an entry
  (\<open>seg_base\<close>, \<open>seg_limit\<close>, \<open>gate_offset\<close>, \<open>pic_write\<close>) is defined separately, after its manual.
\<close>

section \<open>Global descriptor table\<close>

record gdt_entry =
  limit_low :: u16
  base_low :: u16
  base_middle :: u8
  access :: u8
  granularity :: u8
  base_high :: u8

definition null_gdt_entry :: gdt_entry where
  "null_gdt_entry = \<lparr>limit_low = 0, base_low = 0, base_middle = 0, access = 0, granularity = 0, base_high = 0\<rparr>"

definition gdt_set_gate :: "nat \<Rightarrow> u32 \<Rightarrow> u32 \<Rightarrow> u8 \<Rightarrow> u8 \<Rightarrow> gdt_entry list \<Rightarrow> gdt_entry list" where
  "gdt_set_gate num b limit acc gran gdt =
     (let e = gdt ! num;
          e1 = e\<lparr>base_low := ucast (b AND 0xFFFF), base_middle := ucast (drop_bit 16 b AND 0xFF),
                 base_high := ucast (drop_bit 24 b AND 0xFF)\<rparr>;
          e2 = e1\<lparr>limit_low := ucast (limit AND 0xFFFF), granularity := ucast (drop_bit 16 limit AND 0x0F)\<rparr>;
          e3 = e2\<lparr>granularity := granularity e2 OR (gran AND 0xF0)\<rparr>
      in gdt[num := e3\<lparr>access := acc\<rparr>])"

section \<open>Interrupt descriptor table\<close>

record idt_entry =
  offset_low :: u16
  selector :: u16
  ist :: u8
  type_attr :: u8
  offset_mid :: u16
  offset_high :: u32
  zero :: u32

definition zero_idt_entry :: idt_entry where
  "zero_idt_entry = \<lparr>offset_low = 0, selector = 0, ist = 0, type_attr = 0, offset_mid = 0, offset_high = 0, zero = 0\<rparr>"

definition idt_set_gate :: "nat \<Rightarrow> u64 \<Rightarrow> u16 \<Rightarrow> u8 \<Rightarrow> idt_entry list \<Rightarrow> idt_entry list" where
  "idt_set_gate num b sel flags idt =
     (let e = idt ! num;
          e1 = e\<lparr>offset_low := ucast (b AND 0xFFFF), offset_mid := ucast (drop_bit 16 b AND 0xFFFF),
                 offset_high := ucast (drop_bit 32 b AND 0xFFFFFFFF)\<rparr>
      in idt[num := e1\<lparr>selector := sel, ist := 0, type_attr := flags, zero := 0\<rparr>])"

section \<open>Loading the tables\<close>

text \<open>The operand of the load instructions, and the registers the tables are loaded into.\<close>

record table_ptr =
  tlimit :: u16
  tbase :: u64

record tables =
  gdt_entries :: "gdt_entry list"
  gdt_ptr :: table_ptr
  idt_entries :: "idt_entry list"
  idt_ptr :: table_ptr
  gdtr :: table_ptr
  idtr :: table_ptr
  seg_cs :: u16
  seg_data :: "u16 list"

text \<open>\<open>seg_data\<close> holds the data segment registers DS, ES, FS, GS and SS.\<close>

definition gdt_flush :: "tables \<Rightarrow> tables" where
  "gdt_flush d = d\<lparr>gdtr := gdt_ptr d, seg_data := replicate 5 0x10, seg_cs := 0x08\<rparr>"

definition idt_flush :: "tables \<Rightarrow> tables" where
  "idt_flush d = d\<lparr>idtr := idt_ptr d\<rparr>"

definition init_gdt :: "u64 \<Rightarrow> tables \<Rightarrow> tables" where
  "init_gdt gdt_addr d =
     (let d1 = d\<lparr>gdt_ptr := \<lparr>tlimit = 8 * 5 - 1, tbase = gdt_addr\<rparr>\<rparr>;
          g1 = gdt_set_gate 0 0 0 0 0 (gdt_entries d1);
          g2 = gdt_set_gate 1 0 0xFFFFF 0x9A 0xAF g1;
          g3 = gdt_set_gate 2 0 0xFFFFF 0x92 0xCF g2;
          g4 = gdt_set_gate 3 0 0xFFFFF 0xFA 0xAF g3;
          g5 = gdt_set_gate 4 0 0xFFFFF 0xF2 0xCF g4
      in gdt_flush (d1\<lparr>gdt_entries := g5\<rparr>))"

definition init_idt :: "u64 \<Rightarrow> (nat \<Rightarrow> u64) \<Rightarrow> tables \<Rightarrow> tables" where
  "init_idt idt_addr isr_stub_table d =
     (let d1 = d\<lparr>idt_ptr := \<lparr>tlimit = 16 * 256 - 1, tbase = idt_addr\<rparr>, idt_entries := replicate 256 zero_idt_entry\<rparr>;
          idt = fold (\<lambda>i. idt_set_gate i (isr_stub_table i) 0x08 0x8E) [0..<48] (idt_entries d1)
      in idt_flush (d1\<lparr>idt_entries := idt\<rparr>))"

definition init_descriptor_tables :: "u64 \<Rightarrow> u64 \<Rightarrow> (nat \<Rightarrow> u64) \<Rightarrow> tables \<Rightarrow> tables" where
  "init_descriptor_tables gdt_addr idt_addr isr_stub_table d =
     init_idt idt_addr isr_stub_table (init_gdt gdt_addr d)"

section \<open>i386\<close>

record idt_entry32 =
  isr_low :: u16
  kernel_cs :: u16
  reserved :: u8
  attributes :: u8
  isr_high :: u16

definition zero_idt_entry32 :: idt_entry32 where
  "zero_idt_entry32 = \<lparr>isr_low = 0, kernel_cs = 0, reserved = 0, attributes = 0, isr_high = 0\<rparr>"

definition idt_set_descriptor :: "nat \<Rightarrow> u32 \<Rightarrow> u8 \<Rightarrow> idt_entry32 list \<Rightarrow> idt_entry32 list" where
  "idt_set_descriptor vector isr flags idt =
     idt[vector := \<lparr>isr_low = ucast (isr AND 0xFFFF), kernel_cs = 0x08, reserved = 0, attributes = flags,
                    isr_high = ucast (drop_bit 16 isr)\<rparr>]"

definition NUM_ISR_STUBS :: nat where "NUM_ISR_STUBS = 48"

text \<open>The writes of \<^verbatim>\<open>remap_pic\<close>; the masks it reads first are not used.\<close>

definition remap_pic :: "(u16 \<times> u8) list" where
  "remap_pic =
     [(0x20, 0x11), (0xA0, 0x11), (0x21, 32), (0xA1, 40), (0x21, 0x04), (0xA1, 0x02), (0x21, 0x01), (0xA1, 0x01),
      (0x21, 0xF8), (0xA1, 0xFF)]"

record tables32 =
  gdt32 :: "gdt_entry list"
  idt32 :: "idt_entry32 list"
  vectors :: "nat list"
  gdtr32 :: "u16 \<times> u32"
  idtr32 :: "u16 \<times> u32"
  port_writes :: "(u16 \<times> u8) list"

text \<open>The segment registers are reloaded by \<^verbatim>\<open>gdt_flush\<close> as on x86-64 and are left out here.\<close>

definition init_gdt32 :: "u32 \<Rightarrow> tables32 \<Rightarrow> tables32" where
  "init_gdt32 gdt_addr d =
     (let g1 = gdt_set_gate 0 0 0 0 0 (gdt32 d);
          g2 = gdt_set_gate 1 0 0xFFFFFFFF 0x9A 0xCF g1;
          g3 = gdt_set_gate 2 0 0xFFFFFFFF 0x92 0xCF g2;
          g4 = gdt_set_gate 3 0 0xFFFFFFFF 0xFA 0xCF g3
      in d\<lparr>gdt32 := gdt_set_gate 4 0 0xFFFFFFFF 0xF2 0xCF g4, gdtr32 := (8 * 5 - 1, gdt_addr)\<rparr>)"

definition init_idt32 :: "u32 \<Rightarrow> (nat \<Rightarrow> u32) \<Rightarrow> tables32 \<Rightarrow> tables32" where
  "init_idt32 idt_addr isr_stub_table d =
     (let d1 = fold (\<lambda>v d. d\<lparr>idt32 := idt_set_descriptor v (isr_stub_table v) 0x8E (idt32 d), vectors := (vectors d)[v := 1]\<rparr>)
                 [0..<NUM_ISR_STUBS] d
      in d1\<lparr>port_writes := port_writes d1 @ remap_pic, idtr32 := (8 * 256 - 1, idt_addr)\<rparr>)"

definition init_descriptor_tables32 :: "u32 \<Rightarrow> u32 \<Rightarrow> (nat \<Rightarrow> u32) \<Rightarrow> tables32 \<Rightarrow> tables32" where
  "init_descriptor_tables32 gdt_addr idt_addr isr_stub_table d = init_idt32 idt_addr isr_stub_table (init_gdt32 gdt_addr d)"

section \<open>What the hardware makes of it\<close>

definition seg_base :: "gdt_entry \<Rightarrow> u32" where
  "seg_base e = ucast (base_low e) OR push_bit 16 (ucast (base_middle e)) OR push_bit 24 (ucast (base_high e))"

definition seg_limit :: "gdt_entry \<Rightarrow> u32" where
  "seg_limit e = ucast (limit_low e) OR push_bit 16 (ucast (granularity e AND 0x0F))"

text \<open>The entry a selector selects; present, privilege level, code, writable, and the long-mode bit.\<close>

definition selected :: "gdt_entry list \<Rightarrow> u16 \<Rightarrow> gdt_entry" where
  "selected gdt sel = gdt ! unat (drop_bit 3 sel)"

definition seg_present :: "gdt_entry \<Rightarrow> bool" where "seg_present e \<longleftrightarrow> bit (access e) 7"
definition seg_dpl :: "gdt_entry \<Rightarrow> u8" where "seg_dpl e = drop_bit 5 (access e) AND 3"
definition seg_code :: "gdt_entry \<Rightarrow> bool" where "seg_code e \<longleftrightarrow> bit (access e) 4 \<and> bit (access e) 3"
definition seg_writable_data :: "gdt_entry \<Rightarrow> bool" where
  "seg_writable_data e \<longleftrightarrow> bit (access e) 4 \<and> \<not> bit (access e) 3 \<and> bit (access e) 1"
definition seg_long :: "gdt_entry \<Rightarrow> bool" where
  "seg_long e \<longleftrightarrow> bit (granularity e) 5 \<and> \<not> bit (granularity e) 6"

definition gate_offset :: "idt_entry \<Rightarrow> u64" where
  "gate_offset e = ucast (offset_low e) OR push_bit 16 (ucast (offset_mid e)) OR push_bit 32 (ucast (offset_high e))"

definition gate_present :: "idt_entry \<Rightarrow> bool" where "gate_present e \<longleftrightarrow> bit (type_attr e) 7"
definition gate_dpl :: "idt_entry \<Rightarrow> u8" where "gate_dpl e = drop_bit 5 (type_attr e) AND 3"
definition gate_type :: "idt_entry \<Rightarrow> u8" where "gate_type e = type_attr e AND 0x0F"

definition gate_offset32 :: "idt_entry32 \<Rightarrow> u32" where
  "gate_offset32 e = ucast (isr_low e) OR push_bit 16 (ucast (isr_high e))"

text \<open>One interrupt controller: the step of its initialisation it waits for, its vector offset, its mask.\<close>

record pic =
  pic_step :: nat
  pic_offset :: u8
  pic_cascade :: u8
  pic_mode :: u8
  pic_mask :: u8

definition pic_write :: "bool \<Rightarrow> u8 \<Rightarrow> pic \<Rightarrow> pic" where
  "pic_write data v p =
     (if \<not> data then (if bit v 4 then p\<lparr>pic_step := 1, pic_mask := 0\<rparr> else p)
      else if pic_step p = 1 then p\<lparr>pic_offset := v, pic_step := 2\<rparr>
      else if pic_step p = 2 then p\<lparr>pic_cascade := v, pic_step := 3\<rparr>
      else if pic_step p = 3 then p\<lparr>pic_mode := v, pic_step := 0\<rparr>
      else p\<lparr>pic_mask := v\<rparr>)"

definition pics_write :: "u16 \<times> u8 \<Rightarrow> pic \<times> pic \<Rightarrow> pic \<times> pic" where
  "pics_write = (\<lambda>(port, v) (m, s).
     if port = 0x20 then (pic_write False v m, s) else if port = 0x21 then (pic_write True v m, s)
     else if port = 0xA0 then (m, pic_write False v s) else if port = 0xA1 then (m, pic_write True v s)
     else (m, s))"

text \<open>The vector an interrupt line raises; None when the line is masked.\<close>

definition line_vector :: "pic \<times> pic \<Rightarrow> nat \<Rightarrow> u8 option" where
  "line_vector = (\<lambda>(m, s) n.
     if n < 8 then (if bit (pic_mask m) n then None else Some (pic_offset m + of_nat n))
     else if bit (pic_mask s) (n - 8) \<or> bit (pic_mask m) 2 then None else Some (pic_offset s + of_nat (n - 8)))"

section \<open>Encoding\<close>

text \<open>The fields of a descriptor, put together again, are the arguments.\<close>

lemma byte_masks:
  "(0xFF :: 'a::len word) = mask 8" "(0xFFFF :: 'a word) = mask 16" "(0xFFFFFFFF :: 'a word) = mask 32"
  "(0x0F :: 'a word) = mask 4" "(3 :: 'a word) = mask 2"
  by (simp_all add: mask_eq_exp_minus_1)

lemma base_fields:
  "ucast (ucast (b AND 0xFFFF) :: u16) OR push_bit 16 (ucast (ucast (drop_bit 16 b AND 0xFF) :: u8)) OR
     push_bit 24 (ucast (ucast (drop_bit 24 b AND 0xFF) :: u8)) = (b :: u32)"
proof (rule bit_word_eqI, goal_cases)
  case (1 n)
  then show ?case
    unfolding byte_masks by (cases "n < 24") (auto simp: bit_simps)
qed

lemma offset_fields:
  "ucast (ucast (b AND 0xFFFF) :: u16) OR push_bit 16 (ucast (ucast (drop_bit 16 b AND 0xFFFF) :: u16)) OR
     push_bit 32 (ucast (ucast (drop_bit 32 b AND 0xFFFFFFFF) :: u32)) = (b :: u64)"
proof (rule bit_word_eqI, goal_cases)
  case (1 n)
  then show ?case
    unfolding byte_masks by (cases "n < 32") (auto simp: bit_simps)
qed

lemma offset_fields32:
  "ucast (ucast (b AND 0xFFFF) :: u16) OR push_bit 16 (ucast (ucast (drop_bit 16 b) :: u16)) = (b :: u32)"
  unfolding byte_masks by (rule bit_word_eqI) (auto simp: bit_simps)

text \<open>The limit keeps its low 20 bits, the flags their high nibble.\<close>

lemma gran_fields:
  fixes l :: u32 and g :: u8
  shows "(ucast (drop_bit 16 l AND 0x0F) OR (g AND 0xF0)) AND 0x0F = (ucast (drop_bit 16 l AND 0x0F) :: u8)"
    and "(ucast (drop_bit 16 l AND 0x0F) OR (g AND 0xF0)) AND 0xF0 = g AND 0xF0"
proof -
  have hi: "(0xF0 :: u8) = NOT (mask 4)" by (simp add: mask_eq_exp_minus_1)
  show "(ucast (drop_bit 16 l AND 0x0F) OR (g AND 0xF0)) AND 0x0F = (ucast (drop_bit 16 l AND 0x0F) :: u8)"
    unfolding hi byte_masks by (rule bit_word_eqI) (auto simp: bit_simps)
  show "(ucast (drop_bit 16 l AND 0x0F) OR (g AND 0xF0)) AND 0xF0 = g AND 0xF0"
    unfolding hi byte_masks by (rule bit_word_eqI) (auto simp: bit_simps)
qed

lemma limit_fields:
  "ucast (ucast (l AND 0xFFFF) :: u16) OR push_bit 16 (ucast (ucast (drop_bit 16 l AND 0x0F) :: u8)) = (l AND 0xFFFFF :: u32)"
proof -
  have m: "(0xFFFFF :: u32) = mask 20" by (simp add: mask_eq_exp_minus_1)
  show ?thesis
  proof (rule bit_word_eqI, goal_cases)
    case (1 n)
    then show ?case
      unfolding m byte_masks by (cases "n < 20") (auto simp: bit_simps)
  qed
qed

lemma gdt_set_gate_fields:
  assumes "num < length gdt"
  shows "seg_base (gdt_set_gate num b limit acc gran gdt ! num) = b"
    and "seg_limit (gdt_set_gate num b limit acc gran gdt ! num) = limit AND 0xFFFFF"
    and "access (gdt_set_gate num b limit acc gran gdt ! num) = acc"
    and "granularity (gdt_set_gate num b limit acc gran gdt ! num) AND 0xF0 = gran AND 0xF0"
  using assms by (simp_all add: gdt_set_gate_def Let_def seg_base_def seg_limit_def base_fields limit_fields gran_fields)

lemma gdt_set_gate_frame [simp]:
  "length (gdt_set_gate num b limit acc gran gdt) = length gdt"
  "k \<noteq> num \<Longrightarrow> gdt_set_gate num b limit acc gran gdt ! k = gdt ! k"
  by (simp_all add: gdt_set_gate_def Let_def)

lemma idt_set_gate_fields:
  assumes "num < length idt"
  shows "gate_offset (idt_set_gate num b sel flags idt ! num) = b"
    and "selector (idt_set_gate num b sel flags idt ! num) = sel"
    and "type_attr (idt_set_gate num b sel flags idt ! num) = flags"
  using assms by (simp_all add: idt_set_gate_def Let_def gate_offset_def offset_fields)

lemma idt_set_gate_frame [simp]:
  "length (idt_set_gate num b sel flags idt) = length idt"
  "k \<noteq> num \<Longrightarrow> idt_set_gate num b sel flags idt ! k = idt ! k"
  by (simp_all add: idt_set_gate_def Let_def)

lemma idt_set_descriptor_fields:
  assumes "num < length idt"
  shows "gate_offset32 (idt_set_descriptor num isr flags idt ! num) = isr"
    and "attributes (idt_set_descriptor num isr flags idt ! num) = flags"
    and "kernel_cs (idt_set_descriptor num isr flags idt ! num) = 0x08"
  using assms by (simp_all add: idt_set_descriptor_def gate_offset32_def offset_fields32)

section \<open>The installed tables\<close>

lemma fold_idt_length: "length (fold (\<lambda>i. idt_set_gate i (f i) sel flags) [0..<n] idt) = length idt"
  by (induction n) simp_all

lemma fold_idt_gates:
  assumes "n \<le> length idt"
  shows "fold (\<lambda>i. idt_set_gate i (f i) sel flags) [0..<n] idt ! v =
    (if v < n then idt_set_gate v (f v) sel flags idt ! v else idt ! v)"
  using assms
proof (induction n arbitrary: v)
  case (Suc n)
  let ?idt = "fold (\<lambda>i. idt_set_gate i (f i) sel flags) [0..<n] idt"
  have same: "?idt ! n = idt ! n" using Suc by simp
  have "idt_set_gate n (f n) sel flags ?idt ! n = idt_set_gate n (f n) sel flags idt ! n"
    using Suc.prems same by (simp add: idt_set_gate_def Let_def fold_idt_length)
  with Suc show ?case by (cases "v = n") (auto simp: less_Suc_eq)
qed simp

lemma init_gdt_entries:
  assumes "length (gdt_entries d) = 5"
  shows "length (gdt_entries (init_gdt ga d)) = 5"
    and "access (gdt_entries (init_gdt ga d) ! 1) = 0x9A" "granularity (gdt_entries (init_gdt ga d) ! 1) AND 0xF0 = 0xA0"
    and "access (gdt_entries (init_gdt ga d) ! 2) = 0x92"
  using assms gdt_set_gate_fields(3,4) [of 1 _ 0 "0xFFFFF" "0x9A" "0xAF"]
  by (simp_all add: init_gdt_def gdt_flush_def Let_def gdt_set_gate_fields(3) del: One_nat_def)

lemma long_flags: "g AND 0xF0 = (0xA0 :: u8) \<Longrightarrow> bit g 5 \<and> \<not> bit g 6"
proof -
  assume a: "g AND 0xF0 = (0xA0 :: u8)"
  have "bit g 5 = bit (g AND 0xF0) 5" "bit g 6 = bit (g AND 0xF0) 6" by (simp_all add: bit_and_iff)
  with a show ?thesis by simp
qed

text \<open>C24: after \<^verbatim>\<open>init_descriptor_tables\<close> the processor runs in a present 64-bit code segment of the kernel, its data
  segment registers select a present writable segment of the kernel, and the vectors 0 to 47, and only
  they, have a present interrupt gate, which leads to the assembly stub of the vector in the code segment.\<close>

theorem descriptor_tables_installed:
  assumes "length (gdt_entries d) = 5"
  shows "let d' = init_descriptor_tables ga ia stubs d; code = selected (gdt_entries d') (seg_cs d')
    in gdtr d' = \<lparr>tlimit = 39, tbase = ga\<rparr> \<and> idtr d' = \<lparr>tlimit = 4095, tbase = ia\<rparr> \<and>
      seg_present code \<and> seg_code code \<and> seg_long code \<and> seg_dpl code = 0 \<and>
      list_all (\<lambda>s. let e = selected (gdt_entries d') s in seg_present e \<and> seg_writable_data e \<and> seg_dpl e = 0) (seg_data d') \<and>
      length (seg_data d') = 5 \<and> length (idt_entries d') = 256 \<and>
      list_all (\<lambda>v. let g = idt_entries d' ! v
                    in gate_present g \<longleftrightarrow> v < 48) [0..<256] \<and>
      list_all (\<lambda>v. let g = idt_entries d' ! v
                    in gate_offset g = stubs v \<and> selector g = seg_cs d' \<and> gate_type g = 0xE \<and> gate_dpl g = 0) [0..<48]"
proof -
  let ?g = "init_gdt ga d"
  let ?idt = "fold (\<lambda>i. idt_set_gate i (stubs i) 0x08 0x8E) [0..<48] (replicate 256 zero_idt_entry)"
  have d': "init_descriptor_tables ga ia stubs d =
      ?g\<lparr>idt_ptr := \<lparr>tlimit = 4095, tbase = ia\<rparr>, idt_entries := ?idt, idtr := \<lparr>tlimit = 4095, tbase = ia\<rparr>\<rparr>"
    by (simp add: init_descriptor_tables_def init_idt_def idt_flush_def Let_def)
  have regs: "gdtr ?g = \<lparr>tlimit = 39, tbase = ga\<rparr>" "seg_cs ?g = 0x08" "seg_data ?g = replicate 5 0x10"
    by (simp_all add: init_gdt_def gdt_flush_def Let_def)
  have sel: "selected (gdt_entries ?g) 0x08 = gdt_entries ?g ! 1" "selected (gdt_entries ?g) 0x10 = gdt_entries ?g ! 2"
    by (simp_all add: selected_def)
  have code: "seg_present (gdt_entries ?g ! 1)" "seg_code (gdt_entries ?g ! 1)" "seg_long (gdt_entries ?g ! 1)"
    "seg_dpl (gdt_entries ?g ! 1) = 0"
    using init_gdt_entries(2,3) [OF assms, of ga] long_flags
    by (simp_all add: seg_present_def seg_code_def seg_long_def seg_dpl_def)
  have data: "seg_present (gdt_entries ?g ! 2)" "seg_writable_data (gdt_entries ?g ! 2)" "seg_dpl (gdt_entries ?g ! 2) = 0"
    using init_gdt_entries(4) [OF assms, of ga] by (simp_all add: seg_present_def seg_writable_data_def seg_dpl_def)
  have gate: "?idt ! v = idt_set_gate v (stubs v) 0x08 0x8E (replicate 256 zero_idt_entry) ! v" if "v < 48" for v
    using that fold_idt_gates [of 48 "replicate 256 zero_idt_entry" stubs "0x08" "0x8E" v] by simp
  have none: "?idt ! v = zero_idt_entry" if "48 \<le> v" "v < 256" for v
    using that fold_idt_gates [of 48 "replicate 256 zero_idt_entry" stubs "0x08" "0x8E" v] by simp
  have "gate_present (?idt ! v) \<longleftrightarrow> v < 48" if "v < 256" for v
    using that gate [of v] none [of v] idt_set_gate_fields(3) [of v "replicate 256 zero_idt_entry" "stubs v" "0x08" "0x8E"]
    by (cases "v < 48") (auto simp: gate_present_def zero_idt_entry_def)
  moreover have "gate_offset (?idt ! v) = stubs v \<and> selector (?idt ! v) = 0x08 \<and> gate_type (?idt ! v) = 0xE \<and> gate_dpl (?idt ! v) = 0"
    if "v < 48" for v
    using that idt_set_gate_fields [of v "replicate 256 zero_idt_entry" "stubs v" "0x08" "0x8E"]
    by (simp add: gate gate_type_def gate_dpl_def)
  ultimately show ?thesis
    unfolding d' Let_def by (simp add: regs sel code data list_all_iff fold_idt_length del: One_nat_def)
qed

theorem descriptor_tables_installed_witness:
  "let d' = init_descriptor_tables 0x1000 0x2000 (\<lambda>v. 0xFFFFFFFF80000000 + 16 * of_nat v)
       \<lparr>gdt_entries = replicate 5 null_gdt_entry, gdt_ptr = \<lparr>tlimit = 0, tbase = 0\<rparr>, idt_entries = [],
        idt_ptr = \<lparr>tlimit = 0, tbase = 0\<rparr>, gdtr = \<lparr>tlimit = 0, tbase = 0\<rparr>, idtr = \<lparr>tlimit = 0, tbase = 0\<rparr>,
        seg_cs = 0x28, seg_data = []\<rparr>
   in idtr d' = \<lparr>tlimit = 4095, tbase = 0x2000\<rparr> \<and> seg_present (selected (gdt_entries d') (seg_cs d'))"
  using descriptor_tables_installed [of
      "\<lparr>gdt_entries = replicate 5 null_gdt_entry, gdt_ptr = \<lparr>tlimit = 0, tbase = 0\<rparr>, idt_entries = [],
        idt_ptr = \<lparr>tlimit = 0, tbase = 0\<rparr>, gdtr = \<lparr>tlimit = 0, tbase = 0\<rparr>, idtr = \<lparr>tlimit = 0, tbase = 0\<rparr>,
        seg_cs = 0x28, seg_data = []\<rparr>" "0x1000" "0x2000" "\<lambda>v. 0xFFFFFFFF80000000 + 16 * of_nat v"]
  unfolding Let_def by (simp del: upt_rec_numeral)

text \<open>The i386 table, and the two interrupt controllers after \<^verbatim>\<open>remap_pic\<close>: whatever state they were in, the timer,
  the keyboard and the cascade line raise the vectors 32, 33 and 34, and the other lines are masked.\<close>

lemma fold_idt32_gates:
  assumes "length (idt32 d) = 256" "n \<le> 256"
  shows "let d' = fold (\<lambda>v d. d\<lparr>idt32 := idt_set_descriptor v (f v) flags (idt32 d), vectors := (vectors d)[v := 1]\<rparr>) [0..<n] d
    in length (idt32 d') = 256 \<and>
      (\<forall>v. idt32 d' ! v = (if v < n then idt_set_descriptor v (f v) flags (idt32 d) ! v else idt32 d ! v))"
  using assms(2)
proof (induction n)
  case (Suc n)
  then show ?case using assms(1) by (auto simp: Let_def idt_set_descriptor_def less_Suc_eq nth_list_update)
qed (simp add: Let_def assms(1))

lemma init_idt32_gates:
  assumes "length (idt32 d) = 256" and "v < 48"
  shows "gate_offset32 (idt32 (init_idt32 ia stubs d) ! v) = stubs v"
    and "attributes (idt32 (init_idt32 ia stubs d) ! v) = 0x8E"
  using fold_idt32_gates [OF assms(1), of 48 stubs "0x8E"] assms idt_set_descriptor_fields [of v "idt32 d"]
  by (simp_all add: init_idt32_def NUM_ISR_STUBS_def Let_def del: upt_rec_numeral)

lemma remap_pic_vectors:
  "list_all (\<lambda>n. line_vector (fold pics_write remap_pic (m, s)) n = (if n < 3 then Some (32 + of_nat n) else None)) [0..<16]"
proof -
  let ?p = "(m\<lparr>pic_step := 0, pic_offset := 32, pic_cascade := 4, pic_mode := 1, pic_mask := 0xF8\<rparr>,
      s\<lparr>pic_step := 0, pic_offset := 40, pic_cascade := 2, pic_mode := 1, pic_mask := 0xFF\<rparr>)"
  have p: "fold pics_write remap_pic (m, s) = ?p"
    by (simp add: remap_pic_def pics_write_def pic_write_def)
  have lines: "[0..<16] = [0, 1, 2, 3, 4, 5, 6, 7, 8, 9, 10, 11, 12, 13, 14, 15]" by code_simp
  show ?thesis unfolding p lines list.pred_inject by (simp add: line_vector_def)
qed

end
