(* ===== verification/Interrupts.thy ===== *)
theory Interrupts
  imports Descriptors Console_Proofs
begin

text \<open>
  Interrupt entry on x86-64: the assembly stubs of \<^verbatim>\<open>arch/x86_64/asm/interrupt.S\<close>, the dispatcher
  \<^verbatim>\<open>arch/x86_64/interrupts/isr.c\<close> and the report of \<^verbatim>\<open>arch/x86_64/panic.c\<close>.

  The processor has its registers and a memory of 64-bit words.  \<open>cpu_deliver\<close> and \<open>iretq\<close> are what the
  processor does on an interrupt and on the return from it.  The handler written in C is an argument of
  the stub: a function on the processor state.  Property: whatever is interrupted goes on as if nothing
  had happened, when the handler leaves the saved context alone.
\<close>

section \<open>Processor\<close>

datatype gpr = RAX | RBX | RCX | RDX | RBP | RSI | RDI | R8 | R9 | R10 | R11 | R12 | R13 | R14 | R15

record cpu =
  c_gpr :: "gpr \<Rightarrow> u64"
  c_rsp :: u64
  c_rip :: u64
  c_rflags :: u64
  c_cs :: u16
  c_ss :: u16
  c_ds :: u16
  c_es :: u16
  c_fs :: u16
  c_gs :: u16
  c_mem :: "u64 \<Rightarrow> u64"

definition push64 :: "u64 \<Rightarrow> cpu \<Rightarrow> cpu" where
  "push64 v c = c\<lparr>c_rsp := c_rsp c - 8, c_mem := (c_mem c)(c_rsp c - 8 := v)\<rparr>"

definition pop64 :: "cpu \<Rightarrow> u64 \<times> cpu" where
  "pop64 c = (c_mem c (c_rsp c), c\<lparr>c_rsp := c_rsp c + 8\<rparr>)"

text \<open>Delivery through an interrupt gate: the stack is aligned to 16 bytes, the return frame and the error code, if
  the vector has one, are pushed, and interrupts are turned off.\<close>

definition cpu_deliver :: "u64 \<Rightarrow> u16 \<Rightarrow> u64 option \<Rightarrow> cpu \<Rightarrow> cpu" where
  "cpu_deliver target sel err c =
     (let c1 = c\<lparr>c_rsp := c_rsp c AND NOT 0xF\<rparr>;
          c2 = push64 (c_rsp c) (push64 (ucast (c_ss c)) c1);
          c3 = push64 (c_rip c) (push64 (ucast (c_cs c)) (push64 (c_rflags c) c2));
          c4 = (case err of None \<Rightarrow> c3 | Some e \<Rightarrow> push64 e c3)
      in c4\<lparr>c_rip := target, c_cs := sel, c_rflags := cli (c_rflags c4)\<rparr>)"

definition iretq :: "cpu \<Rightarrow> cpu" where
  "iretq c =
     (let (rip, c1) = pop64 c; (cs, c2) = pop64 c1; (flags, c3) = pop64 c2; (rsp, c4) = pop64 c3; (ss, c5) = pop64 c4
      in c5\<lparr>c_rip := rip, c_cs := ucast cs, c_rflags := flags, c_rsp := rsp, c_ss := ucast ss\<rparr>)"

section \<open>Stubs\<close>

definition isr_no_err_stub :: "nat \<Rightarrow> cpu \<Rightarrow> cpu" where
  "isr_no_err_stub num c = push64 (of_nat num) (push64 0 (c\<lparr>c_rflags := cli (c_rflags c)\<rparr>))"

definition isr_err_stub :: "nat \<Rightarrow> cpu \<Rightarrow> cpu" where
  "isr_err_stub num c = push64 (of_nat num) (c\<lparr>c_rflags := cli (c_rflags c)\<rparr>)"

text \<open>Which macro the stub of a vector is made with.\<close>

definition isr_stub :: "nat \<Rightarrow> cpu \<Rightarrow> cpu" where
  "isr_stub num c = (if num \<in> {8, 10, 11, 12, 13, 14, 17, 30} then isr_err_stub num c else isr_no_err_stub num c)"

definition push_reg :: "gpr \<Rightarrow> cpu \<Rightarrow> cpu" where
  "push_reg r c = push64 (c_gpr c r) c"

definition pop_reg :: "gpr \<Rightarrow> cpu \<Rightarrow> cpu" where
  "pop_reg r c = (let (v, c1) = pop64 c in c1\<lparr>c_gpr := (c_gpr c1)(r := v)\<rparr>)"

definition set_segs :: "u16 \<Rightarrow> cpu \<Rightarrow> cpu" where
  "set_segs s c = c\<lparr>c_ds := s, c_es := s, c_fs := s, c_gs := s\<rparr>"

text \<open>The common stub up to the call, and from the return of the handler on.\<close>

definition stub_enter :: "cpu \<Rightarrow> cpu" where
  "stub_enter c =
     (let c1 = fold push_reg [RAX, RBX, RCX, RDX, RBP, RSI, RDI, R8, R9, R10, R11, R12, R13, R14, R15] c;
          c2 = push_reg RAX (c1\<lparr>c_gpr := (c_gpr c1)(RAX := ucast (c_ds c1))\<rparr>);
          c3 = set_segs 0x10 (c2\<lparr>c_gpr := (c_gpr c2)(RAX := (c_gpr c2 RAX AND NOT 0xFFFF) OR 0x10)\<rparr>)
      in c3\<lparr>c_gpr := (c_gpr c3)(RDI := c_rsp c3)\<rparr>)"

definition stub_leave :: "cpu \<Rightarrow> cpu" where
  "stub_leave c =
     (let c1 = pop_reg RAX c;
          c2 = set_segs (ucast (c_gpr c1 RAX)) c1;
          c3 = fold pop_reg [R15, R14, R13, R12, R11, R10, R9, R8, RDI, RSI, RBP, RDX, RCX, RBX, RAX] c2
      in iretq (c3\<lparr>c_rsp := c_rsp c3 + 16\<rparr>))"

definition isr_common_stub :: "(cpu \<Rightarrow> cpu) \<Rightarrow> cpu \<Rightarrow> cpu" where
  "isr_common_stub handler c = stub_leave (handler (stub_enter c))"

text \<open>A whole interrupt: delivery, stub, handler, return.\<close>

definition interrupt :: "(cpu \<Rightarrow> cpu) \<Rightarrow> u64 \<Rightarrow> u16 \<Rightarrow> nat \<Rightarrow> u64 option \<Rightarrow> cpu \<Rightarrow> cpu" where
  "interrupt handler target sel num err c = isr_common_stub handler (isr_stub num (cpu_deliver target sel err c))"

section \<open>Dispatcher\<close>

record interrupt_context =
  ic_ds :: u64
  ic_gpr :: "gpr \<Rightarrow> u64"
  int_no :: u64
  err_code :: u64
  ic_rip :: u64
  ic_cs :: u64
  ic_rflags :: u64
  ic_rsp :: u64
  ic_ss :: u64

text \<open>The offsets of the structure: DS, then the registers from R15 to RAX, and the rest.\<close>

fun gpr_slot :: "gpr \<Rightarrow> u64" where
  "gpr_slot R15 = 1" | "gpr_slot R14 = 2" | "gpr_slot R13 = 3" | "gpr_slot R12 = 4" | "gpr_slot R11 = 5"
| "gpr_slot R10 = 6" | "gpr_slot R9 = 7" | "gpr_slot R8 = 8" | "gpr_slot RDI = 9" | "gpr_slot RSI = 10"
| "gpr_slot RBP = 11" | "gpr_slot RDX = 12" | "gpr_slot RCX = 13" | "gpr_slot RBX = 14" | "gpr_slot RAX = 15"

definition context_at :: "(u64 \<Rightarrow> u64) \<Rightarrow> u64 \<Rightarrow> interrupt_context" where
  "context_at m p =
     \<lparr>ic_ds = m p, ic_gpr = (\<lambda>r. m (p + 8 * gpr_slot r)), int_no = m (p + 128), err_code = m (p + 136),
      ic_rip = m (p + 144), ic_cs = m (p + 152), ic_rflags = m (p + 160), ic_rsp = m (p + 168), ic_ss = m (p + 176)\<rparr>"

type_synonym 's isr_t = "interrupt_context \<Rightarrow> 's \<Rightarrow> 's"

definition register_interrupt_handler :: "u8 \<Rightarrow> 's isr_t \<Rightarrow> 's isr_t option list \<Rightarrow> 's isr_t option list" where
  "register_interrupt_handler n handler tab = tab[unat n := Some handler]"

text \<open>\<^verbatim>\<open>com1_putc\<close> polls the line status register with the loop of \<^verbatim>\<open>serial_putchar\<close>.\<close>

definition com1_putc :: "u8 \<Rightarrow> serial \<Rightarrow> serial option" where
  "com1_putc ch s = map_option (ser_outb 0x3F8 ch) (wait_transmit s)"

primrec com1_write :: "u8 list \<Rightarrow> serial \<Rightarrow> serial option" where
  "com1_write [] s = Some s"
| "com1_write (ch # t) s = do { s1 \<leftarrow> com1_putc ch s; com1_write t s1 }"

definition upper_digits :: "u8 list" where
  "upper_digits = [48, 49, 50, 51, 52, 53, 54, 55, 56, 57, 65, 66, 67, 68, 69, 70]"

text \<open>The digits of the loop that starts with the shift \<open>4 * (n - 1)\<close>.\<close>

primrec nibbles :: "nat \<Rightarrow> u64 \<Rightarrow> u8 list" where
  "nibbles 0 val = []"
| "nibbles (Suc n) val = upper_digits ! unat (drop_bit (4 * n) val AND 0xF) # nibbles n val"

definition com1_hex64 :: "u64 \<Rightarrow> serial \<Rightarrow> serial option" where
  "com1_hex64 val s = do { s1 \<leftarrow> com1_write [48, 120] s; com1_write (nibbles 16 val) s1 }"

definition serial_hex64 :: "u64 \<Rightarrow> serial \<Rightarrow> serial option" where
  "serial_hex64 val s = do { s1 \<leftarrow> serial_write [48, 120] s; serial_write (nibbles 16 val) s1 }"

text \<open>\<open>_panic\<close> does not return; its result is the serial port as it is when the machine halts.\<close>

definition panic :: "u8 list \<Rightarrow> u8 list \<Rightarrow> u8 list \<Rightarrow> u64 \<Rightarrow> u64 \<Rightarrow> u64 \<Rightarrow> serial \<Rightarrow> serial option" where
  "panic msg file func rsp cr2 cr3 s0 = do {
     s1 \<leftarrow> serial_write (ascii (CHR 0x0A # ''--- KERNEL PANIC ---'' @ [CHR 0x0A])) s0;
     s2 \<leftarrow> serial_write msg s1;
     s3 \<leftarrow> serial_write [10] s2;
     s4 \<leftarrow> serial_write file s3;
     s5 \<leftarrow> serial_write (ascii '' in '') s4;
     s6 \<leftarrow> serial_write func s5;
     s7 \<leftarrow> serial_write (ascii (''()'' @ [CHR 0x0A])) s6;
     s8 \<leftarrow> serial_write (ascii ''RSP='') s7;
     s9 \<leftarrow> serial_hex64 rsp s8;
     s10 \<leftarrow> serial_write (ascii '' CR2='') s9;
     s11 \<leftarrow> serial_hex64 cr2 s10;
     s12 \<leftarrow> serial_write (ascii '' CR3='') s11;
     s13 \<leftarrow> serial_hex64 cr3 s12;
     serial_write [10] s13 }"

text \<open>How the dispatcher ends: it returns, it halts the machine after the report, it reads outside the table, or it
  waits for the serial port for ever.\<close>

datatype 's outcome = Returned 's serial | Halted serial | Out_of_table | Waiting

definition isr_handler :: "'s isr_t option list \<Rightarrow> u8 list \<Rightarrow> u64 \<Rightarrow> u64 \<Rightarrow> u64 \<Rightarrow> interrupt_context \<Rightarrow> 's \<Rightarrow> serial \<Rightarrow> 's outcome" where
  "isr_handler tab file rsp cr2 cr3 regs k s =
     (if length tab \<le> unat (int_no regs) then Out_of_table
      else case tab ! unat (int_no regs) of
        Some handler \<Rightarrow> Returned (handler regs k) s
      | None \<Rightarrow>
          if int_no regs < 32 then
            case (do {
              s1 \<leftarrow> com1_write (ascii (CHR 0x0A # ''[EXCEPTION] vec='')) s;
              s2 \<leftarrow> com1_hex64 (int_no regs) s1;
              s3 \<leftarrow> com1_write (ascii '' err='') s2;
              s4 \<leftarrow> com1_hex64 (err_code regs) s3;
              s5 \<leftarrow> com1_write (ascii '' rip='') s4;
              s6 \<leftarrow> com1_hex64 (ic_rip regs) s5;
              s7 \<leftarrow> com1_write (ascii '' cr2='') s6;
              s8 \<leftarrow> com1_hex64 cr2 s7;
              s9 \<leftarrow> com1_write [10] s8;
              panic (ascii ''unhandled CPU exception'') file (ascii ''isr_handler'') rsp cr2 cr3 s9 })
            of None \<Rightarrow> Waiting | Some s' \<Rightarrow> Halted s'
          else Returned k s)"

section \<open>The stack\<close>

text \<open>The words on the stack from an address on, top first.\<close>

primrec stack_at :: "(u64 \<Rightarrow> u64) \<Rightarrow> u64 \<Rightarrow> u64 list \<Rightarrow> bool" where
  "stack_at m p [] \<longleftrightarrow> True"
| "stack_at m p (x # xs) \<longleftrightarrow> m p = x \<and> stack_at m (p + 8) xs"

lemma stack_at_nth: "stack_at m p xs \<longleftrightarrow> (\<forall>i < length xs. m (p + 8 * of_nat i) = xs ! i)"
proof (induction xs arbitrary: p)
  case (Cons x xs)
  have "(\<forall>i < length (x # xs). m (p + 8 * of_nat i) = (x # xs) ! i) \<longleftrightarrow>
      m p = x \<and> (\<forall>i < length xs. m (p + 8 * of_nat (Suc i)) = xs ! i)"
    by (auto simp: nth_Cons less_Suc_eq_0_disj split: nat.splits)
  also have "\<dots> \<longleftrightarrow> m p = x \<and> stack_at m (p + 8) xs"
    using Cons.IH [of "p + 8"] by (simp add: algebra_simps)
  finally show ?case by simp
qed simp

lemma below_stack: "i < 1000 \<Longrightarrow> p - 8 \<noteq> p + 8 * of_nat i" for p :: u64
proof
  assume "i < 1000" and "p - 8 = p + 8 * of_nat i"
  then have "(0 :: u64) = 8 * of_nat i + 8" by (simp add: algebra_simps)
  moreover have "unat (8 * of_nat i + 8 :: u64) = 8 * i + 8"
    using \<open>i < 1000\<close> unat_of_nat_small [of "8 * i + 8", where 'a = 64] by simp
  ultimately show False by (metis add_eq_0_iff_both_eq_0 unat_0 zero_neq_numeral)
qed

lemma stack_push:
  assumes "stack_at (c_mem c) (c_rsp c) xs" and "length xs < 1000"
  shows "stack_at (c_mem (push64 v c)) (c_rsp (push64 v c)) (v # xs)"
proof -
  have "c_rsp c + 8 * of_nat i \<noteq> c_rsp c - 8" if "i < length xs" for i
    using below_stack [of i "c_rsp c"] that assms(2) by auto
  then show ?thesis using assms(1) by (simp add: push64_def) (simp add: stack_at_nth)
qed

text \<open>What a push leaves alone.\<close>

lemma push64_frame [simp]:
  "c_gpr (push64 v c) = c_gpr c" "c_rip (push64 v c) = c_rip c" "c_rflags (push64 v c) = c_rflags c"
  "c_cs (push64 v c) = c_cs c" "c_ss (push64 v c) = c_ss c" "c_ds (push64 v c) = c_ds c"
  "c_rsp (push64 v c) = c_rsp c - 8"
  by (simp_all add: push64_def)

lemma pushes_stack:
  assumes "stack_at (c_mem c) (c_rsp c) xs" and "length xs + length vs < 1000"
  shows "stack_at (c_mem (fold push64 vs c)) (c_rsp (fold push64 vs c)) (rev vs @ xs)"
  using assms
proof (induction vs arbitrary: c xs)
  case (Cons v vs)
  then show ?case using Cons.IH [of "push64 v c" "v # xs"] stack_push [of c xs v] by simp
qed simp

lemma pushes_above:
  assumes "8 * length vs \<le> unat (c_rsp c)" and "unat (c_rsp c) \<le> unat a"
  shows "c_mem (fold push64 vs c) a = c_mem c a"
  using assms
proof (induction vs arbitrary: c)
  case (Cons v vs)
  have "unat (c_rsp c - 8) = unat (c_rsp c) - 8"
    using Cons.prems(1) by (simp add: unat_minus_simple)
  then show ?case
    using Cons.IH [of "push64 v c"] Cons.prems by (auto simp: push64_def)
qed simp

text \<open>The frame the handler finds.\<close>

definition saved_frame :: "nat \<Rightarrow> u64 \<Rightarrow> cpu \<Rightarrow> u64 list" where
  "saved_frame num err c =
     ucast (c_ds c) # map (c_gpr c) [R15, R14, R13, R12, R11, R10, R9, R8, RDI, RSI, RBP, RDX, RCX, RBX, RAX] @
     [of_nat num, err, c_rip c, ucast (c_cs c), c_rflags c, c_rsp c, ucast (c_ss c)]"

definition err_vector :: "nat \<Rightarrow> bool" where
  "err_vector num \<longleftrightarrow> num \<in> {8, 10, 11, 12, 13, 14, 17, 30}"

lemma entry_pushes:
  fixes c :: cpu and t :: u64 and sel :: u16
  assumes "err \<noteq> None \<longleftrightarrow> err_vector num"
  defines "c' \<equiv> fold push64 (rev (saved_frame num (case err of None \<Rightarrow> 0 | Some e \<Rightarrow> e) c)) (c\<lparr>c_rsp := c_rsp c AND NOT 0xF\<rparr>)"
    and "e \<equiv> stub_enter (isr_stub num (cpu_deliver t sel err c))"
  shows "c_mem e = c_mem c'" "c_rsp e = c_rsp c'" "c_gpr e RDI = c_rsp e" "c_rflags e = cli (cli (c_rflags c))"
  using assms(1) unfolding c'_def e_def
  by (cases err; simp add: isr_stub_def err_vector_def isr_err_stub_def isr_no_err_stub_def cpu_deliver_def
      stub_enter_def push_reg_def set_segs_def push64_def Let_def saved_frame_def)+

lemma entry_frame:
  assumes "err \<noteq> None \<longleftrightarrow> err_vector num"
  shows "stack_at (c_mem (stub_enter (isr_stub num (cpu_deliver t sel err c))))
      (c_rsp (stub_enter (isr_stub num (cpu_deliver t sel err c))))
      (saved_frame num (case err of None \<Rightarrow> 0 | Some e \<Rightarrow> e) c)"
  using pushes_stack [of "c\<lparr>c_rsp := c_rsp c AND NOT 0xF\<rparr>" "[]" "rev (saved_frame num (case err of None \<Rightarrow> 0 | Some e \<Rightarrow> e) c)"]
  by (simp add: entry_pushes [OF assms]) (simp add: saved_frame_def)

text \<open>The return path undoes the entry.\<close>

lemma leave_restores:
  assumes "stack_at (c_mem e) (c_rsp e) (saved_frame num err c)"
  shows "c_gpr (stub_leave e) = c_gpr c" "c_rip (stub_leave e) = c_rip c" "c_rflags (stub_leave e) = c_rflags c"
    "c_cs (stub_leave e) = c_cs c" "c_ss (stub_leave e) = c_ss c" "c_rsp (stub_leave e) = c_rsp c"
    "c_ds (stub_leave e) = c_ds c" "c_mem (stub_leave e) = c_mem e"
proof -
  have u: "ucast (ucast w :: u64) = w" for w :: u16
    by (rule bit_word_eqI) (simp add: bit_simps)
  note defs = saved_frame_def stub_leave_def iretq_def pop_reg_def pop64_def set_segs_def Let_def u
  show "c_rip (stub_leave e) = c_rip c" "c_rflags (stub_leave e) = c_rflags c" "c_cs (stub_leave e) = c_cs c"
    "c_ss (stub_leave e) = c_ss c" "c_rsp (stub_leave e) = c_rsp c" "c_ds (stub_leave e) = c_ds c" "c_mem (stub_leave e) = c_mem e"
    using assms by (simp_all add: defs)
  have "c_gpr (stub_leave e) r = c_gpr c r" for r
    using assms by (cases r) (simp_all add: defs)
  then show "c_gpr (stub_leave e) = c_gpr c" by auto
qed

text \<open>The structure the handler is given a pointer to has the saved registers in its fields.\<close>

lemma context_of_frame:
  assumes "stack_at m p (saved_frame num err c)"
  shows "context_at m p =
    \<lparr>ic_ds = ucast (c_ds c), ic_gpr = c_gpr c, int_no = of_nat num, err_code = err, ic_rip = c_rip c, ic_cs = ucast (c_cs c),
     ic_rflags = c_rflags c, ic_rsp = c_rsp c, ic_ss = ucast (c_ss c)\<rparr>"
proof -
  have "m (p + 8 * gpr_slot r) = c_gpr c r" for r
    using assms by (cases r) (simp_all add: saved_frame_def add.commute [of p])
  then show ?thesis using assms by (simp add: saved_frame_def context_at_def fun_eq_iff add.commute [of p])
qed

lemma frame_of_context:
  assumes "stack_at m p (saved_frame num err c)" and "context_at m' p = context_at m p"
  shows "stack_at m' p (saved_frame num err c)"
proof -
  have "m' (p + 8 * gpr_slot r) = m (p + 8 * gpr_slot r)" for r
    using assms(2) by (simp add: context_at_def fun_eq_iff)
  note slots = this [of R15] this [of R14] this [of R13] this [of R12] this [of R11] this [of R10] this [of R9] this [of R8]
    this [of RDI] this [of RSI] this [of RBP] this [of RDX] this [of RCX] this [of RBX] this [of RAX]
  show ?thesis using assms slots by (simp add: saved_frame_def context_at_def add.commute [of p])
qed

section \<open>Properties\<close>


definition demo_cpu :: cpu where
  "demo_cpu = \<lparr>c_gpr = (\<lambda>_. 7), c_rsp = 0x9008, c_rip = 0x1234, c_rflags = 0x202, c_cs = 8, c_ss = 0x10, c_ds = 0x10, c_es = 0x10,
     c_fs = 0x10, c_gs = 0x10, c_mem = (\<lambda>_. 0)\<rparr>"


text \<open>Vector 21 has an error code the stub does not know of: the return takes it for the instruction pointer.\<close>

lemma control_protection_return:
  "c_rip (interrupt (\<lambda>c. c) t sel 21 (Some e) c) = e"
proof -
  define c0 where "c0 = c\<lparr>c_rsp := c_rsp c AND NOT 0xF\<rparr>"
  let ?vs = "[ucast (c_ss c), c_rsp c, c_rflags c, ucast (c_cs c), c_rip c, e, 0, 21,
    c_gpr c RAX, c_gpr c RBX, c_gpr c RCX, c_gpr c RDX, c_gpr c RBP, c_gpr c RSI, c_gpr c RDI, c_gpr c R8, c_gpr c R9,
    c_gpr c R10, c_gpr c R11, c_gpr c R12, c_gpr c R13, c_gpr c R14, c_gpr c R15, ucast (c_ds c)]"
  define f where "f = stub_enter (isr_stub 21 (cpu_deliver t sel (Some e) c))"
  have "c_mem f = c_mem (fold push64 ?vs c0)" "c_rsp f = c_rsp (fold push64 ?vs c0)"
    by (simp_all add: f_def c0_def isr_stub_def isr_no_err_stub_def cpu_deliver_def stub_enter_def push_reg_def set_segs_def
        push64_def Let_def)
  then have "stack_at (c_mem f) (c_rsp f) (rev ?vs)"
    using pushes_stack [of c0 "[]" ?vs] by (simp del: fold_simps stack_at.simps(2))
  then show ?thesis
    unfolding interrupt_def isr_common_stub_def f_def [symmetric]
    by (simp add: stub_leave_def iretq_def pop_reg_def pop64_def set_segs_def Let_def)
qed

section \<open>The dispatcher\<close>

lemma serial_write_append: "serial_write (a @ b) s = Option.bind (serial_write a s) (serial_write b)"
  by (induction a arbitrary: s) (simp_all add: Option.bind_assoc)

lemma com1_write_eq: "com1_write t s = serial_write t s"
  by (induction t arbitrary: s) (simp_all add: com1_putc_def serial_putchar_def COM1_PORT_def)

lemma hex64_eq:
  "com1_hex64 val s = serial_write (48 # 120 # nibbles 16 val) s" "serial_hex64 val s = serial_write (48 # 120 # nibbles 16 val) s"
  using serial_write_append [of "[48, 120]" "nibbles 16 val" s]
  by (simp_all add: com1_hex64_def serial_hex64_def com1_write_eq Option.bind_assoc)

text \<open>The hexadecimal digits are the number.\<close>

definition nibble_value :: "u8 \<Rightarrow> nat" where
  "nibble_value d = (if d < 58 then unat d - 48 else unat d - 55)"

lemma nibble_value_digit: "k < 16 \<Longrightarrow> nibble_value (upper_digits ! k) = k"
proof -
  have "\<forall>k \<in> set [0..<16]. nibble_value (upper_digits ! k) = k" by code_simp
  then show "k < 16 \<Longrightarrow> ?thesis" by simp
qed

lemma nibbles_value: "foldl (\<lambda>v d. 16 * v + nibble_value d) a (nibbles n val) = 16 ^ n * a + unat val mod 16 ^ n"
proof (induction n arbitrary: a)
  case (Suc n)
  have m: "(0xF :: u64) = mask 4" by (simp add: mask_eq_exp_minus_1)
  have p: "(2 :: nat) ^ (4 * n) = 16 ^ n" by (simp add: power_mult)
  have d: "unat (drop_bit (4 * n) val AND 0xF) = unat val div 16 ^ n mod 16"
    by (simp add: m unat_and_mask unat_drop_bit p)
  have "unat val mod 16 ^ Suc n = 16 ^ n * (unat val div 16 ^ n mod 16) + unat val mod 16 ^ n"
    using mod_mult2_eq [of "unat val" "16 ^ n" 16] by (simp add: mult.commute)
  then show ?case
    by (simp add: Suc nibble_value_digit d) (simp add: algebra_simps)
qed simp

lemma hex64_value: "foldl (\<lambda>v d. 16 * v + nibble_value d) 0 (nibbles 16 val) = unat val"
  using nibbles_value [of 0 16 val] unat_lt [of val] by simp

definition hex64 :: "u64 \<Rightarrow> u8 list" where "hex64 val = 48 # 120 # nibbles 16 val"

lemma panic_eq:
  "panic msg file func rsp cr2 cr3 = serial_write (10 # ascii ''--- KERNEL PANIC ---'' @ [10] @ msg @ [10] @ file @ ascii '' in '' @ func @
     ascii ''()'' @ [10] @ ascii ''RSP='' @ hex64 rsp @ ascii '' CR2='' @ hex64 cr2 @ ascii '' CR3='' @ hex64 cr3 @ [10])"
  by (rule ext) (simp add: panic_def hex64_eq hex64_def serial_write_append [symmetric] ascii_def del: serial_write.simps nibbles.simps)

text \<open>C37: the dispatcher.  A registered handler runs on the context and nothing is printed; an interrupt
  without handler is ignored; an exception without handler is reported on the serial line, with its
  vector, error code, instruction pointer and faulting address, and the machine halts.\<close>

theorem isr_dispatch:
  assumes "length tab = 256" and "int_no regs < 256" and "transmits s"
  shows "(\<forall>handler. tab ! unat (int_no regs) = Some handler \<longrightarrow>
        isr_handler tab file rsp cr2 cr3 regs k s = Returned (handler regs k) s) \<and>
    (tab ! unat (int_no regs) = None \<longrightarrow> 32 \<le> int_no regs \<longrightarrow> isr_handler tab file rsp cr2 cr3 regs k s = Returned k s) \<and>
    (tab ! unat (int_no regs) = None \<longrightarrow> int_no regs < 32 \<longrightarrow>
      (\<exists>p. isr_handler tab file rsp cr2 cr3 regs k s = Halted (s\<lparr>ser_writes := ser_writes s @ map (\<lambda>b. (COM1_PORT, b))
        (10 # ascii ''[EXCEPTION] vec='' @ hex64 (int_no regs) @ ascii '' err='' @ hex64 (err_code regs) @ ascii '' rip='' @
         hex64 (ic_rip regs) @ ascii '' cr2='' @ hex64 cr2 @ [10] @
         10 # ascii ''--- KERNEL PANIC ---'' @ [10] @ ascii ''unhandled CPU exception'' @ [10] @ file @ ascii '' in isr_handler()'' @ [10] @
         ascii ''RSP='' @ hex64 rsp @ ascii '' CR2='' @ hex64 cr2 @ ascii '' CR3='' @ hex64 cr3 @ [10]), status_reads := p\<rparr>)))"
proof -
  have inside: "\<not> length tab \<le> unat (int_no regs)"
    using assms(1,2) by (simp add: word_less_nat_alt)
  let ?text = "10 # ascii ''[EXCEPTION] vec='' @ hex64 (int_no regs) @ ascii '' err='' @ hex64 (err_code regs) @ ascii '' rip='' @
         hex64 (ic_rip regs) @ ascii '' cr2='' @ hex64 cr2 @ [10] @
         10 # ascii ''--- KERNEL PANIC ---'' @ [10] @ ascii ''unhandled CPU exception'' @ [10] @ file @ ascii '' in isr_handler()'' @ [10] @
         ascii ''RSP='' @ hex64 rsp @ ascii '' CR2='' @ hex64 cr2 @ ascii '' CR3='' @ hex64 cr3 @ [10]"
  obtain p where p: "serial_write ?text s = Some (s\<lparr>ser_writes := ser_writes s @ map (\<lambda>b. (COM1_PORT, b)) ?text, status_reads := p\<rparr>)"
    using serial_write_writes [OF assms(3)] by blast
  have "isr_handler tab file rsp cr2 cr3 regs k s = (case serial_write ?text s of None \<Rightarrow> Waiting | Some s' \<Rightarrow> Halted s')"
    if "tab ! unat (int_no regs) = None" "int_no regs < 32"
    using that inside
    by (simp add: isr_handler_def panic_eq com1_write_eq hex64_eq hex64_def serial_write_append [symmetric] ascii_def
        del: serial_write.simps nibbles.simps)
  then have "\<exists>p. isr_handler tab file rsp cr2 cr3 regs k s =
      Halted (s\<lparr>ser_writes := ser_writes s @ map (\<lambda>b. (COM1_PORT, b)) ?text, status_reads := p\<rparr>)"
    if "tab ! unat (int_no regs) = None" "int_no regs < 32"
    using that unfolding p option.case by blast
  moreover have "isr_handler tab file rsp cr2 cr3 regs k s = Returned (handler regs k) s"
    if "tab ! unat (int_no regs) = Some handler" for handler
    using that inside by (simp add: isr_handler_def)
  moreover have "isr_handler tab file rsp cr2 cr3 regs k s = Returned k s"
    if "tab ! unat (int_no regs) = None" "32 \<le> int_no regs"
    using that(1) inside not_less [THEN iffD2, OF that(2)] by (simp only: isr_handler_def if_False option.case)
  ultimately show ?thesis by blast
qed

theorem isr_dispatch_witness:
  "isr_handler (register_interrupt_handler 33 (\<lambda>regs k. k + int_no regs) (replicate 256 None)) [] 0 0 0
     \<lparr>ic_ds = 0, ic_gpr = (\<lambda>_. 0), int_no = 33, err_code = 0, ic_rip = 0, ic_cs = 0, ic_rflags = 0, ic_rsp = 0, ic_ss = 0\<rparr> 9 ready_port =
   Returned 42 ready_port"
proof -
  have "transmits ready_port" by (auto simp: transmits_def ready_port_def)
  then show ?thesis
    using isr_dispatch [of "register_interrupt_handler 33 (\<lambda>regs k. k + int_no regs) (replicate 256 None)"
      "\<lparr>ic_ds = 0, ic_gpr = (\<lambda>_. 0), int_no = 33, err_code = 0, ic_rip = 0, ic_cs = 0, ic_rflags = 0, ic_rsp = 0, ic_ss = 0\<rparr>"
      ready_port "[]" 0 0 0 9]
    by (simp add: register_interrupt_handler_def)
qed

end
