(* ===== verification/Shell.thy ===== *)
theory Shell
  imports Interrupts Keyboard_Proofs
begin

text \<open>
  The shell of the x86-64 port, \<^verbatim>\<open>arch/x86_64/include/shell.c\<close>: it composes the keyboard (the line read and its echo),
  the console and, for the memory dump, formatted output.

  Strings are the lists of their characters up to the terminator; a comparison by \<^verbatim>\<open>strcmp\<close>, which is correct for
  lines of this length, is equality of lists.  The game a command starts is an argument.  None is an access
  outside a buffer in formatted output.
\<close>

section \<open>Commands\<close>

definition cmd_help :: "console \<Rightarrow> console" where
  "cmd_help c = console_puts (ascii ''commands: help, clear, echo, uptime, peek, pong'' @ [10]) c"

definition cmd_clear :: "console \<Rightarrow> console" where "cmd_clear c = console_clear c"

definition cmd_echo :: "u8 list \<Rightarrow> console \<Rightarrow> console" where
  "cmd_echo args c = console_putchar 10 (console_puts args c)"

definition cmd_uptime :: "u32 \<Rightarrow> console \<Rightarrow> console option" where
  "cmd_uptime ticks c = console_printf (ascii ''uptime: ms since boot: %d'' @ [10]) [VInt ticks] c"

text \<open>\<^verbatim>\<open>parse_hex\<close>: the value and the rest of the text.\<close>

definition nibble_of :: "u8 \<Rightarrow> u8 option" where
  "nibble_of ch =
     (if 48 \<le> sint ch \<and> sint ch \<le> 57 then Some (ch - 48)
      else if 97 \<le> sint ch \<and> sint ch \<le> 102 then Some (ch - 97 + 10)
      else if 65 \<le> sint ch \<and> sint ch \<le> 70 then Some (ch - 65 + 10)
      else None)"

fun parse_digits :: "u64 \<Rightarrow> u8 list \<Rightarrow> u64 \<times> u8 list" where
  "parse_digits val [] = (val, [])"
| "parse_digits val (ch # s) =
     (case nibble_of ch of None \<Rightarrow> (val, ch # s) | Some n \<Rightarrow> parse_digits (push_bit 4 val OR ucast n) s)"

definition parse_hex :: "u8 list \<Rightarrow> u64 \<times> u8 list" where
  "parse_hex s =
     parse_digits 0 (case s of a # b # s' \<Rightarrow> if a = 48 \<and> (b = 120 \<or> b = 88) then s' else s | _ \<Rightarrow> s)"

definition peek_byte :: "(u64 \<Rightarrow> u8) \<Rightarrow> u64 \<Rightarrow> u64 \<Rightarrow> u64 \<Rightarrow> nat \<Rightarrow> console \<Rightarrow> console option" where
  "peek_byte mem addr len i j c = do {
     c1 \<leftarrow> (if i + of_nat j < len then console_printf (ascii ''%02x '') [VInt (ucast (mem (addr + (i + of_nat j))))] c
            else Some (console_puts (ascii ''   '') c));
     Some (if j = 7 then console_putchar 32 c1 else c1) }"

definition peek_char :: "(u64 \<Rightarrow> u8) \<Rightarrow> u64 \<Rightarrow> u64 \<Rightarrow> u64 \<Rightarrow> nat \<Rightarrow> console \<Rightarrow> console" where
  "peek_char mem addr len i j c =
     (if i + of_nat j < len then
        let ch = mem (addr + (i + of_nat j)) in console_putchar (if 0x20 \<le> ch \<and> ch < 0x7F then ch else 46) c
      else c)"

definition peek_row :: "(u64 \<Rightarrow> u8) \<Rightarrow> u64 \<Rightarrow> u64 \<Rightarrow> u64 \<Rightarrow> console \<Rightarrow> console option" where
  "peek_row mem addr len i c = do {
     let row = addr + i;
     c1 \<leftarrow> console_printf (ascii ''%08x%08x  '') [VInt (ucast (drop_bit 32 row)), VInt (ucast row)] c;
     c2 \<leftarrow> fold (\<lambda>j co. Option.bind co (peek_byte mem addr len i j)) [0..<16] (Some c1);
     let c3 = fold (peek_char mem addr len i) [0..<16] (console_puts (ascii '' |'') c2);
     Some (console_puts (ascii ''|'' @ [10]) c3) }"

definition cmd_peek :: "(u64 \<Rightarrow> u8) \<Rightarrow> u8 list \<Rightarrow> console \<Rightarrow> console option" where
  "cmd_peek mem args c =
     (if args = [] then Some (console_puts (ascii ''usage: peek <addr> [len]'' @ [10]) c)
      else let (addr, end1) = parse_hex args;
               end2 = dropWhile (\<lambda>ch. ch = 32) end1;
               len0 = (if end2 \<noteq> [] then fst (parse_hex end2) else 64);
               len = (if len0 = 0 \<or> 512 < len0 then 64 else len0)
           in fold (\<lambda>k co. Option.bind co (peek_row mem addr len (16 * of_nat k))) [0..<(unat len + 15) div 16] (Some c))"

section \<open>Dispatch\<close>

definition parse_and_dispatch ::
  "(console \<Rightarrow> console) \<Rightarrow> u32 \<Rightarrow> (u64 \<Rightarrow> u8) \<Rightarrow> u8 list \<Rightarrow> console \<Rightarrow> console option" where
  "parse_and_dispatch pong_start ticks mem line c =
     (if line = [] then Some c
      else let cmd = takeWhile (\<lambda>ch. ch \<noteq> 32) line;
               args = dropWhile (\<lambda>ch. ch = 32) (dropWhile (\<lambda>ch. ch \<noteq> 32) line)
           in if cmd = ascii ''help'' then Some (cmd_help c)
              else if cmd = ascii ''clear'' then Some (cmd_clear c)
              else if cmd = ascii ''echo'' then Some (cmd_echo args c)
              else if cmd = ascii ''uptime'' then cmd_uptime ticks c
              else if cmd = ascii ''pong'' then Some (pong_start c)
              else if cmd = ascii ''peek'' then cmd_peek mem args c
              else Some (console_putchar 10 (console_puts cmd (console_puts (ascii ''unknown command: '') c))))"

text \<open>The echo of \<^verbatim>\<open>readline\<close> on the console, and one turn of \<^verbatim>\<open>shell_run\<close> on the key events it reads: the input buffer
  and the console after it; None while the line is not complete.\<close>

primrec echo_console :: "echo list \<Rightarrow> console \<Rightarrow> console" where
  "echo_console [] c = c"
| "echo_console (e # es) c =
     echo_console es (case e of EchoPut ch \<Rightarrow> console_putchar ch c | EchoBackspace \<Rightarrow> console_backspace c)"

definition SHELL_BUFFER_SIZE :: nat where "SHELL_BUFFER_SIZE = 256"

definition shell_turn ::
  "(console \<Rightarrow> console) \<Rightarrow> u32 \<Rightarrow> (u64 \<Rightarrow> u8) \<Rightarrow> key_event list \<Rightarrow> u8 list \<Rightarrow> console \<Rightarrow> (u8 list \<times> console) option" where
  "shell_turn pong_start ticks mem evs input_buffer c = do {
     (n, buf, out) \<leftarrow> readline evs input_buffer (int SHELL_BUFFER_SIZE);
     c1 \<leftarrow> parse_and_dispatch pong_start ticks mem (takeWhile (\<lambda>ch. ch \<noteq> 0) buf)
            (echo_console out (console_puts (ascii ''> '') c));
     Some (buf, c1) }"

section \<open>Numbers\<close>

lemma nibble_of_upper: "k < 16 \<Longrightarrow> nibble_of (upper_digits ! k) = Some (of_nat k)"
proof -
  have "\<forall>k \<in> set [0..<16]. nibble_of (upper_digits ! k) = Some (of_nat k)" by code_simp
  then show "k < 16 \<Longrightarrow> ?thesis" by simp
qed

lemma nibble_of_lower: "k < 16 \<Longrightarrow> nibble_of (hex_digits ! k) = Some (of_nat k)"
proof -
  have "\<forall>k \<in> set [0..<16]. nibble_of (hex_digits ! k) = Some (of_nat k)" by code_simp
  then show "k < 16 \<Longrightarrow> ?thesis" by simp
qed

lemma mask4_64: "(0xF :: u64) = mask 4"
  by (simp add: mask_eq_exp_minus_1)

text \<open>Reading the digits from the top builds up the number from its high bits.\<close>

lemma parse_nibbles:
  "n \<le> 16 \<Longrightarrow> parse_digits (drop_bit (4 * n) val) (nibbles n val @ s) = parse_digits val s"
proof (induction n)
  case (Suc n)
  let ?d = "drop_bit (4 * n) val AND 0xF"
  have small: "unat ?d < 16"
    using unat_and_mask [of "drop_bit (4 * n) val" 4] by (simp add: mask4_64)
  have "ucast (of_nat (unat ?d) :: u8) = ?d"
    by (rule bit_word_eqI) (auto simp: mask4_64 bit_simps)
  moreover have "push_bit 4 (drop_bit (4 * Suc n) val) OR ?d = drop_bit (4 * n) val"
    by (rule bit_word_eqI) (auto simp: mask4_64 bit_simps)
  ultimately show ?case
    using Suc nibble_of_upper [OF small] by simp
qed simp

section \<open>The line that is run\<close>

lemma edit_line_printable:
  assumes "edit_line room line cs = Some l" and "0 \<notin> set line"
  shows "0 \<notin> set l"
  using assms
proof (induction room line cs rule: edit_line.induct)
  case (2 room line c cs)
  then show ?case by (cases "c = 0") (auto split: if_splits dest: in_set_butlastD)
qed simp

lemma takeWhile_terminated:
  assumes "take n buf = l" "n = length l" "n < length buf" "buf ! n = 0" "0 \<notin> set l"
  shows "takeWhile (\<lambda>ch. ch \<noteq> 0) buf = (l :: u8 list)"
proof -
  have "buf = l @ 0 # drop (Suc n) buf"
    using assms id_take_nth_drop [of n buf] by simp
  moreover have "takeWhile (\<lambda>ch. ch \<noteq> 0) (l @ 0 # drop (Suc n) buf) = l"
    using assms(5) by (subst takeWhile_append2) auto
  ultimately show ?thesis by metis
qed

section \<open>Memory dumps\<close>

text \<open>The console knows no field widths: the directives come out as they are.\<close>

lemma printf_widths:
  "console_printf (ascii ''%02x '') args c = Some (console_puts (ascii ''%02x '') c)"
  "console_printf (ascii ''%08x%08x  '') args c = Some (console_puts (ascii ''%08x%08x  '') c)"
  by (simp_all add: console_printf_def console_vprintf_def ascii_def)

lemma peek_byte_same: "peek_byte mem addr len i j c = peek_byte mem' addr len i j c"
  by (simp add: peek_byte_def printf_widths)

section \<open>Properties\<close>

text \<open>A number printed in hexadecimal by the exception report is read back by the shell: \<^verbatim>\<open>parse_hex\<close> returns it together
  with the text behind it.\<close>

lemma parse_hex_roundtrip:
  assumes "s = [] \<or> nibble_of (hd s) = None"
  shows "parse_hex (hex64 val @ s) = (val, s)"
proof -
  have "parse_digits val s = (val, s)" using assms by (cases s) auto
  then show ?thesis
    using parse_nibbles [of 16 val s] by (simp add: parse_hex_def hex64_def del: nibbles.simps)
qed

lemma parse_hex_roundtrip_witness: "parse_hex (hex64 0xDEADBEEF @ [32, 49]) = (0xDEADBEEF, [32, 49])"
  using parse_hex_roundtrip [of "[32, 49]" "0xDEADBEEF"] by (simp add: nibble_of_def)


definition typing :: "string \<Rightarrow> key_event list" where
  "typing s = map (\<lambda>ch. down (of_char ch)) s"


text \<open>The memory dump shows no memory.  The formatted output of the console has no field widths, so the bytes of
  two memories without printable characters are dumped alike.\<close>

lemma peek_hides_bytes:
  assumes "\<forall>a. \<not> (0x20 \<le> mem a \<and> mem a < 0x7F)" and "\<forall>a. \<not> (0x20 \<le> mem' a \<and> mem' a < 0x7F)"
  shows "cmd_peek mem args c = cmd_peek mem' args c"
proof -
  have "peek_char mem = peek_char mem'"
    using assms by (intro ext) (auto simp: peek_char_def Let_def)
  moreover have "peek_byte mem = peek_byte mem'" by (intro ext) (rule peek_byte_same)
  ultimately have "peek_row mem = peek_row mem'" by (intro ext) (simp add: peek_row_def)
  then show ?thesis by (simp add: cmd_peek_def)
qed

lemma peek_hides_bytes_witness: "cmd_peek (\<lambda>_. 0) [49] tiny_console = cmd_peek (\<lambda>_. 0xFF) [49] tiny_console"
  by (rule peek_hides_bytes) simp_all

end
