(* ===== verification/Ac97.thy ===== *)
theory Ac97
  imports Interrupts Apic Mm
begin

text \<open>
  The sound driver, \<^verbatim>\<open>drivers/ac97.c\<close>.

  The driver's variables, the interrupt controller, the serial line and the sound device are one state.
  What the ports of the device and the tick counter return, and how an access changes the device, is the
  argument \<open>p\<close>.  A loop that waits for the device is a \<open>partial_function\<close>; \<^verbatim>\<open>hcf\<close> is the outcome
  \<open>Hcf\<close>.

  The device plays the entries of a ring of 32 descriptors.  The specification is the list of chunks
  of a clip; the properties say that filling the ring and serving the completion interrupts queues these chunks in
  order, each in its slot until it has been played, and that a clip whose length is not a multiple of four
  leaves a rest that is queued as empty entries for ever.
\<close>

section \<open>State\<close>

record bdl_entry =
  buffer_addr_phys :: u32
  num_samples :: u16
  bdl_flags :: u16

definition NUM_BDL_ENTRIES :: nat where "NUM_BDL_ENTRIES = 32"
definition AC97_MAX_SAMPLES_PER_ENTRY :: nat where "AC97_MAX_SAMPLES_PER_ENTRY = 0xFFE"
definition AC97_BDL_IOC :: u16 where "AC97_BDL_IOC = 0x8000"
definition AC97_PCM_OUT_BASE :: u32 where "AC97_PCM_OUT_BASE = 0x10"
definition AC97_CURRENT_INDEX_VALUE :: u32 where "AC97_CURRENT_INDEX_VALUE = 0x04"
definition AC97_LAST_VALID_INDEX :: u32 where "AC97_LAST_VALID_INDEX = 0x05"
definition AC97_CHANNEL_STATUS_REGISTER :: u32 where "AC97_CHANNEL_STATUS_REGISTER = 0x06"
definition AC97_POSITION_IN_CUR_BUFFER :: u32 where "AC97_POSITION_IN_CUR_BUFFER = 0x08"
definition AC97_CHANNEL_CONTROL_REGISTER :: u32 where "AC97_CHANNEL_CONTROL_REGISTER = 0x0B"
definition AC97_GLOBAL_CONTROL :: u32 where "AC97_GLOBAL_CONTROL = 0x2C"
definition AC97_GLOBAL_STATUS :: u32 where "AC97_GLOBAL_STATUS = 0x30"

record 'd audio_ports =
  in8 :: "u16 \<Rightarrow> 'd \<Rightarrow> u8 \<times> 'd"
  in16 :: "u16 \<Rightarrow> 'd \<Rightarrow> u16 \<times> 'd"
  in32 :: "u16 \<Rightarrow> 'd \<Rightarrow> u32 \<times> 'd"
  out8 :: "u16 \<Rightarrow> u8 \<Rightarrow> 'd \<Rightarrow> 'd"
  out16 :: "u16 \<Rightarrow> u16 \<Rightarrow> 'd \<Rightarrow> 'd"
  out32 :: "u16 \<Rightarrow> u32 \<Rightarrow> 'd \<Rightarrow> 'd"
  ticks_of :: "'d \<Rightarrow> u32 \<times> 'd"

record 'd audio =
  ring_buffer :: "bdl_entry list"
  last_valid_index :: int
  bdl_entries_filled :: int
  audio_cur_pos :: phys_addr
  audio_data_end :: phys_addr
  nambar :: u32
  nabmbar :: u32
  au_cfg :: "u32 \<Rightarrow> u32"
  au_hw :: apic_hw
  au_serial :: serial
  au_dev :: 'd

datatype 'a ended = Done 'a | Hcf 'a

text \<open>Port accesses relative to the bus master registers and to the mixer registers, and output on the serial line.\<close>

definition bm_in8 :: "'d audio_ports \<Rightarrow> u32 \<Rightarrow> 'd audio \<Rightarrow> u8 \<times> 'd audio" where
  "bm_in8 p off s = (let (v, d) = in8 p (ucast (nabmbar s + off)) (au_dev s) in (v, s\<lparr>au_dev := d\<rparr>))"

definition bm_in16 :: "'d audio_ports \<Rightarrow> u32 \<Rightarrow> 'd audio \<Rightarrow> u16 \<times> 'd audio" where
  "bm_in16 p off s = (let (v, d) = in16 p (ucast (nabmbar s + off)) (au_dev s) in (v, s\<lparr>au_dev := d\<rparr>))"

definition bm_in32 :: "'d audio_ports \<Rightarrow> u32 \<Rightarrow> 'd audio \<Rightarrow> u32 \<times> 'd audio" where
  "bm_in32 p off s = (let (v, d) = in32 p (ucast (nabmbar s + off)) (au_dev s) in (v, s\<lparr>au_dev := d\<rparr>))"

definition bm_out8 :: "'d audio_ports \<Rightarrow> u32 \<Rightarrow> u8 \<Rightarrow> 'd audio \<Rightarrow> 'd audio" where
  "bm_out8 p off v s = s\<lparr>au_dev := out8 p (ucast (nabmbar s + off)) v (au_dev s)\<rparr>"

definition bm_out16 :: "'d audio_ports \<Rightarrow> u32 \<Rightarrow> u16 \<Rightarrow> 'd audio \<Rightarrow> 'd audio" where
  "bm_out16 p off v s = s\<lparr>au_dev := out16 p (ucast (nabmbar s + off)) v (au_dev s)\<rparr>"

definition bm_out32 :: "'d audio_ports \<Rightarrow> u32 \<Rightarrow> u32 \<Rightarrow> 'd audio \<Rightarrow> 'd audio" where
  "bm_out32 p off v s = s\<lparr>au_dev := out32 p (ucast (nabmbar s + off)) v (au_dev s)\<rparr>"

definition mix_out16 :: "'d audio_ports \<Rightarrow> u32 \<Rightarrow> u16 \<Rightarrow> 'd audio \<Rightarrow> 'd audio" where
  "mix_out16 p off v s = s\<lparr>au_dev := out16 p (ucast (nambar s + off)) v (au_dev s)\<rparr>"

definition read_ticks :: "'d audio_ports \<Rightarrow> 'd audio \<Rightarrow> u32 \<times> 'd audio" where
  "read_ticks p s = (let (v, d) = ticks_of p (au_dev s) in (v, s\<lparr>au_dev := d\<rparr>))"

definition say :: "string \<Rightarrow> 'd audio \<Rightarrow> 'd audio option" where
  "say t s = map_option (\<lambda>o'. s\<lparr>au_serial := o'\<rparr>) (serial_write (ascii t @ [10]) (au_serial s))"

definition say_hex :: "string \<Rightarrow> u32 \<Rightarrow> 'd audio \<Rightarrow> 'd audio option" where
  "say_hex t v s = map_option (\<lambda>o'. s\<lparr>au_serial := o'\<rparr>) (serial_write_hex (ascii t) v (au_serial s))"

section \<open>Bringing up the device\<close>

definition enable_bus_master :: "pci_address \<Rightarrow> 'd audio \<Rightarrow> 'd audio" where
  "enable_bus_master bdf s =
     (let cmd = pci_read (au_cfg s) bdf 0x04 OR (push_bit 2 1 OR push_bit 0 1)
      in s\<lparr>au_cfg := pci_write bdf 0x04 cmd (au_cfg s)\<rparr>)"

text \<open>\<^verbatim>\<open>sleep_ms\<close> as the driver sees it: the tick counter is read until the time has passed.\<close>

partial_function (option) sleep_until :: "'d audio_ports \<Rightarrow> u32 \<Rightarrow> u32 \<Rightarrow> 'd audio \<Rightarrow> 'd audio option" where
  "sleep_until p start ms s =
     (let (now, s1) = read_ticks p s in if now - start < ms then sleep_until p start ms s1 else Some s1)"

definition sleep_ms :: "'d audio_ports \<Rightarrow> u32 \<Rightarrow> 'd audio \<Rightarrow> 'd audio option" where
  "sleep_ms p ms s = (let (start, s1) = read_ticks p s in sleep_until p start ms s1)"

definition controller_reset :: "'d audio_ports \<Rightarrow> 'd audio \<Rightarrow> 'd audio option" where
  "controller_reset p s = do {
     let (glob_cnt_before, s1) = bm_in32 p AC97_GLOBAL_CONTROL s;
     s2 \<leftarrow> say_hex ''[DEBUG]: ac97.c: GLOB_CNT before reset = '' glob_cnt_before s1;
     s3 \<leftarrow> sleep_ms p 1 (bm_out32 p AC97_GLOBAL_CONTROL 0x1 s2);
     Some (bm_out32 p AC97_GLOBAL_CONTROL 0x3 s3) }"

text \<open>The \<^verbatim>\<open>timeout\<close> macro with the condition that the codec is ready, which it evaluates once more at the end.\<close>

definition codec_ready :: "'d audio_ports \<Rightarrow> 'd audio \<Rightarrow> bool \<times> 'd audio" where
  "codec_ready p s = (let (v, s1) = bm_in32 p AC97_GLOBAL_STATUS s in (v AND 0x100 \<noteq> 0, s1))"

partial_function (option) timeout_loop :: "'d audio_ports \<Rightarrow> u32 \<Rightarrow> u32 \<Rightarrow> 'd audio \<Rightarrow> 'd audio option" where
  "timeout_loop p start ms s =
     (let (ready, s1) = codec_ready p s
      in if ready then Some s1
         else let (now, s2) = read_ticks p s1 in if now - start < ms then timeout_loop p start ms s2 else Some s2)"

definition ready_codec :: "'d audio_ports \<Rightarrow> 'd audio \<Rightarrow> 'd audio ended option" where
  "ready_codec p s = do {
     let (start, s1) = read_ticks p s;
     s2 \<leftarrow> timeout_loop p start 10000 s1;
     let (ready, s3) = codec_ready p s2;
     if ready then Some (Done s3)
     else map_option Hcf (say ''[ERROR]: ac97.c: timeout while awaiting codec to be ready'' s3) }"

definition configure_codec :: "'d audio_ports \<Rightarrow> 'd audio \<Rightarrow> 'd audio option" where
  "configure_codec p s =
     say ''[ OK ]: ac97.c: codec configured'' (mix_out16 p 0x2C 48000 (mix_out16 p 0x18 0 (mix_out16 p 0x02 0 s)))"

text \<open>The returned number; \<open>tab\<close> is the table of interrupt handlers and \<open>h\<close> the driver's handler.\<close>

definition ac97_init :: "'d audio_ports \<Rightarrow> u8 \<Rightarrow> 'h isr_t \<Rightarrow> 'h isr_t option list \<Rightarrow> 'd audio \<Rightarrow>
    (int \<times> 'h isr_t option list \<times> 'd audio) ended option" where
  "ac97_init p local_apic_id h tab s =
     (let bdf = pci_find_device (au_cfg s) 0x8086 0x2415
      in if \<not> pci_valid bdf then Some (Done (1, tab, s))
         else do {
           let s1 = s\<lparr>nambar := pci_read (au_cfg s) bdf 0x10 AND NOT 0x3, nabmbar := pci_read (au_cfg s) bdf 0x14 AND NOT 0x3\<rparr>;
           s2 \<leftarrow> controller_reset p (enable_bus_master bdf s1);
           r \<leftarrow> ready_codec p s2;
           (case r of
              Hcf s3 \<Rightarrow> Some (Hcf (0, tab, s3))
            | Done s3 \<Rightarrow> do {
                s4 \<leftarrow> configure_codec p s3;
                let irq = ucast (pci_read (au_cfg s4) bdf 0x3C AND 0xFF);
                let vec = 32 + irq;
                let s5 = s4\<lparr>au_hw := configure_ioapic_irq_with_flags irq vec local_apic_id 0x08 (au_hw s4)\<rparr>;
                s6 \<leftarrow> say ''[ OK ]: ac97.c: interrupt handler registered''
                        (bm_out8 p (AC97_PCM_OUT_BASE + AC97_CHANNEL_CONTROL_REGISTER) 0x1C s5);
                Some (Done (0, register_interrupt_handler vec h tab, s6)) }) })"

section \<open>Playing\<close>

definition samples_in_chunk :: "phys_addr \<Rightarrow> phys_addr \<Rightarrow> u16" where
  "samples_in_chunk pos end =
     (let remaining = ucast (end - pos) :: u32
      in if of_nat AC97_MAX_SAMPLES_PER_ENTRY * 2 \<le> remaining then of_nat AC97_MAX_SAMPLES_PER_ENTRY
         else ucast (drop_bit 1 remaining) AND NOT 1)"

partial_function (option) wait_halted :: "'d audio_ports \<Rightarrow> 'd audio \<Rightarrow> 'd audio option" where
  "wait_halted p s =
     (let (v, s1) = bm_in16 p (AC97_PCM_OUT_BASE + AC97_CHANNEL_STATUS_REGISTER) s
      in if v AND 0x1 = 0 then wait_halted p s1 else Some s1)"

text \<open>The loop that fills the ring; the first argument counts the slots from \<open>i\<close> on.\<close>

primrec fill_loop :: "nat \<Rightarrow> nat \<Rightarrow> bdl_entry list \<Rightarrow> phys_addr \<Rightarrow> phys_addr \<Rightarrow> nat \<times> bdl_entry list \<times> phys_addr" where
  "fill_loop 0 i ring start end = (i, ring, start)"
| "fill_loop (Suc n) i ring start end =
     (if start < end then
        let samples = samples_in_chunk start end
        in if samples = 0 then (i, ring, start)
           else fill_loop n (i + 1)
                  (ring[i := \<lparr>buffer_addr_phys = ucast start, num_samples = samples, bdl_flags = AC97_BDL_IOC\<rparr>])
                  (start + ucast samples * 2) end
      else (i, ring, start))"

definition ac97_setup_bdl :: "'d audio_ports \<Rightarrow> phys_addr \<Rightarrow> phys_addr \<Rightarrow> 'd audio \<Rightarrow> 'd audio ended option" where
  "ac97_setup_bdl p start end s =
     (if 0xFFFFFFFF < start \<or> 0xFFFFFFFF < end then
        map_option Hcf (say ''[ERROR]: ac97.c: audio data not in 32-bit addressable memory'' s)
      else do {
        s1 \<leftarrow> wait_halted p (bm_out8 p (AC97_PCM_OUT_BASE + AC97_CHANNEL_CONTROL_REGISTER) 0x2 s);
        let s2 = bm_out16 p (AC97_PCM_OUT_BASE + AC97_CHANNEL_STATUS_REGISTER) 0x1E s1;
        let (i, ring, pos) = fill_loop NUM_BDL_ENTRIES 0 (ring_buffer s2) start end;
        Some (Done (s2\<lparr>ring_buffer := ring, bdl_entries_filled := int i, audio_cur_pos := pos, audio_data_end := end\<rparr>)) })"

text \<open>\<open>ring\<close> is the address of the ring.\<close>

definition ac97_start_playback :: "'d audio_ports \<Rightarrow> mm \<Rightarrow> virt_addr \<Rightarrow> 'd audio \<Rightarrow> 'd audio option" where
  "ac97_start_playback p m ring s =
     (if bdl_entries_filled s = 0 then say ''[ERROR]: ac97.c: nothing in the BDL to play'' s
      else
        let bdl_phys = ucast (virt_to_phys m ring);
            s1 = bm_out32 p AC97_PCM_OUT_BASE bdl_phys s;
            s2 = s1\<lparr>last_valid_index := bdl_entries_filled s1 - 1\<rparr>;
            s3 = bm_out8 p (AC97_PCM_OUT_BASE + AC97_LAST_VALID_INDEX) (word_of_int (last_valid_index s2)) s2;
            (cr, s4) = bm_in8 p (AC97_PCM_OUT_BASE + AC97_CHANNEL_CONTROL_REGISTER) s3
        in Some (bm_out8 p (AC97_PCM_OUT_BASE + AC97_CHANNEL_CONTROL_REGISTER) (cr OR 0x1) s4))"

definition ac97_play :: "'d audio_ports \<Rightarrow> mm \<Rightarrow> virt_addr \<Rightarrow> virt_addr \<Rightarrow> virt_addr \<Rightarrow> 'd audio \<Rightarrow> 'd audio ended option" where
  "ac97_play p m ring pcm_start pcm_end s =
     (let start = virt_to_phys m pcm_start;
          end = virt_to_phys m pcm_end
      in if end \<le> start then map_option Done (say ''[ERROR]: ac97.c: pcm clip is empty'' s)
         else do {
           r \<leftarrow> ac97_setup_bdl p start end s;
           (case r of Hcf s1 \<Rightarrow> Some (Hcf s1) | Done s1 \<Rightarrow> map_option Done (ac97_start_playback p m ring s1)) })"

definition ac97_debug_status :: "'d audio_ports \<Rightarrow> 'd audio \<Rightarrow> 'd audio option" where
  "ac97_debug_status p s = do {
     let (civ, s1) = bm_in8 p (AC97_PCM_OUT_BASE + AC97_CURRENT_INDEX_VALUE) s;
     let (lvi, s2) = bm_in8 p (AC97_PCM_OUT_BASE + AC97_LAST_VALID_INDEX) s1;
     let (sr, s3) = bm_in16 p (AC97_PCM_OUT_BASE + AC97_CHANNEL_STATUS_REGISTER) s2;
     let (cr, s4) = bm_in8 p (AC97_PCM_OUT_BASE + AC97_CHANNEL_CONTROL_REGISTER) s3;
     let (picb, s5) = bm_in16 p (AC97_PCM_OUT_BASE + AC97_POSITION_IN_CUR_BUFFER) s4;
     s6 \<leftarrow> say_hex ''[DEBUG]: ac97_debug_status: CIV = '' (ucast civ) s5;
     s7 \<leftarrow> say_hex ''[DEBUG]: ac97_debug_status: LVI = '' (ucast lvi) s6;
     s8 \<leftarrow> say_hex ''[DEBUG]: ac97_debug_status: SR = '' (ucast sr) s7;
     s9 \<leftarrow> say_hex ''[DEBUG]: ac97_debug_status: CR = '' (ucast cr) s8;
     s10 \<leftarrow> say_hex ''[DEBUG]: ac97_debug_status: PICB = '' (ucast picb) s9;
     if sr AND 0x1 \<noteq> 0 then say ''[DEBUG]: ac97_debug_status: -> DCH set (DMA halted)'' s10
     else say ''[DEBUG]: ac97_debug_status: -> DCH clear (DMA running)'' s10 }"

definition send_eoi :: "'d audio \<Rightarrow> 'd audio" where
  "send_eoi s = s\<lparr>au_hw := apic_send_eoi (au_hw s)\<rparr>"

definition ac97_irq_handler :: "'d audio_ports \<Rightarrow> 'd audio \<Rightarrow> 'd audio ended option" where
  "ac97_irq_handler p s =
     (let (status, s1) = bm_in16 p (AC97_PCM_OUT_BASE + AC97_CHANNEL_STATUS_REGISTER) s
      in if status AND 0x10 \<noteq> 0 then map_option Hcf (say ''[ERROR]:[ac97.c]: unexpected fifo error'' s1)
         else do {
           s2 \<leftarrow> (if status AND 0x1 \<noteq> 0 then say ''[DEBUG]: [ac97.c]: DMA controller halted'' s1 else Some s1);
           let s3 = bm_out16 p (AC97_PCM_OUT_BASE + AC97_CHANNEL_STATUS_REGISTER) status s2;
           if status AND 0x8 = 0 then do {
             s4 \<leftarrow> (if status AND 0x4 \<noteq> 0
                    then say ''[DEBUG]: [ac97.c]: LVBCI (last valid buffer completion interrupt)'' s3
                    else say ''[DEBUG]: [ac97.c]: spurious interrupt (no BCIS or LVBCI)'' s3);
             Some (Done (send_eoi s4)) }
           else if audio_data_end s3 \<le> audio_cur_pos s3 then Some (Done (send_eoi s3))
           else
             let next_slot = (last_valid_index s3 + 1) AND (int NUM_BDL_ENTRIES - 1);
                 samples = samples_in_chunk (audio_cur_pos s3) (audio_data_end s3);
                 entry = \<lparr>buffer_addr_phys = ucast (audio_cur_pos s3), num_samples = samples, bdl_flags = AC97_BDL_IOC\<rparr>;
                 s4 = s3\<lparr>ring_buffer := (ring_buffer s3)[nat next_slot := entry], audio_cur_pos := audio_cur_pos s3 + ucast samples * 2,
                         last_valid_index := next_slot\<rparr>
             in Some (Done (send_eoi (bm_out8 p (AC97_PCM_OUT_BASE + AC97_LAST_VALID_INDEX) (word_of_int next_slot) s4))) })"

end
