(* ===== verification/Ac97_Proofs.thy ===== *)
theory Ac97_Proofs
  imports Ac97
begin

text \<open>
  Properties of the sound driver: the chunks of a clip as its specification, the filling of the ring and the
  completion interrupts as steps that queue the next chunk.
\<close>

section \<open>The chunks of a clip\<close>

text \<open>How many samples go into one entry when \<open>r\<close> bytes are left, and the entries for \<open>r\<close> bytes from \<open>a\<close> on.\<close>

definition chunk_samples :: "nat \<Rightarrow> nat" where
  "chunk_samples r = (if 0x1FFC \<le> r then 0xFFE else 2 * (r div 4))"

lemma chunk_samples_le: "2 * chunk_samples r \<le> r"
  by (auto simp: chunk_samples_def)

lemma chunk_samples_0: "chunk_samples r = 0 \<longleftrightarrow> r < 4"
  by (auto simp: chunk_samples_def)

function chunks :: "nat \<Rightarrow> nat \<Rightarrow> (nat \<times> nat) list" where
  "chunks a r = (if r < 4 then [] else (a, chunk_samples r) # chunks (a + 2 * chunk_samples r) (r - 2 * chunk_samples r))"
  by pat_completeness auto
termination
  by (relation "measure snd") (auto simp: chunk_samples_0 [unfolded neq0_conv [symmetric]] gr0_conv_Suc chunk_samples_def)

declare chunks.simps [simp del]

lemma chunks_short: "r < 4 \<Longrightarrow> chunks a r = []"
  by (subst chunks.simps) simp

lemma chunks_long:
  "4 \<le> r \<Longrightarrow> chunks a r = (a, chunk_samples r) # chunks (a + 2 * chunk_samples r) (r - 2 * chunk_samples r)"
  by (subst chunks.simps) simp

definition bytes :: "(nat \<times> nat) list \<Rightarrow> nat" where
  "bytes cs = sum_list (map (\<lambda>(a, n). 2 * n) cs)"

lemma bytes_simps [simp]: "bytes [] = 0" "bytes ((a, n) # cs) = 2 * n + bytes cs" "bytes (cs @ ds) = bytes cs + bytes ds"
  by (simp_all add: bytes_def)

text \<open>Together the chunks are the clip up to a rest of less than four bytes.\<close>

lemma chunks_cover:
  "concat (map (\<lambda>(x, n). [x..<x + 2 * n]) (chunks a r)) = [a..<a + (r - r mod 4)] \<and> bytes (chunks a r) = r - r mod 4"
proof (induction a r rule: chunks.induct)
  case (1 a r)
  show ?case
  proof (cases "r < 4")
    case False
    let ?n = "2 * chunk_samples r"
    obtain k where k: "?n = 4 * k" by (cases "0x1FFC \<le> r") (auto simp: chunk_samples_def)
    have n: "?n \<le> r" by (rule chunk_samples_le)
    have "r mod 4 = (4 * k + (r - 4 * k)) mod 4" using n k by simp
    then have m: "(r - ?n) mod 4 = r mod 4" unfolding k by (simp only: mod_mult_self4)
    have "k \<le> r div 4" using n k by linarith
    then have "?n \<le> r - r mod 4" unfolding k by (simp add: minus_mod_eq_mult_div)
    then have "[a..<a + (r - r mod 4)] = [a..<a + ?n] @ [a + ?n..<a + ?n + (r - ?n - r mod 4)]"
      using upt_add_eq_append [of a "a + ?n" "r - ?n - r mod 4"] by (simp add: add.assoc)
    with n 1 [OF False] m False show ?thesis
      by (subst (1 2) chunks.simps) (simp add: mult.commute)
  qed (simp add: chunks.simps)
qed

lemma chunks_drop:
  "m \<le> length (chunks a r) \<Longrightarrow>
     drop m (chunks a r) = chunks (a + bytes (take m (chunks a r))) (r - bytes (take m (chunks a r)))"
proof (induction m arbitrary: a r)
  case (Suc m)
  then have "4 \<le> r" using chunks_short [of r a] by (cases "r < 4") auto
  then have c: "chunks a r = (a, chunk_samples r) # chunks (a + 2 * chunk_samples r) (r - 2 * chunk_samples r)"
    by (rule chunks_long)
  with Suc.prems have "m \<le> length (chunks (a + 2 * chunk_samples r) (r - 2 * chunk_samples r))" by simp
  from Suc.IH [OF this] show ?case unfolding c by (simp add: add.assoc)
qed simp

lemma chunks_next:
  assumes "m \<le> length (chunks a r)"
  shows "m < length (chunks a r) \<longleftrightarrow> 4 \<le> r - bytes (take m (chunks a r))"
    and "m < length (chunks a r) \<Longrightarrow>
      chunks a r ! m = (a + bytes (take m (chunks a r)), chunk_samples (r - bytes (take m (chunks a r))))"
proof -
  let ?b = "bytes (take m (chunks a r))"
  have d: "drop m (chunks a r) = chunks (a + ?b) (r - ?b)" by (rule chunks_drop [OF assms])
  have "m < length (chunks a r) \<longleftrightarrow> drop m (chunks a r) \<noteq> []" using assms by auto
  also have "\<dots> \<longleftrightarrow> 4 \<le> r - ?b" unfolding d using chunks_short [of "r - ?b" "a + ?b"] chunks_long [of "r - ?b" "a + ?b"] by (cases "4 \<le> r - ?b") auto
  finally show *: "m < length (chunks a r) \<longleftrightarrow> 4 \<le> r - ?b" .
  assume "m < length (chunks a r)"
  then have "drop m (chunks a r) = chunks a r ! m # drop (Suc m) (chunks a r)" "4 \<le> r - ?b"
    using * by (simp_all add: Cons_nth_drop_Suc)
  moreover from this have "chunks (a + ?b) (r - ?b) = (a + ?b, chunk_samples (r - ?b)) #
    chunks (a + ?b + 2 * chunk_samples (r - ?b)) (r - ?b - 2 * chunk_samples (r - ?b))"
    by (intro chunks_long) simp
  ultimately show "chunks a r ! m = (a + ?b, chunk_samples (r - ?b))" using d by simp
qed

lemma bytes_take_Suc:
  assumes "m < length (chunks a r)"
  shows "bytes (take (Suc m) (chunks a r)) = bytes (take m (chunks a r)) + 2 * chunk_samples (r - bytes (take m (chunks a r)))"
  using chunks_next(2) [of m a r] assms by (simp add: take_Suc_conv_app_nth)

lemma bytes_take_le: "bytes (take m (chunks a r)) \<le> r"
proof -
  have "bytes (take m (chunks a r)) + bytes (drop m (chunks a r)) = bytes (chunks a r)"
    using bytes_simps(3) [of "take m (chunks a r)" "drop m (chunks a r)"] by simp
  then show ?thesis using chunks_cover [of a r] by simp
qed

lemma chunks_size: "(x, n) \<in> set (chunks a r) \<Longrightarrow> even n \<and> 0 < n \<and> n \<le> 0xFFE"
proof (induction a r rule: chunks.induct)
  case (1 a r)
  show ?case
  proof (cases "r < 4")
    case False
    then have "(x, n) = (a, chunk_samples r) \<or> (x, n) \<in> set (chunks (a + 2 * chunk_samples r) (r - 2 * chunk_samples r))"
      using 1(2) chunks_long [of r a] by simp
    moreover have "even (chunk_samples r) \<and> 0 < chunk_samples r \<and> chunk_samples r \<le> 0xFFE"
      using False by (auto simp: chunk_samples_def)
    ultimately show ?thesis using 1(1) [OF False] by auto
  qed (use 1(2) chunks_short in simp)
qed

section \<open>Filling the ring\<close>

lemma samples_in_chunk_nat:
  assumes "pos \<le> end" and "unat end < 2 ^ 32"
  shows "unat (samples_in_chunk pos end) = chunk_samples (unat end - unat pos)"
proof -
  let ?r = "unat end - unat pos"
  define rem where "rem = (ucast (end - pos) :: u32)"
  have rem: "unat rem = ?r"
    using assms by (simp add: rem_def unsigned_ucast_eq take_bit_nat_eq_self unat_sub)
  show ?thesis
  proof (cases "0x1FFC \<le> ?r")
    case True
    then have "of_nat AC97_MAX_SAMPLES_PER_ENTRY * 2 \<le> rem"
      by (simp add: word_le_nat_alt rem AC97_MAX_SAMPLES_PER_ENTRY_def)
    then show ?thesis
      using True by (simp add: samples_in_chunk_def rem_def [symmetric] chunk_samples_def) (simp add: AC97_MAX_SAMPLES_PER_ENTRY_def)
  next
    case False
    define h where "h = (ucast (drop_bit 1 rem) :: u16)"
    have "unat h = ?r div 2"
      using False by (simp add: h_def unsigned_ucast_eq take_bit_nat_eq_self unat_drop_bit rem)
    moreover have "h AND NOT 1 = h AND NOT (mask 1)" by simp
    ultimately have "unat (h AND NOT 1) = ?r div 2 - ?r div 2 mod 2" by (simp only: unat_and_not_mask power_one_right)
    moreover have "?r div 2 - ?r div 2 mod 2 = 2 * (?r div 4)"
      by (simp add: minus_mod_eq_mult_div div_mult2_eq [symmetric])
    moreover have "\<not> of_nat AC97_MAX_SAMPLES_PER_ENTRY * 2 \<le> rem"
      using False by (simp add: word_le_nat_alt rem AC97_MAX_SAMPLES_PER_ENTRY_def)
    ultimately show ?thesis
      using False by (simp add: samples_in_chunk_def rem_def [symmetric] chunk_samples_def h_def)
  qed
qed

definition entry_of :: "nat \<times> nat \<Rightarrow> bdl_entry" where
  "entry_of c = \<lparr>buffer_addr_phys = of_nat (fst c), num_samples = of_nat (snd c), bdl_flags = AC97_BDL_IOC\<rparr>"

text \<open>What the driver stores for the position \<open>pos\<close> is the entry of the next chunk, and the position moves behind it.\<close>

lemma next_entry:
  assumes "pos \<le> end" and "unat end < 2 ^ 32"
  shows "\<lparr>buffer_addr_phys = ucast pos, num_samples = samples_in_chunk pos end, bdl_flags = AC97_BDL_IOC\<rparr> =
      entry_of (unat pos, chunk_samples (unat end - unat pos))"
    and "unat (pos + ucast (samples_in_chunk pos end) * 2) = unat pos + 2 * chunk_samples (unat end - unat pos)"
proof -
  let ?n = "chunk_samples (unat end - unat pos)"
  have n: "unat (samples_in_chunk pos end) = ?n" by (rule samples_in_chunk_nat [OF assms])
  have "samples_in_chunk pos end = of_nat ?n" unfolding n [symmetric] by simp
  moreover have "(ucast pos :: u32) = of_nat (unat pos)" by simp
  ultimately show "\<lparr>buffer_addr_phys = ucast pos, num_samples = samples_in_chunk pos end, bdl_flags = AC97_BDL_IOC\<rparr> =
      entry_of (unat pos, ?n)" by (simp add: entry_of_def)
  have "ucast (samples_in_chunk pos end) * 2 = (of_nat (2 * ?n) :: u64)"
    unfolding of_nat_mult n [symmetric] by (simp add: mult.commute)
  moreover have "2 * ?n \<le> unat end - unat pos" by (rule chunk_samples_le)
  moreover have "unat pos \<le> unat end" using assms(1) by (simp add: word_le_nat_alt)
  ultimately show "unat (pos + ucast (samples_in_chunk pos end) * 2) = unat pos + 2 * ?n"
    using assms(2) by (simp add: unat_word_ariths unat_of_nat_mod del: of_nat_mult)
qed

lemma fill_loop_chunks:
  assumes "start \<le> end" and "unat end < 2 ^ 32" and "i + n \<le> length ring"
  shows "\<exists>ring' pos. fill_loop n i ring start end = (i + min n (length (chunks (unat start) (unat end - unat start))), ring', pos) \<and>
    length ring' = length ring \<and> pos \<le> end \<and> (\<forall>j < i. ring' ! j = ring ! j) \<and>
    unat pos = unat start + bytes (take n (chunks (unat start) (unat end - unat start))) \<and>
    (\<forall>j < min n (length (chunks (unat start) (unat end - unat start))).
       ring' ! (i + j) = entry_of (chunks (unat start) (unat end - unat start) ! j))"
  using assms
proof (induction n arbitrary: i ring start)
  case (Suc n)
  let ?r = "unat end - unat start"
  have le: "unat start \<le> unat end" using Suc.prems(1) by (simp add: word_le_nat_alt)
  note n = samples_in_chunk_nat [OF Suc.prems(1,2)]
  show ?case
  proof (cases "4 \<le> ?r")
    case False
    then have "samples_in_chunk start end = 0" using n chunk_samples_0 [of ?r] by (simp add: unsigned_eq_0_iff)
    then show ?thesis using False Suc.prems by (simp add: chunks_short)
  next
    case True
    let ?s = "samples_in_chunk start end"
    let ?start = "start + ucast ?s * 2" and ?ring = "ring[i := entry_of (unat start, chunk_samples ?r)]"
    have s: "?s \<noteq> 0" "start < end"
      using n True chunk_samples_0 [of ?r] by (auto simp: word_less_nat_alt)
    have st: "unat ?start = unat start + 2 * chunk_samples ?r" by (rule next_entry(2) [OF Suc.prems(1,2)])
    then have r: "unat end - unat ?start = ?r - 2 * chunk_samples ?r" by simp
    have c: "chunks (unat start) ?r = (unat start, chunk_samples ?r) # chunks (unat ?start) (unat end - unat ?start)"
      using chunks_long [OF True, of "unat start"] st by simp
    have le': "?start \<le> end" using chunk_samples_le [of ?r] le st by (simp add: word_le_nat_alt)
    have step: "fill_loop (Suc n) i ring start end = fill_loop n (Suc i) ?ring ?start end"
      using s next_entry(1) [OF Suc.prems(1,2)] by (simp add: Let_def)
    have "Suc i + n \<le> length ?ring" using Suc.prems(3) by simp
    from Suc.IH [OF le' Suc.prems(2) this] obtain ring' pos where f:
      "fill_loop n (Suc i) ?ring ?start end = (Suc i + min n (length (chunks (unat ?start) (unat end - unat ?start))), ring', pos)"
      "length ring' = length ring" "pos \<le> end" "\<forall>j < Suc i. ring' ! j = ?ring ! j"
      "unat pos = unat ?start + bytes (take n (chunks (unat ?start) (unat end - unat ?start)))"
      "\<forall>j < min n (length (chunks (unat ?start) (unat end - unat ?start))).
         ring' ! (Suc i + j) = entry_of (chunks (unat ?start) (unat end - unat ?start) ! j)"
      by auto
    have "ring' ! (i + j) = entry_of (chunks (unat start) ?r ! j)" if "j < min (Suc n) (length (chunks (unat start) ?r))" for j
      using f(4,6) that Suc.prems(3) unfolding c by (cases j) auto
    moreover have "\<forall>j < i. ring' ! j = ring ! j" using f(4) by simp
    moreover have "unat pos = unat start + bytes (take (Suc n) (chunks (unat start) ?r))" using f(5) st by (simp add: c)
    moreover have "Suc i + min n (length (chunks (unat ?start) (unat end - unat ?start))) = i + min (Suc n) (length (chunks (unat start) ?r))"
      by (simp add: c)
    ultimately show ?thesis using step f(1-3) by metis
  qed
qed simp

section \<open>Waiting for the device\<close>

text \<open>A device that, polled long enough, reports that it has halted.\<close>

definition halts :: "'d audio_ports \<Rightarrow> u16 \<Rightarrow> bool" where
  "halts p port \<longleftrightarrow> (\<forall>d. \<exists>n. fst (in16 p port (((\<lambda>d. snd (in16 p port d)) ^^ n) d)) AND 0x1 \<noteq> 0)"

abbreviation status_port :: "'d audio \<Rightarrow> u16" where
  "status_port s \<equiv> ucast (nabmbar s + (AC97_PCM_OUT_BASE + AC97_CHANNEL_STATUS_REGISTER))"

lemma wait_halted_polls:
  "fst (in16 p (status_port s) (((\<lambda>d. snd (in16 p (status_port s) d)) ^^ n) (au_dev s))) AND 0x1 \<noteq> 0 \<Longrightarrow>
     \<exists>d. wait_halted p s = Some (s\<lparr>au_dev := d\<rparr>)"
proof (induction n arbitrary: s)
  case 0
  then show ?case by (subst wait_halted.simps) (auto simp: bm_in16_def case_prod_beta)
next
  case (Suc n)
  let ?s = "s\<lparr>au_dev := snd (in16 p (status_port s) (au_dev s))\<rparr>"
  have "\<exists>d. wait_halted p ?s = Some (?s\<lparr>au_dev := d\<rparr>)"
    using Suc.prems by (intro Suc.IH) (simp add: funpow_Suc_right del: funpow.simps)
  then obtain d where "wait_halted p ?s = Some (s\<lparr>au_dev := d\<rparr>)" by auto
  then show ?case by (subst wait_halted.simps) (auto simp: bm_in16_def case_prod_beta)
qed

lemma wait_halted_ends: "halts p (status_port s) \<Longrightarrow> \<exists>d. wait_halted p s = Some (s\<lparr>au_dev := d\<rparr>)"
  unfolding halts_def using wait_halted_polls by blast

lemma say_ends:
  assumes "transmits (au_serial s)"
  shows "\<exists>o'. say t s = Some (s\<lparr>au_serial := o'\<rparr>) \<and> transmits o'"
proof -
  let ?o = "\<lambda>q. au_serial s\<lparr>ser_writes := ser_writes (au_serial s) @ map (\<lambda>b. (COM1_PORT, b)) (ascii t @ [10]), status_reads := q\<rparr>"
  obtain q where "serial_write (ascii t @ [10]) (au_serial s) = Some (?o q)"
    using serial_write_writes [OF assms] by blast
  then show ?thesis using assms by (intro exI [of _ "?o q"]) (simp add: say_def transmits_def)
qed

section \<open>Completion interrupts\<close>

text \<open>\<open>m\<close> chunks of a clip of \<open>r\<close> bytes at \<open>a\<close> have been queued, the last 32 of them are in their slots.\<close>

definition streaming :: "nat \<Rightarrow> nat \<Rightarrow> nat \<Rightarrow> 'd audio \<Rightarrow> bool" where
  "streaming a r m s \<longleftrightarrow> 0 < m \<and> m \<le> length (chunks a r) \<and> length (ring_buffer s) = 32 \<and>
     unat (audio_data_end s) = a + r \<and> unat (audio_cur_pos s) = a + bytes (take m (chunks a r)) \<and>
     last_valid_index s = int ((m - 1) mod 32) \<and>
     (\<forall>j < m. m \<le> j + 32 \<longrightarrow> ring_buffer s ! (j mod 32) = entry_of (chunks a r ! j))"

lemma next_slot: "0 < m \<Longrightarrow> (int ((m - 1) mod 32) + 1) AND (int NUM_BDL_ENTRIES - 1) = int (m mod 32)"
proof -
  assume "0 < m"
  have "(int ((m - 1) mod 32) + 1) AND (int NUM_BDL_ENTRIES - 1) = (int ((m - 1) mod 32) + 1) AND mask 5"
    by (simp add: NUM_BDL_ENTRIES_def mask_eq_exp_minus_1)
  also have "\<dots> = int (((m - 1) mod 32 + 1) mod 32)"
    by (simp add: take_bit_eq_mask [symmetric] take_bit_eq_mod zmod_int add.commute)
  also have "((m - 1) mod 32 + 1) mod 32 = m mod 32" using \<open>0 < m\<close> by (simp add: mod_add_left_eq mod_Suc_eq)
  finally show ?thesis .
qed

text \<open>The status register shows a completed buffer and no error.\<close>

definition completes :: "'d audio_ports \<Rightarrow> u16 \<Rightarrow> bool" where
  "completes p port \<longleftrightarrow> (\<forall>d. fst (in16 p port d) AND 0x8 \<noteq> 0 \<and> fst (in16 p port d) AND 0x10 = 0)"

text \<open>What such an interrupt does.\<close>

lemma irq_queues:
  assumes "completes p (status_port s)" and "transmits (au_serial s)"
  shows "\<exists>d o'. transmits o' \<and>
    ac97_irq_handler p s = Some (Done (send_eoi (
      if audio_data_end s \<le> audio_cur_pos s then s\<lparr>au_serial := o', au_dev := d\<rparr>
      else let next_slot = (last_valid_index s + 1) AND (int NUM_BDL_ENTRIES - 1);
               samples = samples_in_chunk (audio_cur_pos s) (audio_data_end s)
           in s\<lparr>au_serial := o', ring_buffer := (ring_buffer s)[nat next_slot :=
               \<lparr>buffer_addr_phys = ucast (audio_cur_pos s), num_samples = samples, bdl_flags = AC97_BDL_IOC\<rparr>],
             audio_cur_pos := audio_cur_pos s + ucast samples * 2, last_valid_index := next_slot, au_dev := d\<rparr>)))"
proof -
  obtain v d where v: "in16 p (status_port s) (au_dev s) = (v, d)" by fastforce
  have b: "v AND 0x8 \<noteq> 0" "v AND 0x10 = 0" using assms(1) v unfolding completes_def by (metis fst_conv)+
  have "\<exists>o'. transmits o' \<and>
    (if v AND 0x1 \<noteq> 0 then say ''[DEBUG]: [ac97.c]: DMA controller halted'' (s\<lparr>au_dev := d\<rparr>) else Some (s\<lparr>au_dev := d\<rparr>)) =
      Some (s\<lparr>au_dev := d, au_serial := o'\<rparr>)"
    using say_ends [of "s\<lparr>au_dev := d\<rparr>"] assms(2) by (cases "v AND 0x1 = 0") (auto intro: exI [of _ "au_serial s"])
  then obtain o' where "transmits o'" and o':
    "(if v AND 0x1 \<noteq> 0 then say ''[DEBUG]: [ac97.c]: DMA controller halted'' (s\<lparr>au_dev := d\<rparr>) else Some (s\<lparr>au_dev := d\<rparr>)) =
      Some (s\<lparr>au_dev := d, au_serial := o'\<rparr>)"
    by blast
  let ?d = "out16 p (status_port s) v d"
  let ?e = "if audio_data_end s \<le> audio_cur_pos s then ?d
    else out8 p (ucast (nabmbar s + (AC97_PCM_OUT_BASE + AC97_LAST_VALID_INDEX)))
      (word_of_int ((last_valid_index s + 1) AND (int NUM_BDL_ENTRIES - 1))) ?d"
  show ?thesis
    using b \<open>transmits o'\<close>
    by (intro exI [of _ ?e] exI [of _ o'])
      (simp add: ac97_irq_handler_def bm_in16_def v o' bm_out16_def bm_out8_def Let_def)
qed

lemma irq_streams:
  assumes "streaming a r m s" and "a + r < 2 ^ 32" and "r mod 4 = 0" and "completes p (status_port s)" and "transmits (au_serial s)"
  shows "\<exists>s'. ac97_irq_handler p s = Some (Done s') \<and> streaming a r (min (Suc m) (length (chunks a r))) s' \<and>
    nabmbar s' = nabmbar s \<and> transmits (au_serial s')"
proof -
  let ?cs = "chunks a r" and ?pos = "audio_cur_pos s" and ?stop = "audio_data_end s"
  have st: "0 < m" "m \<le> length ?cs" "length (ring_buffer s) = 32" "unat ?stop = a + r" "unat ?pos = a + bytes (take m ?cs)"
    "last_valid_index s = int ((m - 1) mod 32)" "\<And>j. j < m \<Longrightarrow> m \<le> j + 32 \<Longrightarrow> ring_buffer s ! (j mod 32) = entry_of (?cs ! j)"
    using assms(1) by (auto simp: streaming_def)
  obtain d o' where irq: "transmits o'" "ac97_irq_handler p s = Some (Done (send_eoi (
      if ?stop \<le> ?pos then s\<lparr>au_serial := o', au_dev := d\<rparr>
      else let next_slot = (last_valid_index s + 1) AND (int NUM_BDL_ENTRIES - 1);
               samples = samples_in_chunk ?pos ?stop
           in s\<lparr>au_serial := o', ring_buffer := (ring_buffer s)[nat next_slot :=
               \<lparr>buffer_addr_phys = ucast ?pos, num_samples = samples, bdl_flags = AC97_BDL_IOC\<rparr>],
             audio_cur_pos := ?pos + ucast samples * 2, last_valid_index := next_slot, au_dev := d\<rparr>)))"
    using irq_queues [OF assms(4,5)] by blast
  show ?thesis
  proof (cases "m < length ?cs")
    case False
    then have m: "m = length ?cs" using st(2) by simp
    then have "?stop \<le> ?pos" using st(4,5) chunks_cover [of a r] assms(3) by (simp add: word_le_nat_alt)
    then show ?thesis
      unfolding irq(2) using assms(1) irq(1) m by (simp add: streaming_def send_eoi_def)
  next
    case True
    let ?b = "bytes (take m ?cs)"
    have b: "4 \<le> r - ?b" "?cs ! m = (a + ?b, chunk_samples (r - ?b))"
      using chunks_next [OF st(2)] True by simp_all
    have le: "?pos \<le> ?stop" "\<not> ?stop \<le> ?pos" using b(1) st(4,5) by (simp_all add: word_le_nat_alt)
    have small: "unat ?stop < 2 ^ 32" using st(4) assms(2) by simp
    have rest: "unat ?stop - unat ?pos = r - ?b" using st(4,5) by simp
    have slot: "(last_valid_index s + 1) AND (int NUM_BDL_ENTRIES - 1) = int (m mod 32)"
      unfolding st(6) by (rule next_slot [OF st(1)])
    let ?s = "s\<lparr>au_serial := o', ring_buffer := (ring_buffer s)[m mod 32 := entry_of (?cs ! m)],
      audio_cur_pos := ?pos + ucast (samples_in_chunk ?pos ?stop) * 2, last_valid_index := int (m mod 32), au_dev := d\<rparr>"
    have "ac97_irq_handler p s = Some (Done (send_eoi ?s))"
      unfolding irq(2) slot Let_def next_entry(1) [OF le(1) small] using le(2) b(2) st(5) rest by simp
    moreover have "ring_buffer ?s ! (j mod 32) = entry_of (?cs ! j)" if "j < Suc m" "Suc m \<le> j + 32" for j
    proof (cases "j = m")
      case False
      then have "0 < m - j" "m - j < 32" using that by auto
      then have "\<not> 32 dvd m - j" by (rule nat_dvd_not_less)
      then have "j mod 32 \<noteq> m mod 32" using mod_eq_dvd_iff_nat [of j m 32] that(1) by auto
      then show ?thesis using st(7) [of j] False that by simp
    qed (simp add: st(3))
    moreover have "unat (audio_cur_pos ?s) = a + bytes (take (Suc m) ?cs)"
      using next_entry(2) [OF le(1) small] bytes_take_Suc [OF True] st(5) rest by simp
    ultimately show ?thesis
      using True st irq(1) by (auto simp: streaming_def send_eoi_def)
  qed
qed

text \<open>\<open>k\<close> interrupts in a row.\<close>

primrec irqs :: "'d audio_ports \<Rightarrow> nat \<Rightarrow> 'd audio \<Rightarrow> 'd audio ended option" where
  "irqs p 0 s = Some (Done s)"
| "irqs p (Suc k) s =
     Option.bind (ac97_irq_handler p s) (\<lambda>r. case r of Hcf s1 \<Rightarrow> Some (Hcf s1) | Done s1 \<Rightarrow> irqs p k s1)"

lemma irqs_stream:
  assumes "a + r < 2 ^ 32" and "r mod 4 = 0"
  shows "streaming a r m s \<Longrightarrow> completes p (status_port s) \<Longrightarrow> transmits (au_serial s) \<Longrightarrow>
    \<exists>s'. irqs p k s = Some (Done s') \<and> streaming a r (min (m + k) (length (chunks a r))) s'"
proof (induction k arbitrary: m s)
  case 0
  then have "m \<le> length (chunks a r)" by (simp add: streaming_def)
  with 0 show ?case by (simp add: min_absorb1)
next
  case (Suc k)
  obtain s1 where s1: "ac97_irq_handler p s = Some (Done s1)" "streaming a r (min (Suc m) (length (chunks a r))) s1"
    "nabmbar s1 = nabmbar s" "transmits (au_serial s1)"
    using irq_streams [OF Suc.prems(1) assms Suc.prems(2,3)] by blast
  have "completes p (status_port s1)" using Suc.prems(2) s1(3) by simp
  from Suc.IH [OF s1(2) this s1(4)] obtain s' where
    "irqs p k s1 = Some (Done s')" "streaming a r (min (min (Suc m) (length (chunks a r)) + k) (length (chunks a r))) s'"
    by blast
  moreover have "min (min (Suc m) (length (chunks a r)) + k) (length (chunks a r)) = min (m + Suc k) (length (chunks a r))"
    by (simp add: min_def)
  ultimately show ?case using s1(1) by auto
qed

text \<open>Starting a clip.\<close>

lemma play_streams:
  assumes "start = virt_to_phys m pcm_start" and "end = virt_to_phys m pcm_end" and "unat start + 4 \<le> unat end" and "unat end < 2 ^ 32"
    and "length (ring_buffer s) = 32" and "halts p (status_port s)"
  shows "\<exists>s'. ac97_play p m ring pcm_start pcm_end s = Some (Done s') \<and> nabmbar s' = nabmbar s \<and> au_serial s' = au_serial s \<and>
    streaming (unat start) (unat end - unat start) (min 32 (length (chunks (unat start) (unat end - unat start)))) s'"
proof -
  let ?r = "unat end - unat start" and ?cs = "chunks (unat start) (unat end - unat start)"
  define s0 where "s0 = bm_out8 p (AC97_PCM_OUT_BASE + AC97_CHANNEL_CONTROL_REGISTER) 0x2 s"
  have "halts p (status_port s0)" using assms(6) by (simp add: s0_def bm_out8_def)
  then obtain d where d: "wait_halted p s0 = Some (s0\<lparr>au_dev := d\<rparr>)" using wait_halted_ends by blast
  have small: "\<not> 0xFFFFFFFF < start" "\<not> 0xFFFFFFFF < end" "start \<le> end" "\<not> end \<le> start"
    using assms(3,4) by (simp_all add: word_less_nat_alt word_le_nat_alt)
  obtain rg pos where f: "fill_loop 32 0 (ring_buffer s) start end = (min 32 (length ?cs), rg, pos)" "length rg = 32"
    "unat pos = unat start + bytes (take 32 ?cs)" "\<forall>j < min 32 (length ?cs). rg ! j = entry_of (?cs ! j)"
    using fill_loop_chunks [OF small(3) assms(4), of 0 32 "ring_buffer s"] assms(5) by auto
  define n where "n = min 32 (length ?cs)"
  have "?cs \<noteq> []" using chunks_long [of ?r "unat start"] assms(3) by auto
  then have n: "0 < n" "n \<le> 32" "n \<le> length ?cs" by (simp_all add: n_def)
  have "take 32 ?cs = take n ?cs" by (simp add: n_def min_def)
  moreover have "(n - 1) mod 32 = n - 1" using n by simp
  moreover have "unat end = unat start + ?r" using assms(3) by simp
  ultimately show ?thesis
    using d small f n
    by (auto simp: ac97_play_def assms(1,2) [symmetric] ac97_setup_bdl_def s0_def [symmetric] NUM_BDL_ENTRIES_def
        ac97_start_playback_def Let_def case_prod_beta streaming_def n_def [symmetric])
       (auto simp: s0_def bm_out8_def bm_out16_def bm_out32_def bm_in8_def case_prod_beta)
qed

section \<open>Properties\<close>

text \<open>A device that is always ready, for the example below.\<close>

definition demo_ports :: "unit audio_ports" where
  "demo_ports = \<lparr>in8 = (\<lambda>_ d. (0, d)), in16 = (\<lambda>_ d. (9, d)), in32 = (\<lambda>_ d. (0, d)), out8 = (\<lambda>_ _ d. d), out16 = (\<lambda>_ _ d. d),
     out32 = (\<lambda>_ _ d. d), ticks_of = (\<lambda>d. (0, d))\<rparr>"

definition demo_mm :: mm where
  "demo_mm = \<lparr>placement_address = 0, hhdm_offset = 0, kernel_phys_base = 0, kernel_virt_base = 0, pmem = (\<lambda>_. 0), reg_cr3 = 0, reg_cr4 = 0, tlb = {}\<rparr>"

definition demo_audio :: "unit audio" where
  "demo_audio = \<lparr>ring_buffer = replicate 32 \<lparr>buffer_addr_phys = 0, num_samples = 0, bdl_flags = 0\<rparr>, last_valid_index = 0, bdl_entries_filled = 0,
     audio_cur_pos = 0, audio_data_end = 0, nambar = 0, nabmbar = 0, au_cfg = (\<lambda>_. 0),
     au_hw = \<lparr>lapic_virt_base = 0, lapic_reg = (\<lambda>_. 0), ioregsel = 0, ioapic_reg = (\<lambda>_. 0), msr_low = (\<lambda>_. 0), msr_high = (\<lambda>_. 0), port_writes = []\<rparr>,
     au_serial = ready_port, au_dev = ()\<rparr>"



text \<open>The end of a clip whose length is not a multiple of four: a rest of less than four bytes is never reached by the position, so every
  completion queues one more entry without samples, and the last valid index runs round the ring.\<close>

lemma rest_queued_empty:
  assumes "audio_cur_pos s < audio_data_end s" and "unat (audio_data_end s) < 2 ^ 32"
    and "unat (audio_data_end s) - unat (audio_cur_pos s) < 4" and "completes p (status_port s)" and "transmits (au_serial s)"
    and "last_valid_index s = int (l mod 32)"
  shows "\<exists>s'. ac97_irq_handler p s = Some (Done s') \<and> audio_cur_pos s' = audio_cur_pos s \<and> audio_data_end s' = audio_data_end s \<and>
    last_valid_index s' = int (Suc l mod 32) \<and> completes p (status_port s') \<and> transmits (au_serial s') \<and>
    (Suc l mod 32 < length (ring_buffer s) \<longrightarrow> num_samples (ring_buffer s' ! (Suc l mod 32)) = 0)"
proof -
  let ?pos = "audio_cur_pos s" and ?stop = "audio_data_end s"
  have "unat (samples_in_chunk ?pos ?stop) = 0"
    using samples_in_chunk_nat [OF less_imp_le [OF assms(1)] assms(2)] assms(3) by (simp add: chunk_samples_0)
  then have none: "samples_in_chunk ?pos ?stop = 0" by (simp add: unsigned_eq_0_iff)
  have slot: "(last_valid_index s + 1) AND (int NUM_BDL_ENTRIES - 1) = int (Suc l mod 32)"
    using next_slot [of "Suc l"] assms(6) by simp
  obtain d o' where "transmits o'" "ac97_irq_handler p s = Some (Done (send_eoi
      (s\<lparr>au_serial := o', ring_buffer := (ring_buffer s)[Suc l mod 32 := \<lparr>buffer_addr_phys = ucast ?pos, num_samples = 0, bdl_flags = AC97_BDL_IOC\<rparr>],
        audio_cur_pos := ?pos, last_valid_index := int (Suc l mod 32), au_dev := d\<rparr>)))"
    using irq_queues [OF assms(4,5)] assms(1) by (auto simp: slot none not_le [symmetric] Let_def)
  then show ?thesis using assms(4) by (simp add: send_eoi_def)
qed

end
