(* ===== verification/Libc.thy ===== *)
theory Libc
  imports Cstring
begin

text \<open>
  The rest of the kernel's C library: \<^verbatim>\<open>printf\<close> (\<^verbatim>\<open>libc/stdio/printf.c\<close>) and the random number generator
  (\<^verbatim>\<open>libc/rand.c\<close>).

  \<^verbatim>\<open>printf\<close> works on the characters of its format up to the terminator; its output is the list of bytes it
  hands to \<^verbatim>\<open>putchar\<close>, which never fails.  A conversion without an argument, or with an argument of
  another type, is undefined behaviour and \<open>None\<close>.
\<close>

section \<open>printf\<close>

datatype parg = ArgInt u32 | ArgStr "u8 list"

definition INT_MAX :: nat where "INT_MAX = 2147483647"

text \<open>The characters \<^verbatim>\<open>%\<close>, \<^verbatim>\<open>c\<close>, \<^verbatim>\<open>s\<close>, \<^verbatim>\<open>d\<close> and \<^verbatim>\<open>x\<close>.\<close>

definition PERCENT :: u8 where "PERCENT = 37"
definition CONV_c :: u8 where "CONV_c = 99"
definition CONV_s :: u8 where "CONV_s = 115"
definition CONV_d :: u8 where "CONV_d = 100"
definition CONV_x :: u8 where "CONV_x = 120"

text \<open>\<^verbatim>\<open>num_buff\<close> after \<^verbatim>\<open>itoa\<close>, up to its terminator; \<open>n\<close> is the size of the buffer.\<close>

definition buffer_text :: "nat \<Rightarrow> (bytes \<Rightarrow> bytes) \<Rightarrow> u8 list" where
  "buffer_text n conv = takeWhile (\<lambda>c. c \<noteq> 0) (block (conv (\<lambda>_. 0)) 0 n)"

text \<open>\<^verbatim>\<open>amount\<close>: the length of the run of characters up to the next \<^verbatim>\<open>%\<close>, the first one included.\<close>

definition literal_run :: "u8 list \<Rightarrow> nat" where
  "literal_run fmt = Suc (length (takeWhile (\<lambda>c. c \<noteq> PERCENT) (tl fmt)))"

function printf_loop :: "u8 list \<Rightarrow> parg list \<Rightarrow> nat \<Rightarrow> u8 list \<Rightarrow> (int \<times> u8 list) option" where
  "printf_loop fmt args written out =
     (case fmt of
        [] \<Rightarrow> Some (int written, out)
      | c # rest \<Rightarrow>
          let maxrem = INT_MAX - written
          in if c \<noteq> PERCENT \<or> (rest \<noteq> [] \<and> hd rest = PERCENT) then
               let fmt' = (if c = PERCENT then rest else fmt);
                   amount = literal_run fmt'
               in if maxrem < amount then Some (-1, out)
                  else printf_loop (drop amount fmt') args (written + amount) (out @ take amount fmt')
             else if rest \<noteq> [] \<and> hd rest = CONV_c then
               (case args of
                  ArgInt n # args' \<Rightarrow>
                    if maxrem = 0 then Some (-1, out)
                    else printf_loop (tl rest) args' (written + 1) (out @ [ucast n])
                | _ \<Rightarrow> None)
             else if rest \<noteq> [] \<and> hd rest = CONV_s then
               (case args of
                  ArgStr s # args' \<Rightarrow>
                    if maxrem < length s then Some (-1, out)
                    else printf_loop (tl rest) args' (written + length s) (out @ s)
                | _ \<Rightarrow> None)
             else if rest \<noteq> [] \<and> hd rest = CONV_d then
               if maxrem = 0 then Some (-1, out)
               else (case args of
                       ArgInt n # args' \<Rightarrow>
                         let s = buffer_text 12 (itoa 0 (sint n))
                         in printf_loop (tl rest) args' (written + length s) (out @ s)
                     | _ \<Rightarrow> None)
             else if rest \<noteq> [] \<and> hd rest = CONV_x then
               if maxrem = 0 then Some (-1, out)
               else (case args of
                       ArgInt n # args' \<Rightarrow>
                         let s = buffer_text 9 (itoa_hex 0 n)
                         in printf_loop (tl rest) args' (written + length s) (out @ s)
                     | _ \<Rightarrow> None)
             else if maxrem < length fmt then Some (-1, out)
             else Some (int (written + length fmt), out @ fmt))"
  by pat_completeness auto
termination
  by (relation "measure (\<lambda>(fmt, args, written, out). length fmt)")
    (auto simp: literal_run_def neq_Nil_conv split: if_splits)

definition printf :: "u8 list \<Rightarrow> parg list \<Rightarrow> (int \<times> u8 list) option" where
  "printf fmt args = printf_loop fmt args 0 []"

definition puts :: "u8 list \<Rightarrow> (int \<times> u8 list) option" where
  "puts str = printf [PERCENT, CONV_s, 10] [ArgStr str]"

section \<open>Random numbers\<close>

record rng =
  has_rdrand :: bool
  rng_state :: u64

text \<open>\<open>cpuid_ecx\<close> is the feature word the processor returns, \<open>tsc_hi\<close> and \<open>tsc_lo\<close> the time-stamp counter.\<close>

definition init_rand :: "u32 \<Rightarrow> u32 \<Rightarrow> u32 \<Rightarrow> rng \<Rightarrow> rng" where
  "init_rand cpuid_ecx tsc_lo tsc_hi r =
     (let r1 = r\<lparr>has_rdrand := (drop_bit 30 cpuid_ecx AND 1 \<noteq> 0)\<rparr>
      in if \<not> has_rdrand r1 then
           let st = push_bit 32 (ucast tsc_hi :: u64) OR ucast tsc_lo
           in r1\<lparr>rng_state := (if st = 0 then 1 else st)\<rparr>
         else r1)"

definition srand :: "u32 \<Rightarrow> rng \<Rightarrow> rng" where
  "srand seed r = r\<lparr>rng_state := (if seed \<noteq> 0 then ucast seed else 1)\<rparr>"

definition xorshift_step :: "u64 \<Rightarrow> u64" where
  "xorshift_step x0 =
     (let x1 = x0 XOR push_bit 13 x0; x2 = x1 XOR drop_bit 7 x1; x3 = x2 XOR push_bit 17 x2 in x3)"

definition xorshift64 :: "rng \<Rightarrow> u64 \<times> rng" where
  "xorshift64 r = (let x = xorshift_step (rng_state r) in (x, r\<lparr>rng_state := x\<rparr>))"

text \<open>The ten attempts of \<^verbatim>\<open>rdrand64\<close>; \<open>hw\<close> is what the instruction delivers in each of them, None when it
  clears the carry flag.\<close>

fun rdrand64 :: "u64 option list \<Rightarrow> rng \<Rightarrow> u64 \<times> rng" where
  "rdrand64 [] r = xorshift64 r"
| "rdrand64 (Some v # hw) r = (v, r)"
| "rdrand64 (None # hw) r = rdrand64 hw r"

definition randul :: "u64 option list \<Rightarrow> rng \<Rightarrow> u64 \<times> rng" where
  "randul hw r = (if has_rdrand r then rdrand64 (take 10 hw) r else xorshift64 r)"

definition randu :: "u64 option list \<Rightarrow> rng \<Rightarrow> u32 \<times> rng" where
  "randu hw r = (let (x, r') = randul hw r in (ucast x, r'))"

definition rand_range :: "u64 option list \<Rightarrow> u32 \<Rightarrow> u32 \<Rightarrow> rng \<Rightarrow> u32 \<times> rng" where
  "rand_range hw mn mx r =
     (if mx \<le> mn then (mn, r) else let (x, r') = randu hw r in (mn + x mod (mx - mn), r'))"

definition randl :: "u64 option list \<Rightarrow> rng \<Rightarrow> int \<times> rng" where
  "randl hw r = (let (x, r') = randul hw r in (sint x, r'))"

definition rand :: "u64 option list \<Rightarrow> rng \<Rightarrow> int \<times> rng" where
  "rand hw r = (let (x, r') = randu hw r in (sint x, r'))"

section \<open>Proofs\<close>

declare printf_loop.simps [simp del]

lemma literal_run_le: "fmt \<noteq> [] \<Longrightarrow> literal_run fmt \<le> length fmt"
  by (cases fmt) (simp_all add: literal_run_def length_takeWhile_le)

lemma printf_loop_length:
  "printf_loop fmt args (length out) out = Some (r, out') \<Longrightarrow> r = -1 \<or> r = int (length out')"
proof (induction "length fmt" arbitrary: fmt args out rule: less_induct)
  case less
  have step: "r = -1 \<or> r = int (length out')"
    if "printf_loop f a w t = Some (r, out')" "w = length t" "length f < length fmt" for f a w t
    using less(1) [OF that(3), of a t] that(1,2) by simp
  have lit: "length (take (literal_run f) f) = literal_run f" "length (drop (literal_run f) f) < length fmt"
    if "f \<noteq> []" "length f \<le> length fmt" for f
    using that literal_run_le [OF that(1)] by (auto simp: literal_run_def)
  show ?case
  proof (cases fmt)
    case Nil
    then show ?thesis using less(2) by (subst (asm) printf_loop.simps) auto
  next
    case (Cons c rest)
    have tl: "rest \<noteq> [] \<Longrightarrow> length (tl rest) < length fmt" using Cons by simp
    define f' where "f' = (if c = PERCENT then rest else fmt)"
    show ?thesis
    proof (cases "c \<noteq> PERCENT \<or> (rest \<noteq> [] \<and> hd rest = PERCENT)")
      case True
      then have f': "f' \<noteq> []" "length f' \<le> length fmt" using Cons by (auto simp: f'_def)
      then show ?thesis
        using less(2) True Cons step [of "drop (literal_run f') f'" args "length out + literal_run f'" "out @ take (literal_run f') f'"]
          lit [OF f']
        by (subst (asm) printf_loop.simps) (auto simp: Let_def f'_def [symmetric] split: if_splits)
    next
      case False
      then show ?thesis
        using less(2) Cons tl
        by (subst (asm) printf_loop.simps)
          (auto simp: Let_def split: list.splits if_splits parg.splits dest: step)
    qed
  qed
qed

definition escape :: "u8 list \<Rightarrow> u8 list" where
  "escape s = concat (map (\<lambda>c. if c = PERCENT then [PERCENT, PERCENT] else [c]) s)"

lemma escape_simps [simp]:
  "escape [] = []" "escape (c # s) = (if c = PERCENT then [PERCENT, PERCENT] else [c]) @ escape s"
  "escape (s @ t) = escape s @ escape t"
  by (simp_all add: escape_def)

lemma escape_plain: "PERCENT \<notin> set s \<Longrightarrow> escape s = s"
  by (induction s) auto

lemma escape_run:
  assumes "PERCENT \<notin> set t" "u = [] \<or> hd u = PERCENT"
  shows "literal_run (c # escape (t @ u)) = Suc (length t)"
proof -
  have "takeWhile (\<lambda>c. c \<noteq> PERCENT) (t @ escape u) = t"
    using assms by (cases u) (auto simp: takeWhile_append)
  then show ?thesis by (simp add: literal_run_def escape_plain assms(1))
qed

lemma printf_loop_escape:
  "written + length s \<le> INT_MAX \<Longrightarrow>
   printf_loop (escape s) args written out = Some (int (written + length s), out @ s)"
proof (induction "length s" arbitrary: s written out rule: less_induct)
  case less
  show ?case
  proof (cases s)
    case Nil
    then show ?thesis by (subst printf_loop.simps) simp
  next
    case (Cons c s')
    define t u where tu: "t = takeWhile (\<lambda>c. c \<noteq> PERCENT) s'" "u = dropWhile (\<lambda>c. c \<noteq> PERCENT) s'"
    have s': "s' = t @ u" and t: "PERCENT \<notin> set t" and u: "u = [] \<or> hd u = PERCENT"
      using hd_dropWhile [of "\<lambda>c. c \<noteq> PERCENT" s'] by (auto simp: tu dest: set_takeWhileD)
    have run: "literal_run (c # escape s') = Suc (length t)" unfolding s' by (rule escape_run [OF t u])
    have cut: "drop (Suc (length t)) (c # escape s') = escape u" "take (Suc (length t)) (c # escape s') = c # t"
      by (simp_all add: s' escape_plain [OF t])
    have "printf_loop (escape s) args written out =
        printf_loop (escape u) args (written + Suc (length t)) (out @ c # t)"
      using less(2) run cut Cons s' by (subst printf_loop.simps) (auto simp: Let_def split: list.split)
    also have "\<dots> = Some (int (written + length s), out @ s)"
      using less(1) [of u "written + Suc (length t)" "out @ c # t"] less(2) Cons s' by simp
    finally show ?thesis .
  qed
qed

lemma xor_shift_left_zero: "0 < k \<Longrightarrow> x XOR push_bit k x = 0 \<Longrightarrow> (x :: 'a::len word) = 0"
proof (rule bit_word_eqI)
  fix n assume k: "0 < k" and z: "x XOR push_bit k x = 0" and n: "n < LENGTH('a)"
  have eq: "bit x j \<longleftrightarrow> k \<le> j \<and> bit x (j - k)" if "j < LENGTH('a)" for j
    using arg_cong [OF z, of "\<lambda>w. bit w j"] that by (auto simp: bit_simps)
  show "bit x n = bit 0 n"
    using n
  proof (induction n rule: less_induct)
    case (less n)
    show ?case
    proof (cases "k \<le> n")
      case True
      then show ?thesis using less.IH [of "n - k"] less.prems eq [of n] k by simp
    qed (use eq [of n] less.prems in simp)
  qed
qed

lemma xor_shift_right_zero: "0 < k \<Longrightarrow> x XOR drop_bit k x = 0 \<Longrightarrow> (x :: 'a::len word) = 0"
proof (rule bit_word_eqI)
  fix n assume k: "0 < k" and z: "x XOR drop_bit k x = 0" and n: "n < LENGTH('a)"
  have eq: "bit x j \<longleftrightarrow> bit x (j + k)" for j
    using arg_cong [OF z, of "\<lambda>w. bit w j"] by (auto simp: bit_simps add.commute)
  show "bit x n = bit 0 n"
    using n
  proof (induction "LENGTH('a) - n" arbitrary: n rule: less_induct)
    case less
    show ?case
    proof (cases "n + k < LENGTH('a)")
      case True
      then show ?thesis using less(1) [of "n + k"] less(2) eq [of n] k by simp
    next
      case False
      then show ?thesis using eq [of n] by (simp add: bit_word.rep_eq)
    qed
  qed
qed

lemma xorshift_step_nonzero: "x \<noteq> 0 \<Longrightarrow> xorshift_step x \<noteq> 0"
  using xor_shift_left_zero [of 13 x] xor_shift_right_zero [of 7 "x XOR push_bit 13 x"]
    xor_shift_left_zero [of 17 "(x XOR push_bit 13 x) XOR drop_bit 7 (x XOR push_bit 13 x)"]
  by (auto simp: xorshift_step_def Let_def)

section \<open>Properties\<close>

lemma cstring_number:
  assumes "2 \<le> b" "b \<le> 16" "length (radix b n) \<le> k"
  shows "\<exists>ds. cstring (put_bytes dest (map ascii_digit (radix b n) @ [0]) m) dest (map ascii_digit ds) \<and>
    foldl (\<lambda>a d. a * b + d) 0 ds = n \<and> list_all (\<lambda>d. d < b) ds \<and> length ds \<le> k"
proof -
  have "0 \<notin> set (map ascii_digit (radix b n))"
    using radix_digit [OF assms(1), of _ n] ascii_digit_nonzero assms(2) by force
  then show ?thesis
    using put_bytes_cstring [of "map ascii_digit (radix b n)" dest m] radix_value [OF assms(1)] radix_digit [OF assms(1)] assms(3)
    by (auto simp: list_all_iff)
qed

text \<open>C26: \<^verbatim>\<open>memmove\<close> copies the original source block, also when source and destination overlap, and changes
  no byte outside the destination.\<close>

theorem memmove_correct:
  "memmove dst src n m = (\<lambda>a. if a \<in> {dst..<dst + n} then m (src + (a - dst)) else m a)"
  by (rule ext) (simp add: memmove_apply)

text \<open>\<^verbatim>\<open>strcmp\<close> of two strings, the shorter one below the comparison limit, returns, and returns 0 exactly
  when they are equal.\<close>

lemma strcmp_correct:
  assumes "cstring m a s" "cstring m b t" "min (length s) (length t) < 1000"
  shows "\<exists>d. strcmp a b m = Inr d \<and> (d = 0 \<longleftrightarrow> s = t)"
  using strcmp_loop_cstring [OF assms(1,2)] assms(3) by (simp add: strcmp_def MAX_STRCMP_COMPARISONS_def)

lemma strcmp_correct_witness:
  "\<exists>d. strcmp 0 1 ((\<lambda>_. 0)(0 := 65)) = Inr d \<and> d \<noteq> 0"
  using strcmp_correct [of "(\<lambda>_. 0)(0 := 65)" 0 "[65]" 1 "[]"] by simp

text \<open>\<^verbatim>\<open>itoa\<close> of a number that is not negative stores a terminated string of at most ten decimal digits whose
  value is the number, and writes at most eleven bytes.\<close>

lemma itoa_roundtrip:
  assumes "n < 2 ^ 31"
  shows "(\<exists>ds. cstring (itoa dest (int n) m) dest (map ascii_digit ds) \<and>
      foldl (\<lambda>a d. a * 10 + d) 0 ds = n \<and> list_all (\<lambda>d. d < 10) ds \<and> length ds \<le> 10) \<and>
    (\<forall>a. a < dest \<or> dest + 11 \<le> a \<longrightarrow> itoa dest (int n) m a = m a)"
proof -
  have "length (radix 10 n) \<le> 10" using radix_length [of 10 n 10] assms by simp
  then show ?thesis
    using cstring_number [of 10 n 10 dest m] itoa_cstring [of n dest m] assms
      put_bytes_frame [of _ dest "map ascii_digit (radix 10 n) @ [0]" m] by auto
qed

lemma itoa_roundtrip_witness:
  "\<exists>ds. cstring (itoa 8 1234 (\<lambda>_. 7)) 8 (map ascii_digit ds) \<and> foldl (\<lambda>a d. a * 10 + d) 0 ds = 1234"
  using itoa_roundtrip [of 1234 8 "\<lambda>_. 7"] by auto

text \<open>\<^verbatim>\<open>itoa\<close> does not handle negative numbers: the text it writes for -5 is a single \<^verbatim>\<open>+\<close>, with no sign
  and no digit.\<close>

lemma itoa_negative: "block (itoa 0 (-5) m) 0 2 = [43, 0]"
proof -
  have "itoa_loop 0 (-5) (replicate 12 0) = ((replicate 12 0)[0 := -5], 0)"
    by (subst itoa_loop.simps) (simp add: signed_modulo_int_def signed_divide_int_def)
  then show ?thesis by (simp add: itoa_def block_def numeral_2_eq_2)
qed

text \<open>\<^verbatim>\<open>itoa_hex\<close> stores a terminated string of at most eight hexadecimal digits whose value is the number, within
  the nine bytes its callers provide.\<close>

lemma itoa_hex_roundtrip:
  "(\<exists>ds. cstring (itoa_hex dest x m) dest (map ascii_digit ds) \<and>
      foldl (\<lambda>a d. a * 16 + d) 0 ds = unat x \<and> list_all (\<lambda>d. d < 16) ds \<and> length ds \<le> 8) \<and>
    (\<forall>a. a < dest \<or> dest + 9 \<le> a \<longrightarrow> itoa_hex dest x m a = m a)"
proof -
  have "length (radix 16 (unat x)) \<le> 8" using radix_length [of 16 "unat x" 8] unat_lt [of x] by simp
  then show ?thesis
    using cstring_number [of 16 "unat x" 8 dest m]
      put_bytes_frame [of _ dest "map ascii_digit (radix 16 (unat x)) @ [0]" m]
    by (auto simp: itoa_hex_cstring)
qed

lemma itoa_hex_roundtrip_witness:
  "(\<exists>ds. cstring (itoa_hex 4 0xBEEF (\<lambda>_. 7)) 4 (map ascii_digit ds) \<and> foldl (\<lambda>a d. a * 16 + d) 0 ds = 48879) \<and>
   itoa_hex 4 0xBEEF (\<lambda>_. 7) 13 = 7"
  using itoa_hex_roundtrip [of 4 "0xBEEF" "\<lambda>_. 7"] by auto

text \<open>Printing a text with every \<^verbatim>\<open>%\<close> doubled prints the text and returns its length.\<close>

lemma printf_escape:
  assumes "length s \<le> INT_MAX"
  shows "printf (escape s) args = Some (int (length s), s)"
  using printf_loop_escape [of 0 s args "[]"] assms by (simp add: printf_def)

lemma printf_escape_witness: "printf [65, 37, 37, 66] [] = Some (3, [65, 37, 66])"
  using printf_escape [of "[65, 37, 66]" "[]"] by (simp add: INT_MAX_def PERCENT_def)

text \<open>Whatever \<^verbatim>\<open>printf\<close> is asked to print, it returns -1 or the number of bytes it printed.\<close>

lemma printf_result:
  assumes "printf fmt args = Some (r, out)"
  shows "r = -1 \<or> r = int (length out)"
  using printf_loop_length [of fmt args "[]" r out] assms by (simp add: printf_def)

lemma printf_result_witness:
  "\<exists>out r. printf [65, 37, 115] [ArgStr [66, 67]] = Some (r, out) \<and> (r = -1 \<or> r = int (length out))"
proof -
  have "printf [65, 37, 115] [ArgStr [66, 67]] = Some (3, [65, 66, 67])"
    by (simp add: printf_def printf_loop.simps literal_run_def PERCENT_def CONV_c_def CONV_s_def INT_MAX_def)
  with printf_result [OF this] show ?thesis by blast
qed

lemma mod_in_range:
  assumes "mn < (mx :: u32)"
  shows "mn \<le> mn + y mod (mx - mn) \<and> mn + y mod (mx - mn) < mx"
proof -
  have lt: "unat mn < unat mx" using assms by (simp add: word_less_nat_alt)
  have "unat (mx - mn) = unat mx - unat mn" using lt by (intro unat_minus_simple) simp
  then have d: "unat (y mod (mx - mn)) < unat mx - unat mn" using lt by (simp add: unat_mod)
  then have "unat (mn + y mod (mx - mn)) = unat mn + unat (y mod (mx - mn))"
    using unat_lt [of mx] by (intro unat_plus_simple) simp
  then show ?thesis using d by (simp add: word_less_nat_alt word_le_nat_alt)
qed

text \<open>The software generator never gets stuck at zero, and a number drawn from a non-empty range lies in the
  range.\<close>

lemma rand_range_bounds:
  assumes "mn < mx" "rng_state r \<noteq> 0" "rand_range hw mn mx r = (x, r')"
  shows "mn \<le> x \<and> x < mx \<and> rng_state r' \<noteq> 0"
proof -
  have hw: "rng_state (snd (rdrand64 h r)) \<noteq> 0" for h
    using assms(2) by (induction h r rule: rdrand64.induct) (auto simp: xorshift64_def Let_def xorshift_step_nonzero)
  obtain y r1 where y: "randu hw r = (y, r1)" by (meson surj_pair)
  have r1: "rng_state r1 \<noteq> 0"
    using y hw [of "take 10 hw"] assms(2)
    by (auto simp: randu_def randul_def xorshift64_def Let_def xorshift_step_nonzero split: prod.splits if_splits)
  have "x = mn + y mod (mx - mn)" "r' = r1" using assms(1,3) y by (auto simp: rand_range_def not_le [symmetric])
  moreover have "mn \<le> mn + y mod (mx - mn) \<and> mn + y mod (mx - mn) < mx" by (rule mod_in_range [OF assms(1)])
  ultimately show ?thesis using r1 by simp
qed

lemma rand_range_bounds_witness:
  "10 \<le> fst (rand_range [] 10 20 \<lparr>has_rdrand = False, rng_state = 1\<rparr>)"
  using rand_range_bounds [of 10 20 "\<lparr>has_rdrand = False, rng_state = 1\<rparr>" "[]"]
  by (cases "rand_range [] 10 20 \<lparr>has_rdrand = False, rng_state = 1\<rparr>") simp

end
