(* ===== verification/Unionfind.thy ===== *)
theory Unionfind
  imports Prelude "HOL-Library.Monad_Syntax"
begin

text \<open>
  Disjoint sets, \<^verbatim>\<open>libc/datastructures/ufds/ufds.c\<close>: union by rank with path compression.

  The arrays are lists, None is an allocation failure, an index outside an array or a search along parents
  that does not end.  The contents of freshly allocated memory are an argument: the constructor clears only
  as many bytes of the rank and size arrays as they have elements, and never sets the number of sets.
  The parents are what the partition depends on, and they are set up completely.
\<close>

section \<open>Model\<close>

record ufds =
  uf_rank :: "u32 list"
  uf_parent :: "nat list"
  uf_size :: "u32 list"
  uf_len :: nat
  num_sets :: u32

text \<open>\<open>memset\<close> of the first \<open>n\<close> bytes of an array of 32-bit integers.\<close>

definition clear_bytes :: "nat \<Rightarrow> u32 list \<Rightarrow> u32 list" where
  "clear_bytes n xs =
     map (\<lambda>i. if i < n div 4 then 0 else if i = n div 4 then push_bit (8 * (n mod 4)) (drop_bit (8 * (n mod 4)) (xs ! i)) else xs ! i)
       [0..<length xs]"

text \<open>The memory \<open>malloc\<close> returns for the structure (its last member), for the ranks, the parents and the sizes.\<close>

definition UnionFind :: "nat \<Rightarrow> u32 option \<Rightarrow> u32 list option \<Rightarrow> u32 list option \<Rightarrow> u32 list option \<Rightarrow> ufds option" where
  "UnionFind n mem mem_rank mem_parent mem_size = do {
     sets \<leftarrow> mem;
     r \<leftarrow> mem_rank;
     _ \<leftarrow> mem_parent;
     s \<leftarrow> mem_size;
     Some \<lparr>uf_rank = clear_bytes n r, uf_parent = [0..<n], uf_size = clear_bytes n s, uf_len = n, num_sets = sets\<rparr> }"

partial_function (option) findSet :: "nat \<Rightarrow> ufds \<Rightarrow> (nat \<times> ufds) option" where
  "findSet i uf =
     (if length (uf_parent uf) \<le> i then None
      else if uf_parent uf ! i \<noteq> i then
        Option.bind (findSet (uf_parent uf ! i) uf) (\<lambda>(r, uf1). Some (r, uf1\<lparr>uf_parent := (uf_parent uf1)[i := r]\<rparr>))
      else Some (i, uf))"

definition in_same_set :: "nat \<Rightarrow> nat \<Rightarrow> ufds \<Rightarrow> (bool \<times> ufds) option" where
  "in_same_set i j uf = do { (a, uf1) \<leftarrow> findSet i uf; (b, uf2) \<leftarrow> findSet j uf1; Some (a = b, uf2) }"

definition link_roots :: "nat \<Rightarrow> nat \<Rightarrow> ufds \<Rightarrow> ufds" where
  "link_roots ri rj uf =
     (if sint (uf_rank uf ! ri) < sint (uf_rank uf ! rj)
      then uf\<lparr>uf_parent := (uf_parent uf)[ri := rj], uf_size := (uf_size uf)[rj := uf_size uf ! rj + 1]\<rparr>
      else let uf1 = uf\<lparr>uf_parent := (uf_parent uf)[rj := ri]\<rparr>
           in if uf_rank uf1 ! ri = uf_rank uf1 ! rj
              then uf1\<lparr>uf_rank := (uf_rank uf1)[rj := uf_rank uf1 ! rj + 1], uf_size := (uf_size uf1)[rj := uf_size uf1 ! rj + 1]\<rparr>
              else uf1)"

definition unionSet :: "nat \<Rightarrow> nat \<Rightarrow> ufds \<Rightarrow> ufds option" where
  "unionSet i j uf = do {
     (same, uf1) \<leftarrow> in_same_set i j uf;
     if same then Some uf1
     else do {
       (ri, uf2) \<leftarrow> findSet i uf1;
       (rj, uf3) \<leftarrow> findSet j uf2;
       let uf4 = link_roots ri rj uf3;
       Some (uf4\<lparr>num_sets := num_sets uf4 - 1\<rparr>) } }"

primrec unions :: "(nat \<times> nat) list \<Rightarrow> ufds \<Rightarrow> ufds option" where
  "unions [] uf = Some uf"
| "unions (e # es) uf = do { uf1 \<leftarrow> unionSet (fst e) (snd e) uf; unions es uf1 }"

section \<open>Representatives\<close>

inductive rep :: "nat list \<Rightarrow> nat \<Rightarrow> nat \<Rightarrow> bool" for p where
  rep_root: "p ! i = i \<Longrightarrow> rep p i i"
| rep_step: "p ! i \<noteq> i \<Longrightarrow> rep p (p ! i) r \<Longrightarrow> rep p i r"

inductive_cases rep_elim: "rep p i r"

lemma rep_is_root: "rep p i r \<Longrightarrow> p ! r = r"
  by (induction rule: rep.induct)

lemma rep_unique: "rep p i r \<Longrightarrow> rep p i s \<Longrightarrow> r = s"
proof (induction rule: rep.induct)
  case (rep_root i)
  then show ?case by (auto elim: rep_elim)
next
  case (rep_step i r)
  from rep_step.prems rep_step.hyps(1) have "rep p (p ! i) s" by (cases rule: rep.cases) auto
  then show ?case by (rule rep_step.IH)
qed

text \<open>Well-formed parents: every chain stays in the array and ends.\<close>

definition forest :: "nat list \<Rightarrow> bool" where
  "forest p \<longleftrightarrow> (\<forall>i < length p. p ! i < length p \<and> (\<exists>r. rep p i r))"

lemma forest_rep: "forest p \<Longrightarrow> i < length p \<Longrightarrow> \<exists>r. rep p i r"
  by (simp add: forest_def)

lemma rep_less: "rep p i r \<Longrightarrow> forest p \<Longrightarrow> i < length p \<Longrightarrow> r < length p"
  by (induction rule: rep.induct) (auto simp: forest_def)

lemma forest_new: "forest [0..<n]"
proof -
  have "rep [0..<n] i i" if "i < n" for i using that by (intro rep_root) simp
  then show ?thesis by (auto simp: forest_def)
qed

text \<open>A change of one parent to a root of the same tree, or of a root to another root.\<close>

lemma rep_compress:
  assumes "rep p i r" and "rep p j s" and "i < length p"
  shows "rep (p[i := r]) j s"
  using assms(2)
proof (induction rule: rep.induct)
  case (rep_root j)
  show ?case
  proof (cases "j = i")
    case True
    then have "r = i" using rep_unique [OF assms(1)] rep.rep_root [of p i] rep_root by blast
    with True rep_root assms(3) show ?thesis by (auto intro: rep.rep_root)
  next
    case False
    with rep_root show ?thesis by (auto intro: rep.rep_root)
  qed
next
  case (rep_step j s)
  show ?case
  proof (cases "j = i")
    case True
    have "rep p i s" using rep_step.hyps True by (auto intro: rep.rep_step)
    with assms(1) have s: "s = r" by (rule rep_unique [symmetric])
    have root: "p ! r = r" using assms(1) by (rule rep_is_root)
    with True rep_step.hyps(1) have "r \<noteq> i" by auto
    then have "rep (p[i := r]) r r" using root by (auto intro: rep.rep_root)
    with True s assms(3) \<open>r \<noteq> i\<close> show ?thesis by (auto intro: rep.rep_step)
  next
    case False
    with rep_step show ?thesis by (auto intro: rep.rep_step)
  qed
qed

lemma rep_link:
  assumes "p ! a = a" and "p ! b = b" and "a \<noteq> b" and "a < length p" and "rep p j s"
  shows "rep (p[a := b]) j (if s = a then b else s)"
  using assms(5)
proof (induction rule: rep.induct)
  case (rep_root j)
  have b: "rep (p[a := b]) b b" using assms by (auto intro: rep.rep_root)
  show ?case
  proof (cases "j = a")
    case True
    with b assms(3,4) show ?thesis by (auto intro: rep.rep_step)
  next
    case False
    with rep_root show ?thesis by (auto intro: rep.rep_root)
  qed
next
  case (rep_step j s)
  then have "j \<noteq> a" using assms(1) by auto
  with rep_step show ?case by (auto intro: rep.rep_step)
qed

section \<open>Operations on well-formed forests\<close>

text \<open>Two structures with the same trees up to compression.\<close>

definition same_sets :: "ufds \<Rightarrow> ufds \<Rightarrow> bool" where
  "same_sets uf uf' \<longleftrightarrow> length (uf_parent uf') = length (uf_parent uf) \<and> forest (uf_parent uf') \<and>
     (\<forall>j < length (uf_parent uf). \<forall>s. rep (uf_parent uf') j s \<longleftrightarrow> rep (uf_parent uf) j s)"

lemma same_sets_refl: "forest (uf_parent uf) \<Longrightarrow> same_sets uf uf"
  by (simp add: same_sets_def)

lemma same_sets_trans: "same_sets a b \<Longrightarrow> same_sets b c \<Longrightarrow> same_sets a c"
  by (auto simp: same_sets_def)

lemma same_sets_compress:
  assumes "forest (uf_parent uf)" and "i < length (uf_parent uf)" and "rep (uf_parent uf) i r"
  shows "same_sets uf (uf\<lparr>uf_parent := (uf_parent uf)[i := r]\<rparr>)"
proof -
  let ?p = "uf_parent uf" and ?q = "(uf_parent uf)[i := r]"
  have fwd: "rep ?q j s" if "rep ?p j s" for j s
    using rep_compress [OF assms(3) that assms(2)] .
  have "rep ?p j s" if q: "rep ?q j s" and j: "j < length ?p" for j s
  proof -
    obtain s' where s': "rep ?p j s'" using forest_rep [OF assms(1) j] by blast
    from rep_unique [OF fwd [OF s'] q] s' show ?thesis by simp
  qed
  moreover have "forest ?q"
    unfolding forest_def
  proof (intro allI impI)
    fix j assume j: "j < length ?q"
    have "r < length ?p" using rep_less [OF assms(3,1,2)] .
    moreover have "?p ! j < length ?p" "\<exists>s. rep ?p j s" using assms(1) j by (auto simp: forest_def)
    ultimately show "?q ! j < length ?q \<and> (\<exists>s. rep ?q j s)"
      using fwd assms(2) by (auto simp: nth_list_update)
  qed
  ultimately show ?thesis using fwd by (auto simp: same_sets_def)
qed

lemma findSet_finds:
  assumes "rep p i r" and "uf_parent uf = p" and "forest p" and "i < length p"
  shows "\<exists>uf'. findSet i uf = Some (r, uf') \<and> same_sets uf uf'"
  using assms
proof (induction arbitrary: uf rule: rep.induct)
  case (rep_root i)
  then show ?case by (subst findSet.simps) (simp add: same_sets_refl)
next
  case (rep_step i r)
  have "p ! i < length p" using rep_step.prems by (simp add: forest_def)
  then obtain uf1 where uf1: "findSet (p ! i) uf = Some (r, uf1)" "same_sets uf uf1"
    using rep_step.IH [OF rep_step.prems(1,2)] by blast
  have "rep (uf_parent uf1) i r"
    using uf1(2) rep_step.hyps rep_step.prems by (auto simp: same_sets_def intro: rep.rep_step)
  then have "same_sets uf1 (uf1\<lparr>uf_parent := (uf_parent uf1)[i := r]\<rparr>)"
    using uf1(2) rep_step.prems by (intro same_sets_compress) (auto simp: same_sets_def)
  with uf1 rep_step.hyps rep_step.prems show ?case
    by (subst findSet.simps) (auto intro: same_sets_trans)
qed

text \<open>The partition, and what the operations do to it.\<close>

definition together :: "ufds \<Rightarrow> nat \<Rightarrow> nat \<Rightarrow> bool" where
  "together uf i j \<longleftrightarrow> (\<exists>r. rep (uf_parent uf) i r \<and> rep (uf_parent uf) j r)"

lemma same_sets_together:
  "same_sets uf uf' \<Longrightarrow> i < length (uf_parent uf) \<Longrightarrow> j < length (uf_parent uf) \<Longrightarrow> together uf' i j = together uf i j"
  by (simp add: same_sets_def together_def)

lemma findSet_rep:
  assumes "forest (uf_parent uf)" and "i < length (uf_parent uf)"
  obtains r uf' where "findSet i uf = Some (r, uf')" "same_sets uf uf'" "rep (uf_parent uf) i r"
  using findSet_finds [OF _ refl assms] forest_rep [OF assms] by blast

lemma in_same_set_correct:
  assumes "forest (uf_parent uf)" and "i < length (uf_parent uf)" and "j < length (uf_parent uf)"
  shows "\<exists>uf'. in_same_set i j uf = Some (together uf i j, uf') \<and> same_sets uf uf'"
proof -
  obtain a uf1 where a: "findSet i uf = Some (a, uf1)" "same_sets uf uf1" "rep (uf_parent uf) i a"
    using findSet_rep assms by blast
  then have "forest (uf_parent uf1)" "j < length (uf_parent uf1)"
    using assms by (simp_all add: same_sets_def)
  then obtain b uf2 where b: "findSet j uf1 = Some (b, uf2)" "same_sets uf1 uf2" "rep (uf_parent uf1) j b"
    using findSet_rep by blast
  have "rep (uf_parent uf) j b" using a(2) b(3) assms(3) by (simp add: same_sets_def)
  then have "together uf i j \<longleftrightarrow> a = b"
    using a(3) unfolding together_def using rep_unique by blast
  with a b same_sets_trans show ?thesis by (auto simp: in_same_set_def)
qed

lemma link_roots_parent:
  "uf_parent (link_roots a b uf) \<in> {(uf_parent uf)[a := b], (uf_parent uf)[b := a]}"
  by (simp add: link_roots_def Let_def)

text \<open>Linking the roots of two trees merges the two sets and no others.\<close>

lemma link_merges:
  assumes "forest p" and "p ! a = a" and "p ! b = b" and "a \<noteq> b" and "a < length p" and "b < length p"
  shows "forest (p[a := b])" and "j < length p \<Longrightarrow> rep (p[a := b]) j s \<longleftrightarrow> (\<exists>t. rep p j t \<and> s = (if t = a then b else t))"
proof -
  have link: "rep (p[a := b]) j (if t = a then b else t)" if "rep p j t" for j t
    using rep_link [OF assms(2-5) that] .
  show "forest (p[a := b])"
    using assms(1,5,6) link by (fastforce simp: forest_def nth_list_update)
  assume "j < length p"
  then obtain t where "rep p j t" using assms(1) by (auto simp: forest_def)
  with link [OF this] show "rep (p[a := b]) j s \<longleftrightarrow> (\<exists>t. rep p j t \<and> s = (if t = a then b else t))"
    using rep_unique by blast
qed

definition merged :: "ufds \<Rightarrow> nat \<Rightarrow> nat \<Rightarrow> nat \<Rightarrow> nat \<Rightarrow> bool" where
  "merged uf a b i j \<longleftrightarrow> together uf i j \<or> together uf i a \<and> together uf b j \<or> together uf i b \<and> together uf a j"

lemma together_merged:
  assumes "forest (uf_parent uf)" and "a < length (uf_parent uf)" and "b < length (uf_parent uf)"
    and "rep (uf_parent uf) a ra" and "rep (uf_parent uf) b rb" and "ra \<noteq> rb"
    and "uf_parent uf' = (uf_parent uf)[ra := rb] \<or> uf_parent uf' = (uf_parent uf)[rb := ra]"
    and "i < length (uf_parent uf)" and "j < length (uf_parent uf)"
  shows "together uf' i j \<longleftrightarrow> merged uf a b i j"
proof -
  let ?p = "uf_parent uf"
  obtain ri rj where r: "rep ?p i ri" "rep ?p j rj" using forest_rep [OF assms(1)] assms(8,9) by blast
  have roots: "?p ! ra = ra" "?p ! rb = rb" "ra < length ?p" "rb < length ?p"
    using assms rep_is_root rep_less by blast+
  have t: "together uf x y \<longleftrightarrow> rx = ry" if "rep ?p x rx" "rep ?p y ry" for x y rx ry
    using that rep_unique unfolding together_def by blast
  have m: "merged uf a b i j \<longleftrightarrow> ri = rj \<or> ri = ra \<and> rb = rj \<or> ri = rb \<and> ra = rj"
    unfolding merged_def using t assms(4,5) r by simp
  show ?thesis
  proof (cases "uf_parent uf' = ?p[ra := rb]")
    case True
    have "together uf' i j \<longleftrightarrow> (if ri = ra then rb else ri) = (if rj = ra then rb else rj)"
      unfolding together_def True
      using link_merges(2) [OF assms(1) roots(1,2) assms(6) roots(3,4)] assms(8,9) r rep_unique by (metis (no_types, lifting))
    then show ?thesis using m assms(6) by auto
  next
    case False
    then have p: "uf_parent uf' = ?p[rb := ra]" using assms(7) by blast
    have "together uf' i j \<longleftrightarrow> (if ri = rb then ra else ri) = (if rj = rb then ra else rj)"
      unfolding together_def p
      using link_merges(2) [OF assms(1) roots(2,1) assms(6) [symmetric] roots(4,3)] assms(8,9) r rep_unique by (metis (no_types, lifting))
    then show ?thesis using m assms(6) by auto
  qed
qed

lemma together_equiv:
  "forest (uf_parent uf) \<Longrightarrow> i < length (uf_parent uf) \<Longrightarrow> together uf i i"
  "together uf i j \<Longrightarrow> together uf j i"
  "together uf i j \<Longrightarrow> together uf j k \<Longrightarrow> together uf i k"
  using forest_rep rep_unique unfolding together_def by blast+

lemma unionSet_correct:
  assumes "forest (uf_parent uf)" and "a < length (uf_parent uf)" and "b < length (uf_parent uf)"
  shows "\<exists>uf'. unionSet a b uf = Some uf' \<and> forest (uf_parent uf') \<and> length (uf_parent uf') = length (uf_parent uf) \<and>
    (\<forall>i < length (uf_parent uf). \<forall>j < length (uf_parent uf). together uf' i j \<longleftrightarrow> merged uf a b i j)"
proof -
  obtain uf1 where uf1: "in_same_set a b uf = Some (together uf a b, uf1)" "same_sets uf uf1"
    using in_same_set_correct [OF assms] by blast
  then have n1: "forest (uf_parent uf1)" "length (uf_parent uf1) = length (uf_parent uf)" by (simp_all add: same_sets_def)
  show ?thesis
  proof (cases "together uf a b")
    case True
    have "together uf1 i j \<longleftrightarrow> merged uf a b i j" if "i < length (uf_parent uf)" "j < length (uf_parent uf)" for i j
      using same_sets_together [OF uf1(2) that] True together_equiv(2,3) [of uf] unfolding merged_def by blast
    with uf1 n1 True show ?thesis by (auto simp: unionSet_def)
  next
    case False
    obtain ra uf2 where a: "findSet a uf1 = Some (ra, uf2)" "same_sets uf1 uf2" "rep (uf_parent uf1) a ra"
      using findSet_rep [of uf1 a] n1 assms by auto
    then have n2: "forest (uf_parent uf2)" "length (uf_parent uf2) = length (uf_parent uf)" using n1 by (simp_all add: same_sets_def)
    obtain rb uf3 where b: "findSet b uf2 = Some (rb, uf3)" "same_sets uf2 uf3" "rep (uf_parent uf2) b rb"
      using findSet_rep [of uf2 b] n2 assms by auto
    have same: "same_sets uf uf3" using uf1(2) a(2) b(2) same_sets_trans by blast
    then have n3: "forest (uf_parent uf3)" "length (uf_parent uf3) = length (uf_parent uf)" by (simp_all add: same_sets_def)
    have reps: "rep (uf_parent uf3) a ra" "rep (uf_parent uf3) b rb"
      using a(2,3) b(2,3) n1 n2 assms by (simp_all add: same_sets_def)
    have ne: "ra \<noteq> rb"
      using False same_sets_together [OF same assms(2,3)] reps unfolding together_def by blast
    define uf' where "uf' = (link_roots ra rb uf3)\<lparr>num_sets := num_sets (link_roots ra rb uf3) - 1\<rparr>"
    have p': "uf_parent uf' = (uf_parent uf3)[ra := rb] \<or> uf_parent uf' = (uf_parent uf3)[rb := ra]"
      using link_roots_parent [of ra rb uf3] by (simp add: uf'_def)
    have roots: "uf_parent uf3 ! ra = ra" "uf_parent uf3 ! rb = rb" "ra < length (uf_parent uf3)" "rb < length (uf_parent uf3)"
      using rep_is_root [OF reps(1)] rep_is_root [OF reps(2)] rep_less [OF reps(1) n3(1)] rep_less [OF reps(2) n3(1)] n3(2) assms(2,3)
      by simp_all
    have "forest (uf_parent uf')" "length (uf_parent uf') = length (uf_parent uf)"
      using p' link_merges(1) n3 roots ne by (metis, metis length_list_update)
    moreover have "together uf' i j \<longleftrightarrow> merged uf a b i j" if "i < length (uf_parent uf)" "j < length (uf_parent uf)" for i j
      using together_merged [OF n3(1) _ _ reps ne p', of i j] that assms n3(2) same_sets_together [OF same]
      unfolding merged_def by simp
    moreover have "unionSet a b uf = Some uf'"
      using uf1 a b False by (simp add: unionSet_def uf'_def Let_def)
    ultimately show ?thesis by blast
  qed
qed

section \<open>Property\<close>

text \<open>The equivalence relation a sequence of unions generates.\<close>

definition joined :: "(nat \<times> nat) list \<Rightarrow> (nat \<times> nat) set" where
  "joined es = (set es \<union> (set es)\<inverse>)\<^sup>*"

lemma joined_sym: "(i, j) \<in> joined es \<Longrightarrow> (j, i) \<in> joined es"
  unfolding joined_def by (rule symD [OF sym_rtrancl]) (auto simp: sym_def)

lemma joined_snoc:
  "(i, j) \<in> joined (es @ [(a, b)]) \<longleftrightarrow>
     (i, j) \<in> joined es \<or> (i, a) \<in> joined es \<and> (b, j) \<in> joined es \<or> (i, b) \<in> joined es \<and> (a, j) \<in> joined es"
proof -
  have "joined (es @ [(a, b)]) = (insert (a, b) (insert (b, a) (set es \<union> (set es)\<inverse>)))\<^sup>*"
    unfolding joined_def by (rule arg_cong [of _ _ rtrancl]) auto
  also have "(i, j) \<in> \<dots> \<longleftrightarrow>
     (i, j) \<in> joined es \<or> (i, a) \<in> joined es \<and> (b, j) \<in> joined es \<or> (i, b) \<in> joined es \<and> (a, j) \<in> joined es"
    unfolding rtrancl_insert joined_def [symmetric]
    using joined_sym [of _ _ es] rtrancl_trans [of _ _ "set es \<union> (set es)\<inverse>", folded joined_def] by blast
  finally show ?thesis .
qed

lemma unions_append: "unions (es @ fs) uf = Option.bind (unions es uf) (unions fs)"
  by (induction es arbitrary: uf) (simp_all add: Option.bind_assoc)

lemma unions_correct:
  assumes "uf_parent uf = [0..<n]" and "\<forall>e \<in> set es. fst e < n \<and> snd e < n"
  shows "\<exists>uf'. unions es uf = Some uf' \<and> forest (uf_parent uf') \<and> length (uf_parent uf') = n \<and>
    (\<forall>i < n. \<forall>j < n. together uf' i j \<longleftrightarrow> (i, j) \<in> joined es)"
  using assms(2)
proof (induction es rule: rev_induct)
  case Nil
  have "rep [0..<n] i r \<longleftrightarrow> r = i" if "i < n" for i r
    using that rep_root [of "[0..<n]" i] rep_unique [of "[0..<n]" i] by auto
  then have "together uf i j \<longleftrightarrow> i = j" if "i < n" "j < n" for i j
    using that assms(1) by (auto simp: together_def)
  then show ?case using forest_new assms(1) by (auto simp: joined_def)
next
  case (snoc e es)
  obtain a b where e: "e = (a, b)" "a < n" "b < n" using snoc.prems by (cases e) auto
  obtain uf1 where uf1: "unions es uf = Some uf1" "forest (uf_parent uf1)" "length (uf_parent uf1) = n"
    "\<forall>i < n. \<forall>j < n. together uf1 i j \<longleftrightarrow> (i, j) \<in> joined es"
    using snoc by auto
  obtain uf2 where uf2: "unionSet a b uf1 = Some uf2" "forest (uf_parent uf2)" "length (uf_parent uf2) = n"
    "\<forall>i < n. \<forall>j < n. together uf2 i j \<longleftrightarrow> merged uf1 a b i j"
    using unionSet_correct [OF uf1(2), of a b] e uf1(3) by auto
  have "merged uf1 a b i j \<longleftrightarrow> (i, j) \<in> joined (es @ [e])" if "i < n" "j < n" for i j
    unfolding merged_def e(1) joined_snoc using uf1(4) that e by simp
  with uf1(1) uf2 e show ?case by (simp add: unions_append)
qed

text \<open>C29: after any sequence of unions, started from the constructor and whatever the allocated memory contained, the
  test for two items answers, and answers yes exactly when the unions connect them; the search ends and
  no index leaves the arrays.\<close>

theorem unionfind_partition:
  assumes "UnionFind n mem mr mp ms = Some uf" and "\<forall>e \<in> set es. fst e < n \<and> snd e < n" and "i < n" and "j < n"
  shows "\<exists>uf' uf''. unions es uf = Some uf' \<and> in_same_set i j uf' = Some ((i, j) \<in> joined es, uf'')"
proof -
  have "uf_parent uf = [0..<n]" using assms(1) by (auto simp: UnionFind_def bind_eq_Some_conv)
  from unions_correct [OF this assms(2)] obtain uf' where uf': "unions es uf = Some uf'" "forest (uf_parent uf')"
    "length (uf_parent uf') = n" "\<forall>i < n. \<forall>j < n. together uf' i j \<longleftrightarrow> (i, j) \<in> joined es"
    by blast
  with in_same_set_correct [of uf' i j] assms(3,4) show ?thesis by auto
qed

theorem unionfind_partition_witness:
  "\<exists>uf uf' uf''. UnionFind 4 (Some 9) (Some [7, 7, 7, 7]) (Some [8, 8, 8, 8]) (Some [5, 5, 5, 5]) = Some uf \<and>
     unions [(0, 1), (2, 1)] uf = Some uf' \<and> in_same_set 0 2 uf' = Some (True, uf'')"
proof -
  obtain uf where uf: "UnionFind 4 (Some 9) (Some [7, 7, 7, 7]) (Some [8, 8, 8, 8]) (Some [5, 5, 5, 5]) = Some uf"
    by (simp add: UnionFind_def)
  have "(0, 2) \<in> joined [(0, 1), (2, 1)]"
    unfolding joined_def by (rule rtrancl_trans [of 0 1]) auto
  with uf unionfind_partition [OF uf, of "[(0, 1), (2, 1)]" 0 2] show ?thesis by auto
qed

end
