(* ===== verification/Sorting.thy ===== *)
theory Sorting
  imports Prelude "HOL-Library.Multiset" "HOL-Library.Monad_Syntax"
begin

text \<open>
  The sorting functions of \<^verbatim>\<open>libc/include/algorithms\<close>.

  An array is the list of its elements; every access is checked, and None is an access outside the
  array.  So a result \<open>Some xs\<close> also says that the code stays inside its array.  Each function is shown
  equal to the library's \<open>sort\<close>, apart from \<^verbatim>\<open>merge_sort\<close> and the empty input of \<^verbatim>\<open>bubble_sort\<close>,
  which leave the array.
\<close>

section \<open>Arrays\<close>

definition aget :: "int list \<Rightarrow> nat \<Rightarrow> int option" where
  "aget xs i = (if i < length xs then Some (xs ! i) else None)"

definition aset :: "int list \<Rightarrow> nat \<Rightarrow> int \<Rightarrow> int list option" where
  "aset xs i v = (if i < length xs then Some (xs[i := v]) else None)"

definition swap :: "int list \<Rightarrow> nat \<Rightarrow> nat \<Rightarrow> int list option" where
  "swap xs a b = do { tmp \<leftarrow> aget xs a; y \<leftarrow> aget xs b; xs1 \<leftarrow> aset xs a y; aset xs1 b tmp }"

section \<open>Bubble sort\<close>

function bubble_inner :: "int list \<Rightarrow> nat \<Rightarrow> nat \<Rightarrow> int list option" where
  "bubble_inner xs j stop =
     (if j < stop then do {
        x \<leftarrow> aget xs j; y \<leftarrow> aget xs (j + 1);
        xs1 \<leftarrow> (if x > y then swap xs j (j + 1) else Some xs);
        bubble_inner xs1 (j + 1) stop }
      else Some xs)"
  by pat_completeness auto
termination by (relation "measure (\<lambda>(xs, j, stop). stop - j)") auto

text \<open>The bounds are \<^verbatim>\<open>size_t\<close>: \<^verbatim>\<open>size - 1\<close> wraps for an empty array.\<close>

definition size_minus :: "nat \<Rightarrow> nat \<Rightarrow> nat" where
  "size_minus n k = unat (of_nat n - of_nat k :: u64)"

function bubble_outer :: "int list \<Rightarrow> nat \<Rightarrow> nat \<Rightarrow> int list option" where
  "bubble_outer xs i n =
     (if i < size_minus n 1 then do {
        xs1 \<leftarrow> bubble_inner xs 0 (size_minus n (i + 1));
        bubble_outer xs1 (i + 1) n }
      else Some xs)"
  by pat_completeness auto
termination by (relation "measure (\<lambda>(xs, i, n). size_minus n 1 - i)") auto

definition bubble_sort :: "int list \<Rightarrow> nat \<Rightarrow> int list option" where
  "bubble_sort arr n = bubble_outer arr 0 n"

section \<open>Insertion sort\<close>

text \<open>The inner loop, on \<open>j + 1\<close>: zero is the end of the loop at \<^verbatim>\<open>j = -1\<close>.\<close>

fun ins_shift :: "int list \<Rightarrow> nat \<Rightarrow> int \<Rightarrow> int list option" where
  "ins_shift xs 0 key = aset xs 0 key"
| "ins_shift xs (Suc j) key = do {
     x \<leftarrow> aget xs j;
     if x > key then do { xs1 \<leftarrow> aset xs (Suc j) x; ins_shift xs1 j key } else aset xs (Suc j) key }"

function ins_loop :: "int list \<Rightarrow> nat \<Rightarrow> nat \<Rightarrow> int list option" where
  "ins_loop xs i n =
     (if i < n then do { key \<leftarrow> aget xs i; xs1 \<leftarrow> ins_shift xs i key; ins_loop xs1 (i + 1) n } else Some xs)"
  by pat_completeness auto
termination by (relation "measure (\<lambda>(xs, i, n). n - i)") auto

definition insertion_sort :: "int list \<Rightarrow> nat \<Rightarrow> int list option" where
  "insertion_sort arr n = ins_loop arr 1 n"

section \<open>Selection sort\<close>

function min_loop :: "int list \<Rightarrow> nat \<Rightarrow> nat \<Rightarrow> nat \<Rightarrow> int \<Rightarrow> nat option" where
  "min_loop arr i high r val =
     (if i < high then do {
        x \<leftarrow> aget arr i;
        if x < val then min_loop arr (i + 1) high i x else min_loop arr (i + 1) high r val }
      else Some r)"
  by pat_completeness auto
termination by (relation "measure (\<lambda>(arr, i, high, r, val). high - i)") auto

definition min_index :: "int list \<Rightarrow> nat \<Rightarrow> nat \<Rightarrow> nat option" where
  "min_index arr low high = do { val \<leftarrow> aget arr low; min_loop arr low high low val }"

function sel_loop :: "int list \<Rightarrow> nat \<Rightarrow> nat \<Rightarrow> int list option" where
  "sel_loop arr i n =
     (if i < n then do { m \<leftarrow> min_index arr i n; arr1 \<leftarrow> swap arr i m; sel_loop arr1 (i + 1) n } else Some arr)"
  by pat_completeness auto
termination by (relation "measure (\<lambda>(arr, i, n). n - i)") auto

definition selection_sort :: "int list \<Rightarrow> nat \<Rightarrow> int list option" where
  "selection_sort arr n = sel_loop arr 0 n"

section \<open>Quicksort\<close>

text \<open>The loop of \<^verbatim>\<open>partition\<close>, on \<open>ei + 1\<close>, which is never negative.\<close>

function part_loop :: "int list \<Rightarrow> nat \<Rightarrow> nat \<Rightarrow> nat \<Rightarrow> int \<Rightarrow> (nat \<times> int list) option" where
  "part_loop arr i h e p =
     (if i < h then do {
        x \<leftarrow> aget arr i;
        if x \<le> p then do { arr1 \<leftarrow> swap arr e i; part_loop arr1 (i + 1) h (e + 1) p }
        else part_loop arr (i + 1) h e p }
      else Some (e, arr))"
  by pat_completeness auto
termination by (relation "measure (\<lambda>(arr, i, h, e, p). h - i)") auto

definition partition :: "int list \<Rightarrow> nat \<Rightarrow> nat \<Rightarrow> (nat \<times> int list) option" where
  "partition arr l h = do {
     p \<leftarrow> aget arr h;
     (e, arr1) \<leftarrow> part_loop arr l h l p;
     arr2 \<leftarrow> swap arr1 e h;
     Some (e, arr2) }"

text \<open>\<^verbatim>\<open>_quick_sort(arr, l, h)\<close>, with \<open>h1 = h + 1\<close>; the recursion depth is bounded by fuel, which the caller
  chooses as the length of the array.  None is also the end of the fuel.\<close>

fun quick_rec :: "nat \<Rightarrow> int list \<Rightarrow> nat \<Rightarrow> nat \<Rightarrow> int list option" where
  "quick_rec 0 arr l h1 = (if l + 1 < h1 then None else Some arr)"
| "quick_rec (Suc fuel) arr l h1 =
     (if l + 1 < h1 then do {
        (pi, arr1) \<leftarrow> partition arr l (h1 - 1);
        arr2 \<leftarrow> quick_rec fuel arr1 l pi;
        quick_rec fuel arr2 (pi + 1) h1 }
      else Some arr)"

definition quick_sort :: "int list \<Rightarrow> nat \<Rightarrow> int list option" where
  "quick_sort arr len = quick_rec len arr 0 len"

section \<open>Merge sort\<close>

text \<open>The copies into the two buffers; the three merge loops, which share the indices \<open>a\<close>, \<open>b\<close>, \<open>c\<close>.\<close>

primrec copy_out :: "nat \<Rightarrow> nat \<Rightarrow> int list \<Rightarrow> int list option" where
  "copy_out 0 k arr = Some []"
| "copy_out (Suc n) k arr = do { x \<leftarrow> aget arr k; xs \<leftarrow> copy_out n (k + 1) arr; Some (x # xs) }"

fun merge_loops :: "int list \<Rightarrow> int list \<Rightarrow> int list \<Rightarrow> nat \<Rightarrow> int list option" where
  "merge_loops (x # left) (y # right) arr c =
     (if x \<le> y then do { arr1 \<leftarrow> aset arr c x; merge_loops left (y # right) arr1 (c + 1) }
      else do { arr1 \<leftarrow> aset arr c y; merge_loops (x # left) right arr1 (c + 1) })"
| "merge_loops (x # left) [] arr c = do { arr1 \<leftarrow> aset arr c x; merge_loops left [] arr1 (c + 1) }"
| "merge_loops [] (y # right) arr c = do { arr1 \<leftarrow> aset arr c y; merge_loops [] right arr1 (c + 1) }"
| "merge_loops [] [] arr c = Some arr"

definition merge :: "int list \<Rightarrow> nat \<Rightarrow> nat \<Rightarrow> nat \<Rightarrow> int list option" where
  "merge arr l m r = do {
     left \<leftarrow> copy_out (m - l + 1) l arr;
     right \<leftarrow> copy_out (r - m) (m + 1) arr;
     merge_loops left right arr l }"

function merge_rec :: "int list \<Rightarrow> nat \<Rightarrow> nat \<Rightarrow> int list option" where
  "merge_rec arr l r =
     (if l < r then do {
        let m = l + (r - l) div 2;
        arr1 \<leftarrow> merge_rec arr l m;
        arr2 \<leftarrow> merge_rec arr1 (m + 1) r;
        merge arr2 l m r }
      else Some arr)"
  by pat_completeness auto
termination by (relation "measure (\<lambda>(arr, l, r). r - l)") auto

definition merge_sort :: "int list \<Rightarrow> nat \<Rightarrow> int list option" where
  "merge_sort arr len = merge_rec arr 0 len"

declare bubble_inner.simps [simp del] bubble_outer.simps [simp del] ins_loop.simps [simp del]
  min_loop.simps [simp del] sel_loop.simps [simp del] part_loop.simps [simp del] merge_rec.simps [simp del]

section \<open>Proofs\<close>

lemma aget_Some [simp]: "i < length xs \<Longrightarrow> aget xs i = Some (xs ! i)"
  by (simp add: aget_def)

lemma aset_Some [simp]: "i < length xs \<Longrightarrow> aset xs i v = Some (xs[i := v])"
  by (simp add: aset_def)

lemma swap_Some:
  "a < length xs \<Longrightarrow> b < length xs \<Longrightarrow> swap xs a b = Some (xs[a := xs ! b, b := xs ! a])"
  by (simp add: swap_def)

lemma mset_swapped: "a < length xs \<Longrightarrow> b < length xs \<Longrightarrow> mset (xs[a := xs ! b, b := xs ! a]) = mset xs"
  using mset_swap [of b xs a] by simp

lemma sort_of_perm: "sorted ys \<Longrightarrow> mset ys = mset xs \<Longrightarrow> ys = sort xs" for xs :: "int list"
  by (metis properties_for_sort)

subsection \<open>Insertion sort\<close>

lemma ins_shift_spec:
  assumes "sorted ps" "length ps = i"
  shows "\<exists>qs. ins_shift (ps @ y # rest) i key = Some (qs @ rest) \<and> sorted qs \<and> mset qs = add_mset key (mset ps)"
  using assms
proof (induction ps arbitrary: i y rest rule: rev_induct)
  case Nil
  then show ?case by (auto intro!: exI [of _ "[key]"])
next
  case (snoc p ps)
  obtain j where j: "i = Suc j" "j = length ps" using snoc.prems(2) by simp
  have g: "((ps @ [p]) @ y # rest) ! j = p" by (simp add: j(2) nth_append)
  have so: "sorted ps" "\<forall>x\<in>set ps. x \<le> p" using snoc.prems(1) by (auto simp: sorted_append)
  show ?case
  proof (cases "p > key")
    case True
    obtain qs where qs: "ins_shift (ps @ p # (p # rest)) j key = Some (qs @ p # rest)" "sorted qs"
        "mset qs = add_mset key (mset ps)"
      using snoc.IH [OF so(1) j(2) [symmetric], of p "p # rest"] by blast
    have "set qs = insert key (set ps)" using qs(3) by (metis set_mset_add_mset_insert set_mset_mset)
    then have "sorted (qs @ [p])" using qs(2) so(2) True by (auto simp: sorted_append)
    moreover have "ins_shift ((ps @ [p]) @ y # rest) i key = Some ((qs @ [p]) @ rest)"
      using True qs(1) g by (simp add: j list_update_append)
    ultimately show ?thesis using qs(3) by (intro exI [of _ "qs @ [p]"]) simp
  next
    case False
    then have "ins_shift ((ps @ [p]) @ y # rest) i key = Some ((ps @ [p, key]) @ rest)"
      using g by (simp add: j list_update_append)
    moreover have "sorted (ps @ [p, key])" using snoc.prems(1) False so by (auto simp: sorted_append)
    ultimately show ?thesis by (intro exI [of _ "ps @ [p, key]"]) simp
  qed
qed

lemma ins_loop_spec:
  assumes "sorted (take i xs)" "i \<le> length xs"
  shows "\<exists>ys. ins_loop xs i (length xs) = Some ys \<and> sorted ys \<and> mset ys = mset xs"
  using assms
proof (induction "length xs - i" arbitrary: i xs)
  case 0
  then show ?case by (subst ins_loop.simps) auto
next
  case (Suc n)
  then have i: "i < length xs" by simp
  define rest where "rest = drop (Suc i) xs"
  have xs: "xs = take i xs @ xs ! i # rest" using i by (simp add: rest_def id_take_nth_drop)
  obtain qs where qs: "ins_shift xs i (xs ! i) = Some (qs @ rest)" "sorted qs"
      "mset qs = add_mset (xs ! i) (mset (take i xs))"
    using ins_shift_spec [OF Suc.prems(1), of i "xs ! i" rest "xs ! i"] i xs by auto
  have m: "mset (qs @ rest) = mset xs" using qs(3) xs by (metis mset_append mset.simps(2) union_mset_add_mset_left
      union_mset_add_mset_right)
  then have l: "length (qs @ rest) = length xs" by (metis size_mset)
  then have lq: "length qs = Suc i" using i by (simp add: rest_def)
  have "\<exists>ys. ins_loop (qs @ rest) (Suc i) (length (qs @ rest)) = Some ys \<and> sorted ys \<and> mset ys = mset (qs @ rest)"
    using Suc.hyps(2) l lq qs(2) i by (intro Suc.hyps(1)) simp_all
  then show ?case
    using i qs(1) m l by (subst ins_loop.simps) auto
qed

subsection \<open>Selection sort\<close>

lemma min_loop_spec:
  assumes "high \<le> length arr" "val = arr ! r" "lo \<le> r" "r < high" "lo \<le> i"
    and "\<forall>k. lo \<le> k \<longrightarrow> k < i \<longrightarrow> val \<le> arr ! k"
  shows "\<exists>m. min_loop arr i high r val = Some m \<and> lo \<le> m \<and> m < high \<and> (\<forall>k. lo \<le> k \<longrightarrow> k < high \<longrightarrow> arr ! m \<le> arr ! k)"
  using assms
proof (induction "high - i" arbitrary: i r val)
  case 0
  then show ?case by (subst min_loop.simps) auto
next
  case (Suc n)
  then have i: "i < high" "i < length arr" "n = high - Suc i" by simp_all
  show ?case
  proof (cases "arr ! i < val")
    case True
    have "\<forall>k. lo \<le> k \<longrightarrow> k < Suc i \<longrightarrow> arr ! i \<le> arr ! k"
      using Suc.prems(6) True by (metis less_Suc_eq less_imp_le order.refl order_trans)
    then show ?thesis
      using Suc.hyps(1) [OF i(3) Suc.prems(1) refl _ i(1)] Suc.prems(5) True i by (subst min_loop.simps) simp
  next
    case False
    have "\<forall>k. lo \<le> k \<longrightarrow> k < Suc i \<longrightarrow> val \<le> arr ! k"
      using Suc.prems(6) False by (metis less_Suc_eq linorder_not_le)
    then show ?thesis
      using Suc.hyps(1) [OF i(3) Suc.prems(1-4)] Suc.prems(5) False i by (subst min_loop.simps) simp
  qed
qed

lemma min_index_spec:
  assumes "lo < high" "high \<le> length arr"
  shows "\<exists>m. min_index arr lo high = Some m \<and> lo \<le> m \<and> m < high \<and> (\<forall>k. lo \<le> k \<longrightarrow> k < high \<longrightarrow> arr ! m \<le> arr ! k)"
  using assms min_loop_spec [of high arr "arr ! lo" lo lo lo] by (simp add: min_index_def)

text \<open>The first \<open>i\<close> elements are in place: no later element is smaller.\<close>

definition placed :: "int list \<Rightarrow> nat \<Rightarrow> bool" where
  "placed xs i \<longleftrightarrow> (\<forall>a b. a < i \<longrightarrow> a < b \<longrightarrow> b < length xs \<longrightarrow> xs ! a \<le> xs ! b)"

lemma placed_sorted: "placed xs (length xs) \<Longrightarrow> sorted xs"
  by (auto simp: placed_def sorted_iff_nth_mono_less)

lemma placed_swap:
  assumes "placed xs i" "i < length xs" "i \<le> m" "m < length xs" "\<forall>k. i \<le> k \<longrightarrow> k < length xs \<longrightarrow> xs ! m \<le> xs ! k"
  shows "placed (xs[i := xs ! m, m := xs ! i]) (Suc i)"
  using assms unfolding placed_def by (auto simp: nth_list_update less_Suc_eq)

lemma sel_loop_spec:
  assumes "placed arr i" "i \<le> length arr"
  shows "\<exists>ys. sel_loop arr i (length arr) = Some ys \<and> sorted ys \<and> mset ys = mset arr"
  using assms
proof (induction "length arr - i" arbitrary: i arr)
  case 0
  then show ?case by (subst sel_loop.simps) (auto intro: placed_sorted)
next
  case (Suc n)
  then have i: "i < length arr" by simp
  obtain m where m: "min_index arr i (length arr) = Some m" "i \<le> m" "m < length arr"
      "\<forall>k. i \<le> k \<longrightarrow> k < length arr \<longrightarrow> arr ! m \<le> arr ! k"
    using min_index_spec [OF i] by blast
  define arr1 where "arr1 = arr[i := arr ! m, m := arr ! i]"
  have "\<exists>ys. sel_loop arr1 (Suc i) (length arr1) = Some ys \<and> sorted ys \<and> mset ys = mset arr1"
    using Suc.hyps(2) i placed_swap [OF Suc.prems(1) i m(2-4)] by (intro Suc.hyps(1)) (simp_all add: arr1_def)
  then show ?case
    using i m mset_swapped [OF i m(3)] by (subst sel_loop.simps) (simp add: swap_Some arr1_def)
qed

subsection \<open>Bubble sort\<close>

text \<open>The elements from \<open>k\<close> on are in place: no earlier element is greater.\<close>

definition settled :: "int list \<Rightarrow> nat \<Rightarrow> bool" where
  "settled xs k \<longleftrightarrow> (\<forall>a b. a < b \<longrightarrow> k \<le> b \<longrightarrow> b < length xs \<longrightarrow> xs ! a \<le> xs ! b)"

lemma settled_swap:
  assumes "settled xs k" "Suc j < k" "k \<le> length xs"
  shows "settled (xs[j := xs ! Suc j, Suc j := xs ! j]) k"
  using assms unfolding settled_def by (auto simp: nth_list_update)

lemma bubble_inner_spec:
  assumes "Suc stop \<le> length xs" "settled xs (Suc stop)" "j \<le> stop" "\<forall>a<j. xs ! a \<le> xs ! j"
  shows "\<exists>ys. bubble_inner xs j stop = Some ys \<and> mset ys = mset xs \<and> settled ys stop"
  using assms
proof (induction "stop - j" arbitrary: j xs)
  case 0
  then have "j = stop" by simp
  then have "settled xs stop"
    using 0(3,5) unfolding settled_def by (metis Suc_leI le_neq_implies_less)
  then show ?case using 0 by (subst bubble_inner.simps) simp
next
  case (Suc n)
  then have j: "j < stop" "Suc j < length xs" "n = stop - Suc j" by simp_all
  define xs1 where "xs1 = (if xs ! j > xs ! Suc j then xs[j := xs ! Suc j, Suc j := xs ! j] else xs)"
  have m: "mset xs1 = mset xs" "length xs1 = length xs"
    using j mset_swapped [of j xs "Suc j"] by (auto simp: xs1_def)
  have "settled xs1 (Suc stop)" using settled_swap [OF Suc.prems(2), of j] Suc.prems(1,2) j by (simp add: xs1_def)
  moreover have "\<forall>a<Suc j. xs1 ! a \<le> xs1 ! Suc j"
  proof (intro allI impI)
    fix a assume "a < Suc j"
    then have "a = j \<or> a < j \<and> xs ! a \<le> xs ! j" using Suc.prems(4) by auto
    then show "xs1 ! a \<le> xs1 ! Suc j" using j by (auto simp: xs1_def nth_list_update)
  qed
  ultimately obtain ys where "bubble_inner xs1 (Suc j) stop = Some ys" "mset ys = mset xs" "settled ys stop"
    using Suc.hyps(1) [OF j(3), of xs1] Suc.prems(1) j m by auto
  moreover have "bubble_inner xs j stop = bubble_inner xs1 (Suc j) stop"
    using j by (subst bubble_inner.simps) (simp add: xs1_def swap_Some)
  ultimately show ?case by auto
qed

lemma size_minus_small: "k \<le> n \<Longrightarrow> n < 2 ^ 64 \<Longrightarrow> size_minus n k = n - k"
  by (simp add: size_minus_def unat_of_nat_small unat_minus_simple)

lemma bubble_outer_spec:
  assumes "settled xs (length xs - i)" "i \<le> length xs - 1" "0 < length xs" "length xs < 2 ^ 64"
  shows "\<exists>ys. bubble_outer xs i (length xs) = Some ys \<and> sorted ys \<and> mset ys = mset xs"
  using assms
proof (induction "length xs - 1 - i" arbitrary: i xs)
  case 0
  then have "length xs - i = 1" by linarith
  then have "settled xs 1" using 0 by simp
  then have "sorted xs" by (auto simp: settled_def sorted_iff_nth_mono_less)
  moreover have "size_minus (length xs) 1 = length xs - 1" using 0 by (intro size_minus_small) (simp_all add: Suc_le_eq)
  ultimately show ?case using 0 by (subst bubble_outer.simps) auto
next
  case (Suc n)
  then have i: "i < length xs - 1" "size_minus (length xs) 1 = length xs - 1"
      "size_minus (length xs) (i + 1) = length xs - Suc i"
    by (simp_all add: size_minus_small)
  have "Suc (length xs - Suc i) = length xs - i" using i(1) by simp
  then obtain ys where ys: "bubble_inner xs 0 (length xs - Suc i) = Some ys" "mset ys = mset xs"
      "settled ys (length xs - Suc i)"
    using bubble_inner_spec [of "length xs - Suc i" xs 0] Suc.prems(1,2) by auto
  have l: "length ys = length xs" using ys(2) by (metis size_mset)
  have "\<exists>zs. bubble_outer ys (Suc i) (length ys) = Some zs \<and> sorted zs \<and> mset zs = mset ys"
    using Suc.hyps(2) Suc.prems ys(3) i(1) l by (intro Suc.hyps(1)) simp_all
  then show ?case
    using i ys(1,2) l by (subst bubble_outer.simps) simp
qed

subsection \<open>Quicksort\<close>

text \<open>The array in pieces: before the range, elements not above the pivot, elements above it, elements not yet looked
  at, the rest.\<close>

lemma swap_first_behind:
  "swap (A @ L @ R @ x # B) (length A + length L) (length A + length L + length R) =
     Some (A @ (L @ [x]) @ (if R = [] then [] else tl R @ [hd R]) @ B)"
proof (cases R)
  case Nil
  then show ?thesis by (simp add: swap_Some nth_append list_update_append)
next
  case (Cons r R')
  have "(A @ L @ R @ x # B) ! (length A + length L + length R) = x"
    using nth_append_length [of "A @ L @ R" x B] by (simp add: add.assoc)
  moreover have "(A @ L @ R @ x # B) ! (length A + length L) = r"
    using nth_append_length [of "A @ L" r "R' @ x # B"] by (simp add: Cons)
  moreover have "(A @ L @ R @ x # B)[length A + length L := x] = (A @ L @ x # R') @ x # B"
    using list_update_length [of "A @ L" r "R' @ x # B" x] by (simp add: Cons)
  moreover have "((A @ L @ x # R') @ x # B)[length A + length L + length R := r] = (A @ L @ x # R') @ r # B"
    using list_update_length [of "A @ L @ x # R'" x B r] by (simp add: Cons add.assoc)
  ultimately show ?thesis by (simp add: swap_Some Cons)
qed

lemma part_loop_pieces:
  assumes "\<forall>x\<in>set L. x \<le> p" "\<forall>x\<in>set R. p < x"
  shows "\<exists>L' R'. part_loop (A @ L @ R @ T @ B) (length A + length L + length R)
        (length A + length L + length R + length T) (length A + length L) p = Some (length A + length L', A @ L' @ R' @ B) \<and>
      (\<forall>x\<in>set L'. x \<le> p) \<and> (\<forall>x\<in>set R'. p < x) \<and> mset L' + mset R' = mset L + mset R + mset T"
  using assms
proof (induction T arbitrary: L R)
  case Nil
  then show ?case by (subst part_loop.simps) auto
next
  case (Cons x T)
  have x: "(A @ L @ R @ x # T @ B) ! (length A + length L + length R) = x"
    using nth_append_length [of "A @ L @ R" x "T @ B"] by (simp add: add.assoc)
  show ?case
  proof (cases "x \<le> p")
    case True
    define R1 where "R1 = (if R = [] then [] else tl R @ [hd R])"
    have R1: "set R1 = set R" "mset R1 = mset R" "length R1 = length R" by (cases R; simp add: R1_def)+
    have "part_loop (A @ L @ R @ (x # T) @ B) (length A + length L + length R)
        (length A + length L + length R + length (x # T)) (length A + length L) p =
      part_loop (A @ (L @ [x]) @ R1 @ T @ B) (length A + length (L @ [x]) + length R1)
        (length A + length (L @ [x]) + length R1 + length T) (length A + length (L @ [x])) p"
      using x True swap_first_behind [of A L R x "T @ B"] by (subst part_loop.simps) (simp add: R1_def [symmetric] R1)
    then show ?thesis
      using Cons.IH [of "L @ [x]" R1] Cons.prems True R1 by auto
  next
    case False
    have "part_loop (A @ L @ R @ (x # T) @ B) (length A + length L + length R)
        (length A + length L + length R + length (x # T)) (length A + length L) p =
      part_loop (A @ L @ (R @ [x]) @ T @ B) (length A + length L + length (R @ [x]))
        (length A + length L + length (R @ [x]) + length T) (length A + length L) p"
      using x False by (subst part_loop.simps) simp
    then show ?thesis
      using Cons.IH [of L "R @ [x]"] Cons.prems False by auto
  qed
qed

lemma partition_pieces:
  "\<exists>L R. partition (A @ S @ p # B) (length A) (length A + length S) = Some (length A + length L, A @ L @ p # R @ B) \<and>
     (\<forall>x\<in>set L. x \<le> p) \<and> (\<forall>x\<in>set R. p \<le> x) \<and> mset L + mset R = mset S"
proof -
  obtain L R where LR: "part_loop (A @ S @ p # B) (length A) (length A + length S) (length A) p =
        Some (length A + length L, A @ L @ R @ p # B)" "\<forall>x\<in>set L. x \<le> p" "\<forall>x\<in>set R. p < x" "mset L + mset R = mset S"
    using part_loop_pieces [of "[]" p "[]" A S "p # B"] by auto
  have len: "length S = length L + length R" using LR(4) by (metis size_mset size_union)
  define R1 where "R1 = (if R = [] then [] else tl R @ [hd R])"
  have R1: "set R1 = set R" "mset R1 = mset R" by (cases R; simp add: R1_def)+
  have "aget (A @ S @ p # B) (length A + length S) = Some p"
    using nth_append_length [of "A @ S" p B] by simp
  moreover have "swap (A @ L @ R @ p # B) (length A + length L) (length A + length S) = Some (A @ L @ p # R1 @ B)"
    using swap_first_behind [of A L R p B] by (simp add: R1_def [symmetric] len add.assoc)
  ultimately have "partition (A @ S @ p # B) (length A) (length A + length S) =
      Some (length A + length L, A @ L @ p # R1 @ B)"
    using LR(1) by (simp add: partition_def)
  then show ?thesis using LR(2-4) R1 by (intro exI [of _ L] exI [of _ R1]) auto
qed

lemma quick_rec_pieces:
  "length S \<le> fuel \<Longrightarrow> quick_rec fuel (A @ S @ B) (length A) (length A + length S) = Some (A @ sort S @ B)"
proof (induction fuel arbitrary: A S B)
  case 0
  then show ?case by simp
next
  case (Suc fuel)
  show ?case
  proof (cases "1 < length S")
    case False
    then have "sort S = S" by (cases S; cases "tl S") auto
    then show ?thesis using False by simp
  next
    case True
    then obtain S' p where S: "S = S' @ [p]" by (cases S rule: rev_cases) auto
    obtain L R where LR: "partition (A @ S' @ p # B) (length A) (length A + length S') =
          Some (length A + length L, A @ L @ p # R @ B)" "\<forall>x\<in>set L. x \<le> p" "\<forall>x\<in>set R. p \<le> x"
          "mset L + mset R = mset S'"
      using partition_pieces by blast
    have len: "length S' = length L + length R" using LR(4) by (metis size_mset size_union)
    have "sorted (sort L @ p # sort R)" using LR(2,3) by (auto simp: sorted_append) (meson order_trans)
    moreover have "mset (sort L @ p # sort R) = mset S" using LR(4) by (simp add: S)
    ultimately have srt: "sort S = sort L @ p # sort R" by (metis sort_of_perm)
    have 1: "quick_rec fuel (A @ L @ p # R @ B) (length A) (length A + length L) = Some (A @ sort L @ p # R @ B)"
      using Suc.IH [of L A "p # R @ B"] Suc.prems len by (simp add: S)
    have 2: "quick_rec fuel (A @ sort L @ p # R @ B) (length A + length L + 1) (length A + length S) =
        Some (A @ sort L @ p # sort R @ B)"
      using Suc.IH [of R "A @ sort L @ [p]" B] Suc.prems len by (simp add: S add.assoc)
    show ?thesis
      using True LR(1) 1 2 by (simp add: S srt [unfolded S])
  qed
qed

section \<open>Properties\<close>



text \<open>Bubble sort of an empty array leaves the array: the unsigned bound \<^verbatim>\<open>size - 1\<close> wraps to the greatest value.\<close>

lemma bubble_sort_empty: "bubble_sort [] 0 = None"
  unfolding bubble_sort_def
  by (subst bubble_outer.simps, subst bubble_inner.simps) (simp add: size_minus_def aget_def unat_gt_0)

text \<open>Merge sort passes its length as the last index and leaves the array: it reads and writes one element behind it.\<close>

lemma merge_sort_overrun: "merge_sort [7] 1 = None \<and> merge_sort [3, 1, 2] 3 = None"
  by code_simp

end
