(* ===== verification/Counting.thy ===== *)
theory Counting
  imports Sorting "HOL-Library.Signed_Division"
begin

text \<open>
  Counting sort and radix sort (\<^verbatim>\<open>counting.h\<close>, \<^verbatim>\<open>radix.h\<close>) and the two searches (\<^verbatim>\<open>binary.c\<close>, \<^verbatim>\<open>linear.c\<close>) of
  \<^verbatim>\<open>libc/include/algorithms\<close>, on checked arrays as in the theory of the other sorting functions.

  Both sorts place the elements by the same three loops, which are modelled once with the key of an element
  as an argument; they are shown to sort stably by the key.  The count array of \<^verbatim>\<open>radix_sort\<close> comes from \<open>malloc\<close>;
  its contents are an argument, and the result is right when they are zero.
\<close>

section \<open>Model\<close>

text \<open>A computed index: negative ones are outside every array.\<close>

definition index :: "int \<Rightarrow> nat option" where
  "index x = (if x < 0 then None else Some (nat x))"

function count_loop :: "(int \<Rightarrow> int) \<Rightarrow> int list \<Rightarrow> nat \<Rightarrow> nat \<Rightarrow> int list \<Rightarrow> int list option" where
  "count_loop key arr i len c =
     (if i < len then do {
        x \<leftarrow> aget arr i; j \<leftarrow> index (key x); v \<leftarrow> aget c j; c1 \<leftarrow> aset c j (v + 1);
        count_loop key arr (i + 1) len c1 }
      else Some c)"
  by pat_completeness auto
termination by (relation "measure (\<lambda>(key, arr, i, len, c). len - i)") auto

text \<open>The running sums, for \<open>n\<close> more indices from \<open>i\<close> on.\<close>

primrec sum_loop :: "nat \<Rightarrow> nat \<Rightarrow> int list \<Rightarrow> int list option" where
  "sum_loop 0 i c = Some c"
| "sum_loop (Suc n) i c = do {
     a \<leftarrow> aget c i; b \<leftarrow> aget c (i - 1); c1 \<leftarrow> aset c i (a + b); sum_loop n (i + 1) c1 }"

primrec place_loop :: "(int \<Rightarrow> int) \<Rightarrow> int list \<Rightarrow> nat \<Rightarrow> int list \<Rightarrow> int list \<Rightarrow> int list option" where
  "place_loop key arr 0 b c = Some b"
| "place_loop key arr (Suc i) b c = do {
     x \<leftarrow> aget arr i; j \<leftarrow> index (key x); p \<leftarrow> aget c j; q \<leftarrow> index (p - 1);
     b1 \<leftarrow> aset b q x; c1 \<leftarrow> aset c j (p - 1); place_loop key arr i b1 c1 }"

definition copy_back :: "nat \<Rightarrow> int list \<Rightarrow> int list \<Rightarrow> int list option" where
  "copy_back len b arr = (if len \<le> length b \<and> len \<le> length arr then Some (take len b @ drop len arr) else None)"

text \<open>The sorted array; \<open>b\<close> and \<open>c\<close> are the scratch arrays of the caller and \<open>k\<close> is the largest element.\<close>

definition counting_sort :: "int list \<Rightarrow> nat \<Rightarrow> int list \<Rightarrow> int list \<Rightarrow> nat \<Rightarrow> int list option" where
  "counting_sort arr len b c k = do {
     c0 \<leftarrow> (if k + 1 \<le> length c then Some (replicate (k + 1) 0 @ drop (k + 1) c) else None);
     c1 \<leftarrow> count_loop (\<lambda>x. x) arr 0 len c0;
     c2 \<leftarrow> sum_loop k 1 c1;
     b1 \<leftarrow> place_loop (\<lambda>x. x) arr len b c2;
     copy_back len b1 arr }"

text \<open>One pass of \<^verbatim>\<open>radix_sort\<close>; \<open>c\<close> is the memory the allocation returned.  Division truncates.\<close>

definition radix_digit :: "int \<Rightarrow> int \<Rightarrow> int \<Rightarrow> int" where
  "radix_digit idx base x = (x sdiv idx) smod base"

definition radix_count_sort :: "int list \<Rightarrow> int list \<Rightarrow> nat \<Rightarrow> int \<Rightarrow> nat \<Rightarrow> int list \<Rightarrow> (int list \<times> int list) option" where
  "radix_count_sort arr b len idx base c = do {
     c1 \<leftarrow> count_loop (radix_digit idx (int base)) arr 0 len c;
     c2 \<leftarrow> sum_loop (base - 1) 1 c1;
     b1 \<leftarrow> place_loop (radix_digit idx (int base)) arr len b c2;
     arr1 \<leftarrow> copy_back len b1 arr;
     Some (arr1, b1) }"

text \<open>The passes; \<open>cs\<close> are the allocations.  A counter that leaves the range of \<^verbatim>\<open>int\<close> is None.\<close>

function radix_loop :: "int list \<Rightarrow> int list \<Rightarrow> nat \<Rightarrow> int \<Rightarrow> int \<Rightarrow> int list list \<Rightarrow> int list option" where
  "radix_loop arr b len i max_element [] = (if max_element sdiv i > 0 then None else Some arr)"
| "radix_loop arr b len i max_element (c # cs) =
     (if max_element sdiv i > 0 then do {
        (arr1, b1) \<leftarrow> radix_count_sort arr b len i 10 c;
        if i * 10 < 2 ^ 31 then radix_loop arr1 b1 len (i * 10) max_element cs else None }
      else Some arr)"
  by pat_completeness auto
termination by (relation "measure (\<lambda>(arr, b, len, i, m, cs). length cs)") auto

definition radix_sort :: "int list \<Rightarrow> int list \<Rightarrow> nat \<Rightarrow> int \<Rightarrow> int \<Rightarrow> int list list \<Rightarrow> int list option" where
  "radix_sort arr b len base max_element cs = radix_loop arr b len 1 max_element cs"

section \<open>Searches\<close>

function linear_loop :: "int list \<Rightarrow> nat \<Rightarrow> nat \<Rightarrow> int \<Rightarrow> int option" where
  "linear_loop arr i n elem =
     (if i < n then do { x \<leftarrow> aget arr i; if x = elem then Some (int i) else linear_loop arr (i + 1) n elem } else Some (-1))"
  by pat_completeness auto
termination by (relation "measure (\<lambda>(arr, i, n, elem). n - i)") auto

definition linear_search :: "int list \<Rightarrow> nat \<Rightarrow> int \<Rightarrow> int option" where
  "linear_search arr n elem = linear_loop arr 0 n elem"

text \<open>The loop of \<^verbatim>\<open>binary_search\<close>; None is also a loop that does not end.\<close>

partial_function (option) binary_loop :: "int list \<Rightarrow> nat \<Rightarrow> nat \<Rightarrow> int \<Rightarrow> int option" where
  "binary_loop arr low high elem =
     (if low < high then
        let mid = (low + high) div 2
        in Option.bind (aget arr mid) (\<lambda>x.
             if x = elem then Some (int mid)
             else if x < elem then binary_loop arr mid high elem
             else binary_loop arr low mid elem)
      else Some (-1))"

definition binary_search :: "int list \<Rightarrow> nat \<Rightarrow> int \<Rightarrow> int option" where
  "binary_search arr n elem = binary_loop arr 0 n elem"

declare count_loop.simps [simp del] linear_loop.simps [simp del]

section \<open>Counting\<close>

text \<open>How many elements have a key, and how many have a smaller one.\<close>

definition with_key :: "(int \<Rightarrow> int) \<Rightarrow> nat \<Rightarrow> int list \<Rightarrow> int list" where
  "with_key key v xs = filter (\<lambda>x. key x = int v) xs"

definition below :: "(int \<Rightarrow> int) \<Rightarrow> nat \<Rightarrow> int list \<Rightarrow> nat" where
  "below key v xs = (\<Sum>u<v. length (with_key key u xs))"

lemma with_key_simps [simp]:
  "with_key key v [] = []" "with_key key v (xs @ ys) = with_key key v xs @ with_key key v ys"
  "with_key key v [x] = (if key x = int v then [x] else [])"
  by (simp_all add: with_key_def)

lemma count_loop_counts:
  assumes "len \<le> length arr" and "\<forall>x \<in> set arr. 0 \<le> key x \<and> key x < int m" and "m \<le> length c" and "i \<le> len"
  shows "\<exists>c'. count_loop key arr i len c = Some c' \<and> length c' = length c \<and>
    (\<forall>v < m. c' ! v = c ! v + int (length (with_key key v (drop i (take len arr)))))"
  using assms(3,4)
proof (induction "len - i" arbitrary: i c)
  case 0
  then show ?case by (subst count_loop.simps) simp
next
  case (Suc d)
  then have i: "i < len" and d: "d = len - (i + 1)" by simp_all
  let ?x = "arr ! i"
  define j where "j = nat (key ?x)"
  have "?x \<in> set arr" using assms(1) i by simp
  then have x: "0 \<le> key ?x" "key ?x = int j" "j < m" using assms(2) by (auto simp: j_def nat_less_iff)
  define c1 where "c1 = c[j := c ! j + 1]"
  obtain c' where c': "count_loop key arr (i + 1) len c1 = Some c'" "length c' = length c1"
    "\<forall>v < m. c' ! v = c1 ! v + int (length (with_key key v (drop (i + 1) (take len arr))))"
    using Suc.hyps(1) [of "i + 1" c1] d Suc.prems(1) i by (auto simp: c1_def)
  have "drop i (take len arr) = ?x # drop (i + 1) (take len arr)"
    using i assms(1) by (simp add: Cons_nth_drop_Suc [symmetric])
  moreover have "count_loop key arr i len c = count_loop key arr (i + 1) len c1"
    using i assms(1) x Suc.prems(1) by (subst count_loop.simps) (simp add: aget_def aset_def index_def c1_def)
  ultimately show ?case
    using c' x Suc.prems(1) by (auto simp: c1_def with_key_def nth_list_update)
qed

lemma sum_loop_sums:
  assumes "i + n \<le> length c" and "0 < i"
    and "\<forall>v < i. c ! v = int (below key (Suc v) xs)" and "\<forall>v. i \<le> v \<and> v < i + n \<longrightarrow> c ! v = int (length (with_key key v xs))"
  shows "\<exists>c'. sum_loop n i c = Some c' \<and> length c' = length c \<and> (\<forall>v < i + n. c' ! v = int (below key (Suc v) xs))"
  using assms
proof (induction n arbitrary: i c)
  case (Suc n)
  define c1 where "c1 = c[i := c ! i + c ! (i - 1)]"
  have "c ! i + c ! (i - 1) = int (below key (Suc i) xs)"
    using Suc.prems by (cases i) (simp_all add: below_def)
  then have s: "\<forall>v < Suc i. c1 ! v = int (below key (Suc v) xs)"
    using Suc.prems by (auto simp: c1_def nth_list_update less_Suc_eq)
  obtain c' where "sum_loop n (Suc i) c1 = Some c'" "length c' = length c1" "\<forall>v < Suc i + n. c' ! v = int (below key (Suc v) xs)"
    using Suc.IH [of "Suc i" c1] Suc.prems s by (auto simp: c1_def)
  then show ?case using Suc.prems by (simp add: aget_def aset_def c1_def)
qed simp

text \<open>The keys below a bound split the elements.\<close>

lemma below_mono: "u < v \<Longrightarrow> below key u xs + length (with_key key u xs) \<le> below key v xs"
proof -
  assume "u < v"
  then have "below key (Suc u) xs \<le> below key v xs"
    unfolding below_def by (intro sum_mono2) auto
  then show ?thesis by (simp add: below_def)
qed

lemma below_all:
  assumes "\<forall>x \<in> set xs. 0 \<le> key x \<and> key x < int m"
  shows "below key m xs = length xs"
  using assms
proof (induction xs)
  case Nil
  then show ?case by (simp add: below_def)
next
  case (Cons x xs)
  define j where "j = nat (key x)"
  have j: "key x = int j" "j < m" using Cons.prems by (auto simp: j_def nat_less_iff)
  have "below key m (x # xs) = (\<Sum>u<m. (if u = j then 1 else 0) + length (with_key key u xs))"
    unfolding below_def by (rule sum.cong) (auto simp: with_key_def j)
  also have "\<dots> = 1 + below key m xs" using j by (simp add: sum.distrib below_def)
  finally show ?case using Cons by simp
qed

section \<open>Placing\<close>

text \<open>What the scratch arrays hold when the elements from \<open>i\<close> on are placed: the counter of a key points behind the places
  still free for it, and the places behind hold the later elements with that key, in order.\<close>

definition placed :: "(int \<Rightarrow> int) \<Rightarrow> int list \<Rightarrow> nat \<Rightarrow> nat \<Rightarrow> int list \<Rightarrow> int list \<Rightarrow> bool" where
  "placed key arr m i b c \<longleftrightarrow>
     (\<forall>v < m. c ! v = int (below key v arr + length (with_key key v (take i arr)))) \<and>
     (\<forall>v < m. \<forall>j. length (with_key key v (take i arr)) \<le> j \<and> j < length (with_key key v arr) \<longrightarrow>
        b ! (below key v arr + j) = with_key key v arr ! j)"

lemma place_step:
  assumes "placed key arr m (Suc i) b c" and "i < length arr" and "key (arr ! i) = int u" and "u < m"
    and "length arr \<le> length b" and "m \<le> length c" and "\<forall>x \<in> set arr. 0 \<le> key x \<and> key x < int m"
  defines "q \<equiv> below key u arr + length (with_key key u (take i arr))"
  shows "c ! u = int (Suc q)" and "q < length b" and "placed key arr m i (b[q := arr ! i]) (c[u := int q])"
proof -
  have t: "take (Suc i) arr = take i arr @ [arr ! i]" using assms(2) by (rule take_Suc_conv_app_nth)
  then have s: "with_key key v (take (Suc i) arr) = with_key key v (take i arr) @ (if v = u then [arr ! i] else [])" for v
    using assms(3) by simp
  show c: "c ! u = int (Suc q)" using assms(1,4) by (simp add: placed_def s q_def)
  have split: "arr = take i arr @ arr ! i # drop (Suc i) arr" using id_take_nth_drop [OF assms(2)] .
  have all: "with_key key v arr = with_key key v (take i arr) @ (if v = u then [arr ! i] else []) @ with_key key v (drop (Suc i) arr)" for v
    using arg_cong [OF split, of "with_key key v"] assms(3) by (simp add: with_key_def)
  have len: "length (with_key key u (take i arr)) < length (with_key key u arr)" using all [of u] by simp
  have range: "below key v arr + length (with_key key v arr) \<le> length arr" if "v < m" for v
    using below_mono [OF that, of key arr] below_all [OF assms(7)] by simp
  show ql: "q < length b" using len range [OF assms(4)] assms(5) by (simp add: q_def)
  have apart: "below key v arr + j \<noteq> q" if "v \<noteq> u" "v < m" "j < length (with_key key v arr)" for v j
    using that below_mono [of v u key arr] below_mono [of u v key arr] len by (cases "v < u") (auto simp: q_def)
  show "placed key arr m i (b[q := arr ! i]) (c[u := int q])"
    unfolding placed_def
  proof (intro conjI allI impI)
    fix v assume v: "v < m"
    show "c[u := int q] ! v = int (below key v arr + length (with_key key v (take i arr)))"
      using assms(1,4,6) v by (cases "v = u") (auto simp: placed_def s q_def)
    fix j assume j: "length (with_key key v (take i arr)) \<le> j \<and> j < length (with_key key v arr)"
    show "b[q := arr ! i] ! (below key v arr + j) = with_key key v arr ! j"
    proof (cases "v = u")
      case False
      then have "b ! (below key v arr + j) = with_key key v arr ! j"
        using assms(1) v j unfolding placed_def s by simp
      then show ?thesis using j apart [OF False v, of j] by simp
    next
      case True
      show ?thesis
      proof (cases "j = length (with_key key u (take i arr))")
        case here: True
        then show ?thesis using True ql all [of u] by (simp add: q_def nth_append)
      next
        case False
        with True j have "Suc (length (with_key key u (take i arr))) \<le> j" by simp
        then have "b ! (below key v arr + j) = with_key key v arr ! j"
          using assms(1) True v j unfolding placed_def s by simp
        then show ?thesis using True False by (simp add: q_def)
      qed
    qed
  qed
qed

lemma place_loop_places:
  assumes "placed key arr m i b c" and "i \<le> length arr" and "length arr \<le> length b" and "m \<le> length c"
    and "\<forall>x \<in> set arr. 0 \<le> key x \<and> key x < int m"
  shows "\<exists>b' c'. place_loop key arr i b c = Some b' \<and> placed key arr m 0 b' c' \<and> length b' = length b"
  using assms(1-4)
proof (induction i arbitrary: b c)
  case (Suc i)
  define u where "u = nat (key (arr ! i))"
  have "arr ! i \<in> set arr" using Suc.prems(2) by simp
  then have u: "key (arr ! i) = int u" "u < m" using assms(5) by (auto simp: u_def nat_less_iff)
  define q where "q = below key u arr + length (with_key key u (take i arr))"
  note step = place_step [OF Suc.prems(1) _ u Suc.prems(3,4) assms(5), folded q_def]
  have "place_loop key arr (Suc i) b c = place_loop key arr i (b[q := arr ! i]) (c[u := int q])"
    using Suc.prems u step(1,2) by (simp add: aget_def aset_def index_def)
  then show ?case
    using Suc.IH [OF step(3)] Suc.prems by simp
qed auto

text \<open>A list whose stretches are the lists with one key each is their concatenation.\<close>

lemma concat_stretches:
  assumes "\<forall>v < m. \<forall>j < length (L v). b ! ((\<Sum>u<v. length (L u)) + j) = L v ! j" and "(\<Sum>u<m. length (L u)) \<le> length b"
  shows "take (\<Sum>u<m. length (L u)) b = concat (map L [0..<m])"
  using assms
proof (induction m)
  case (Suc m)
  let ?n = "\<Sum>u<m. length (L u)"
  have "take (length (L m)) (drop ?n b) = L m"
    using Suc.prems by (intro nth_equalityI) auto
  moreover have "take ?n b = concat (map L [0..<m])" using Suc by simp
  ultimately show ?case by (simp add: take_add)
qed simp

lemma sorted_stretches:
  assumes "\<forall>v < m. sorted (map f (L v))" and "\<forall>v < m. \<forall>u < v. \<forall>x \<in> set (L u). \<forall>y \<in> set (L v). f x \<le> f y"
  shows "sorted (map f (concat (map L [0..<m])))"
  using assms
proof (induction m)
  case (Suc m)
  have "sorted (map f (concat (map L [0..<m])))" by (rule Suc.IH) (use Suc.prems less_SucI in \<open>blast+\<close>)
  then show ?case using Suc.prems by (auto simp: sorted_append)
qed simp

lemma mset_stretches:
  assumes "\<forall>x \<in> set xs. 0 \<le> key x \<and> key x < int m"
  shows "mset (concat (map (\<lambda>v. with_key key v xs) [0..<m])) = mset xs"
proof -
  have step: "filter_mset (\<lambda>x. 0 \<le> key x \<and> key x < int (Suc n)) M =
      filter_mset (\<lambda>x. 0 \<le> key x \<and> key x < int n) M + filter_mset (\<lambda>x. key x = int n) M" for M n
    by (induction M) auto
  have "mset (concat (map (\<lambda>v. with_key key v xs) [0..<n])) = filter_mset (\<lambda>x. 0 \<le> key x \<and> key x < int n) (mset xs)" for n
  proof (induction n)
    case 0
    have "filter_mset (\<lambda>x. 0 \<le> key x \<and> key x < int 0) M = {#}" for M by (induction M) auto
    then show ?case by simp
  next
    case (Suc n)
    then show ?case unfolding step by (simp add: with_key_def)
  qed
  moreover have "filter_mset (\<lambda>x. 0 \<le> key x \<and> key x < int m) (mset xs) = mset xs"
    using assms by (simp add: filter_mset_eq_conv)
  ultimately show ?thesis by simp
qed

lemma concat_is_sort_key:
  assumes "\<forall>x \<in> set xs. 0 \<le> key x \<and> key x < int m"
  shows "concat (map (\<lambda>v. with_key key v xs) [0..<m]) = sort_key key xs"
proof (rule properties_for_sort_key [symmetric])
  let ?ys = "concat (map (\<lambda>v. with_key key v xs) [0..<m])"
  show "mset ?ys = mset xs" by (rule mset_stretches [OF assms])
  show "sorted (map key ?ys)"
  proof (rule sorted_stretches)
    have "sorted (map key (with_key key v zs))" for v zs
      by (induction zs) (auto simp: with_key_def)
    then show "\<forall>v < m. sorted (map key (with_key key v xs))" by blast
  qed (auto simp: with_key_def)
  fix k assume "k \<in> set ?ys"
  then obtain v where v: "v < m" "key k = int v" by (auto simp: with_key_def)
  have one: "with_key key v (with_key key u xs) = (if u = v then with_key key v xs else [])" for u
    by (auto simp: with_key_def filter_empty_conv)
  have "with_key key v (concat (map (\<lambda>v. with_key key v xs) [0..<n])) = (if v < n then with_key key v xs else [])" for n
  proof (induction n)
    case (Suc n)
    then show ?case by (cases "n = v") (simp_all add: one)
  qed simp
  from this [of m] v(1) have "filter (\<lambda>x. key x = int v) ?ys = filter (\<lambda>x. key x = int v) xs"
    by (simp only: with_key_def if_True)
  moreover have "(\<lambda>x. key k = key x) = (\<lambda>x. key x = int v)" using v(2) by auto
  ultimately show "filter (\<lambda>x. key k = key x) ?ys = filter (\<lambda>x. key k = key x) xs" by simp
qed

section \<open>The sorts\<close>

lemma three_loops:
  assumes "\<forall>x \<in> set arr. 0 \<le> key x \<and> key x < int m" and "0 < m" and "m \<le> length c" and "\<forall>v < m. c ! v = 0"
    and "length arr \<le> length b"
  shows "\<exists>c1 c2 b1. count_loop key arr 0 (length arr) c = Some c1 \<and> sum_loop (m - 1) 1 c1 = Some c2 \<and>
    place_loop key arr (length arr) b c2 = Some b1 \<and> copy_back (length arr) b1 arr = Some (sort_key key arr) \<and> length b1 = length b"
proof -
  obtain c1 where c1: "count_loop key arr 0 (length arr) c = Some c1" "length c1 = length c"
    "\<forall>v < m. c1 ! v = int (length (with_key key v arr))"
    using count_loop_counts [of "length arr" arr key m c 0] assms by auto
  obtain c2 where c2: "sum_loop (m - 1) 1 c1 = Some c2" "length c2 = length c" "\<forall>v < m. c2 ! v = int (below key (Suc v) arr)"
    using sum_loop_sums [of 1 "m - 1" c1 key arr] c1 assms(2,3) by (auto simp: below_def)
  have "placed key arr m (length arr) b c2"
    using c2(3) by (simp add: placed_def below_def)
  then obtain b1 c3 where b1: "place_loop key arr (length arr) b c2 = Some b1" "placed key arr m 0 b1 c3" "length b1 = length b"
    using place_loop_places [of key arr m "length arr" b c2] assms c2(2) by auto
  have n: "(\<Sum>u<m. length (with_key key u arr)) = length arr"
    using below_all [OF assms(1)] by (simp add: below_def)
  then have "take (length arr) b1 = concat (map (\<lambda>v. with_key key v arr) [0..<m])"
    using concat_stretches [of m "\<lambda>v. with_key key v arr" b1] b1(2,3) assms(5) by (simp add: placed_def below_def)
  also have "\<dots> = sort_key key arr" by (rule concat_is_sort_key [OF assms(1)])
  finally have "copy_back (length arr) b1 arr = Some (sort_key key arr)"
    using b1(3) assms(5) by (simp add: copy_back_def)
  with c1 c2 b1 show ?thesis by blast
qed

lemma counting_sort_sorts:
  assumes "\<forall>x \<in> set arr. 0 \<le> x \<and> x \<le> int k" and "k < length c" and "length arr \<le> length b"
  shows "counting_sort arr (length arr) b c k = Some (sort arr)"
proof -
  let ?c = "replicate (k + 1) 0 @ drop (k + 1) c"
  have "\<exists>c1 c2 b1. count_loop (\<lambda>x. x) arr 0 (length arr) ?c = Some c1 \<and> sum_loop (k + 1 - 1) 1 c1 = Some c2 \<and>
      place_loop (\<lambda>x. x) arr (length arr) b c2 = Some b1 \<and> copy_back (length arr) b1 arr = Some (sort_key (\<lambda>x. x) arr) \<and>
      length b1 = length b"
  proof (rule three_loops)
    have "?c ! v = 0" if "v < k + 1" for v
      using that nth_replicate [OF that] nth_append [of "replicate (k + 1) 0" "drop (k + 1) c" v] by (simp only: length_replicate if_True)
    then show "\<forall>v < k + 1. ?c ! v = 0" by blast
  qed (use assms in auto)
  then show ?thesis using assms(2) by (auto simp: counting_sort_def)
qed

lemma sort_key_same:
  assumes "\<forall>x \<in> set ys. h x = c"
  shows "sort_key h ys = ys"
proof (rule sort_key_id_if_sorted)
  have "map h ys = replicate (length ys) c" using assms by (simp add: map_replicate_const [symmetric])
  then show "sorted (map h ys)" by (simp only: sorted_replicate)
qed

text \<open>Sorting by a digit a list that is sorted by the lower digits sorts it by both.\<close>

lemma sort_by_digit:
  fixes i :: int
  assumes "0 < i"
  shows "sort_key (\<lambda>x. x div i mod 10) (sort_key (\<lambda>x. x mod i) xs) = sort_key (\<lambda>x. x mod (i * 10)) xs"
proof (rule properties_for_sort_key [symmetric])
  let ?g = "\<lambda>x. x div i mod 10" and ?f = "\<lambda>x. x mod (i * 10)"
  define zs where "zs = sort_key (\<lambda>x. x mod i) xs"
  have f: "x mod (i * 10) = i * (x div i mod 10) + x mod i" for x by (rule zmod_zmult2_eq) simp
  show "mset (sort_key ?g (sort_key (\<lambda>x. x mod i) xs)) = mset xs" by simp
  have same: "x div i mod 10 = y div i mod 10 \<and> x mod i = y mod i" if "x mod (i * 10) = y mod (i * 10)" for x y
  proof -
    have "x mod (i * 10) mod i = x mod i" for x by (simp add: mod_mult_self1 mod_mod_cancel)
    then have "x mod i = y mod i" using that by metis
    moreover have "i * (x div i mod 10) = i * (y div i mod 10)" using that calculation f [of x] f [of y] by simp
    ultimately show ?thesis using assms by simp
  qed
  show "filter (\<lambda>x. ?f k = ?f x) (sort_key ?g (sort_key (\<lambda>x. x mod i) xs)) = filter (\<lambda>x. ?f k = ?f x) xs" for k
  proof -
    define P where "P = (\<lambda>x. ?f k = ?f x)"
    have "sort_key (\<lambda>x. x mod i) (filter P xs) = filter P xs"
      by (rule sort_key_same [of _ _ "k mod i"]) (use same [of k] in \<open>auto simp: P_def\<close>)
    moreover have "sort_key ?g (filter P xs) = filter P xs"
      by (rule sort_key_same [of _ _ "k div i mod 10"]) (use same [of k] in \<open>auto simp: P_def\<close>)
    ultimately show ?thesis unfolding P_def [symmetric] by (simp only: filter_sort)
  qed
  have z: "concat (map (\<lambda>v. with_key ?g v zs) [0..<10]) = sort_key ?g zs"
    by (rule concat_is_sort_key) simp
  have "sorted (map ?f (concat (map (\<lambda>v. with_key ?g v zs) [0..<10])))"
  proof (rule sorted_stretches)
    have "sorted (map (\<lambda>x. x mod i) (with_key ?g v zs))" for v
      unfolding with_key_def zs_def by (rule sorted_filter) simp
    moreover have "map ?f (with_key ?g v zs) = map (\<lambda>y. i * int v + y) (map (\<lambda>x. x mod i) (with_key ?g v zs))" for v
      by (auto simp: with_key_def f)
    moreover have "sorted (map (\<lambda>y. i * int v + y) ys)" if "sorted ys" for v ys
      using that by (induction ys) auto
    ultimately show "\<forall>v<10. sorted (map ?f (with_key ?g v zs))" by metis
    have "?f x \<le> ?f y" if "u < v" "x \<in> set (with_key ?g u zs)" "y \<in> set (with_key ?g v zs)" for u v x y
    proof -
      have "x div i mod 10 = int u" "y div i mod 10 = int v" using that by (auto simp: with_key_def)
      moreover have "i * int u + i \<le> i * int v"
        using assms that(1) mult_left_mono [of "int u + 1" "int v" i] by (simp add: algebra_simps)
      moreover have "x mod i < i" "0 \<le> y mod i" using assms by simp_all
      ultimately show ?thesis unfolding f by simp
    qed
    then show "\<forall>v<10. \<forall>u<v. \<forall>x\<in>set (with_key ?g u zs). \<forall>y\<in>set (with_key ?g v zs). ?f x \<le> ?f y" by blast
  qed
  then show "sorted (map ?f (sort_key ?g (sort_key (\<lambda>x. x mod i) xs)))"
    unfolding zs_def [symmetric] by (simp only: z)
qed

lemma nonneg_division: "0 \<le> x \<Longrightarrow> 0 < y \<Longrightarrow> x sdiv y = x div y" "0 \<le> x \<Longrightarrow> 0 < y \<Longrightarrow> x smod y = x mod y" for x y :: int
  by (cases "x = 0"; simp add: signed_divide_int_def signed_modulo_int_def minus_mult_div_eq_mod sgn_if)+

lemma sort_key_eqI:
  assumes "\<And>x. x \<in> set xs \<Longrightarrow> f x = g x"
  shows "sort_key f xs = sort_key g xs"
proof -
  have ins: "insort_key f x ys = insort_key g x ys" if "f x = g x" "\<forall>y \<in> set ys. f y = g y" for x ys
    using that by (induction ys) auto
  show ?thesis using assms by (induction xs) (simp_all add: ins)
qed

lemma radix_pass:
  assumes "\<forall>x \<in> set arr. 0 \<le> x" and "0 < i" and "length arr \<le> length b" and "10 \<le> length c" and "\<forall>v < 10. c ! v = 0"
  shows "\<exists>b1. radix_count_sort arr b (length arr) i 10 c = Some (sort_key (\<lambda>x. x div i mod 10) arr, b1) \<and> length b1 = length b"
proof -
  have d: "radix_digit i 10 x = x div i mod 10" if "x \<in> set arr" for x
    using that assms(1,2) by (simp add: radix_digit_def nonneg_division pos_imp_zdiv_nonneg_iff)
  then have "sort_key (radix_digit i 10) arr = sort_key (\<lambda>x. x div i mod 10) arr"
    by (rule sort_key_eqI)
  then show ?thesis
    using three_loops [of arr "radix_digit i 10" 10 c b] d assms by (auto simp: radix_count_sort_def)
qed

lemma radix_loop_sorts:
  assumes "arr = sort_key (\<lambda>x. x mod 10 ^ d) xs" and "\<forall>x \<in> set xs. 0 \<le> x \<and> x \<le> mx" and "0 \<le> mx" "mx < 10 ^ 9"
    and "length xs \<le> length b" and "9 - d \<le> length cs" and "\<forall>c \<in> set cs. 10 \<le> length c \<and> (\<forall>v < 10. c ! v = 0)" and "d \<le> 9"
  shows "radix_loop arr b (length xs) (10 ^ d) mx cs = Some (sort xs)"
  using assms
proof (induction cs arbitrary: arr b d)
  case Nil
  then have "d = 9" by simp
  then have "mx sdiv 10 ^ d = 0" using Nil.prems(3,4) by (simp add: nonneg_division div_pos_pos_trivial)
  moreover have "arr = sort xs"
    unfolding Nil.prems(1) using Nil.prems(2,4) \<open>d = 9\<close> by (intro sort_key_eqI) (auto simp: mod_pos_pos_trivial)
  ultimately show ?case by simp
next
  case (Cons c cs)
  have q: "mx sdiv 10 ^ d = mx div 10 ^ d" using Cons.prems(3) by (simp add: nonneg_division)
  show ?case
  proof (cases "mx div 10 ^ d > 0")
    case False
    then have "mx < 10 ^ d" using Cons.prems(3) pos_imp_zdiv_pos_iff [of "10 ^ d" mx] by auto
    then have "arr = sort xs"
      unfolding Cons.prems(1) using Cons.prems(2) by (intro sort_key_eqI) (auto simp: mod_pos_pos_trivial)
    then show ?thesis using False q by simp
  next
    case True
    have d: "d < 9"
    proof (rule ccontr)
      assume "\<not> d < 9"
      then have "d = 9" using Cons.prems(8) by simp
      then show False using True Cons.prems(3,4) by (simp add: div_pos_pos_trivial)
    qed
    have len: "length arr = length xs" and set: "set arr = set xs" by (simp_all add: Cons.prems(1))
    obtain b1 where b1: "radix_count_sort arr b (length xs) (10 ^ d) 10 c = Some (sort_key (\<lambda>x. x div 10 ^ d mod 10) arr, b1)"
      "length b1 = length b"
      using radix_pass [of arr "10 ^ d" b c] Cons.prems len set by auto
    have "sort_key (\<lambda>x. x div 10 ^ d mod 10) arr = sort_key (\<lambda>x. x mod 10 ^ Suc d) xs"
      unfolding Cons.prems(1) by (subst sort_by_digit) (simp_all add: mult.commute)
    then have "radix_loop (sort_key (\<lambda>x. x div 10 ^ d mod 10) arr) b1 (length xs) (10 ^ Suc d) mx cs = Some (sort xs)"
      using Cons.prems b1(2) d by (intro Cons.IH) auto
    moreover have "(10 :: int) ^ d * 10 < 2 ^ 31"
      using d power_increasing [of "Suc d" 9 "10 :: int"] by (simp add: mult.commute)
    ultimately show ?thesis using True q b1(1) by (simp add: mult.commute)
  qed
qed

text \<open>With other contents of the allocated memory a pass leaves the array.\<close>

lemma radix_garbage: "radix_sort [5] [0] 1 10 5 [[0, 0, 0, 0, 0, 7, 0, 0, 0, 0]] = None"
  by (simp add: radix_sort_def radix_count_sort_def radix_digit_def nonneg_division count_loop.simps aget_def aset_def
      index_def eval_nat_numeral)

section \<open>The searches\<close>

lemma linear_loop_finds:
  assumes "n \<le> length arr"
  shows "linear_loop arr i n elem =
    (case find (\<lambda>k. arr ! k = elem) [i..<n] of None \<Rightarrow> Some (-1) | Some k \<Rightarrow> Some (int k))"
  using assms
proof (induction "n - i" arbitrary: i)
  case 0
  then show ?case by (subst linear_loop.simps) simp
next
  case (Suc m)
  then have "i < n" "m = n - Suc i" by simp_all
  then show ?case
    using Suc.hyps(1) [of "Suc i"] Suc.prems by (subst linear_loop.simps) (simp add: aget_def upt_conv_Cons)
qed

text \<open>The interval that holds an occurrence shrinks to it.\<close>

lemma binary_finds:
  assumes "sorted arr" and "low \<le> k" and "k < high" and "high \<le> length arr" and "arr ! k = elem"
  shows "\<exists>r. binary_loop arr low high elem = Some (int r) \<and> arr ! r = elem"
  using assms(2-5)
proof (induction "high - low" arbitrary: low high k rule: less_induct)
  case less
  define mid where "mid = (low + high) div 2"
  have m: "low \<le> mid" "mid < high" using less.prems by (auto simp: mid_def)
  have step: "binary_loop arr low high elem =
      (if arr ! mid = elem then Some (int mid) else if arr ! mid < elem then binary_loop arr mid high elem else binary_loop arr low mid elem)"
    using less.prems m by (subst binary_loop.simps) (simp add: aget_def mid_def [symmetric])
  consider "arr ! mid = elem" | "arr ! mid < elem" | "elem < arr ! mid" by linarith
  then show ?case
  proof cases
    case 1
    then show ?thesis by (simp add: step)
  next
    case 2
    then have k: "mid < k" using less.prems assms(1) m by (metis leD leI le_less_trans less_imp_le sorted_nth_mono)
    then have "low < mid" using less.prems m unfolding mid_def by linarith
    then show ?thesis using less.hyps [of high mid k] less.prems k m 2 by (simp add: step)
  next
    case 3
    then have "k < mid" using less.prems assms(1) m by (metis leD leI sorted_nth_mono less_le_trans)
    then show ?thesis using less.hyps [of mid low k] less.prems m 3 by (simp add: step)
  qed
qed

lemma binary_all_greater:
  assumes "high \<le> length arr" and "\<forall>x \<in> set arr. elem < x"
  shows "binary_loop arr 0 high elem = Some (-1)"
  using assms(1)
proof (induction high rule: less_induct)
  case (less high)
  show ?case
  proof (cases "0 < high")
    case True
    then have h: "high div 2 < length arr" "high div 2 < high" using less.prems by auto
    then have "elem < arr ! (high div 2)" using assms(2) by simp
    then show ?thesis
      using less.IH [OF h(2)] h(1) less.prems True by (subst binary_loop.simps) (simp add: aget_def Let_def)
  qed (subst binary_loop.simps, simp)
qed

text \<open>With a smaller element at the lower end the lower end never passes it.\<close>

definition stuck_at :: "int list \<Rightarrow> nat \<Rightarrow> nat \<Rightarrow> int \<Rightarrow> bool" where
  "stuck_at arr low high elem \<longleftrightarrow> low < high \<and> high \<le> length arr \<and> elem \<notin> set arr \<and> arr ! low < elem"

lemma stuck_step:
  assumes "stuck_at arr low high elem" and "mid = (low + high) div 2"
  shows "mid < length arr" "arr ! mid \<noteq> elem" "arr ! mid < elem \<Longrightarrow> stuck_at arr mid high elem"
    "elem < arr ! mid \<Longrightarrow> stuck_at arr low mid elem"
proof -
  have m: "low \<le> mid" "mid < high" using assms by (auto simp: stuck_at_def)
  then show "mid < length arr" using assms(1) by (simp add: stuck_at_def)
  then show "arr ! mid \<noteq> elem" using assms(1) nth_mem unfolding stuck_at_def by metis
  show "arr ! mid < elem \<Longrightarrow> stuck_at arr mid high elem" using assms(1) m by (simp add: stuck_at_def)
  show "stuck_at arr low mid elem" if "elem < arr ! mid"
  proof -
    have "low \<noteq> mid" using that assms(1) by (auto simp: stuck_at_def)
    then show ?thesis using assms(1) m by (simp add: stuck_at_def)
  qed
qed

lemma binary_stuck: "binary_loop arr low high elem = Some r \<Longrightarrow> \<not> stuck_at arr low high elem"
proof -
  have "\<not> stuck_at xs a b e" if "binary_loop xs a b e = Some v" for xs a b e v
  proof (induction rule: binary_loop.raw_induct [OF _ that])
    case (1 self xs a b e v)
    show ?case
    proof
      assume s: "stuck_at xs a b e"
      have "a < b" using s by (simp add: stuck_at_def)
      with stuck_step [OF s refl] 1 show False
        by (auto simp: aget_def Let_def split: if_splits)
    qed
  qed
  then show "binary_loop arr low high elem = Some r \<Longrightarrow> ?thesis" .
qed

section \<open>Properties\<close>

text \<open>C30: counting sort and, when the memory it allocates is zero, radix sort return the sorted array and stay inside
  their arrays, for elements from 0 to the bound they are given.\<close>

theorem counting_sorts_are_sort:
  assumes "\<forall>x \<in> set arr. 0 \<le> x \<and> x \<le> int k" and "length arr \<le> length b"
  shows "(k < length c \<longrightarrow> counting_sort arr (length arr) b c k = Some (sort arr)) \<and>
    (k < 10 ^ 9 \<and> 9 \<le> length cs \<and> (\<forall>c \<in> set cs. c = replicate 10 0) \<longrightarrow>
      radix_sort arr b (length arr) base (int k) cs = Some (sort arr))"
proof (intro conjI impI)
  assume "k < length c"
  then show "counting_sort arr (length arr) b c k = Some (sort arr)" using counting_sort_sorts assms by blast
next
  assume k: "k < 10 ^ 9 \<and> 9 \<le> length cs \<and> (\<forall>c \<in> set cs. c = replicate 10 0)"
  have one: "sort_key (\<lambda>x. x mod 10 ^ 0) arr = arr" by (rule sort_key_same [of _ _ 0]) simp
  have zero: "\<forall>c \<in> set cs. 10 \<le> length c \<and> (\<forall>v < 10. c ! v = 0)" using k by (metis length_replicate nth_replicate order_refl)
  have "int k < 10 ^ 9" using k by simp
  with one zero k assms show "radix_sort arr b (length arr) base (int k) cs = Some (sort arr)"
    using radix_loop_sorts [of arr 0 arr "int k" b cs] by (simp add: radix_sort_def)
qed

theorem counting_sorts_are_sort_witness:
  "counting_sort [3, 1, 2] (Suc (Suc (Suc 0))) [0, 0, 0] [9, 9, 9, 9] 3 = Some [1, 2, 3] \<and>
   radix_sort [31, 12, 22] [0, 0, 0] (Suc (Suc (Suc 0))) 10 31 (replicate 9 (replicate 10 0)) = Some [12, 22, 31]"
  using counting_sorts_are_sort [of "[3, 1, 2]" 3 "[0, 0, 0]" "[9, 9, 9, 9]" "[]" 10]
    counting_sorts_are_sort [of "[31, 12, 22]" 31 "[0, 0, 0]" "[]" "replicate 9 (replicate 10 0)" 10]
  by simp



end
