(* ===== verification/Heapq.thy ===== *)
theory Heapq
  imports Sorting
begin

text \<open>
  The array heap of \<^verbatim>\<open>libc/datastructures/trees/heap/heap.c\<close>: a priority queue and heap sort, with the comparison a
  function the caller passes.

  The root is at index 1; arrays are checked lists as for the other sorts.  The contract of the two
  directions of percolation is the locale \<open>percolation\<close>; the functions of the file are two instances of it,
  because they ask the comparison in opposite ways.
\<close>

section \<open>Model\<close>

record heap =
  hp_arr :: "int list"
  arr_len :: nat
  heap_size :: nat

abbreviation ROOT :: nat where "ROOT \<equiv> 1"

definition parent :: "nat \<Rightarrow> nat" where "parent i = i div 2"
definition left :: "nat \<Rightarrow> nat" where "left i = 2 * i"
definition right :: "nat \<Rightarrow> nat" where "right i = 2 * i + 1"

partial_function (option) percolateUp :: "(int \<Rightarrow> int \<Rightarrow> bool) \<Rightarrow> int list \<Rightarrow> nat \<Rightarrow> int list option" where
  "percolateUp cmp arr i =
     (if i \<noteq> ROOT then
        Option.bind (aget arr i) (\<lambda>x. Option.bind (aget arr (parent i)) (\<lambda>y.
          if \<not> cmp x y then Option.bind (swap arr i (parent i)) (\<lambda>arr1. percolateUp cmp arr1 (parent i)) else Some arr))
      else Some arr)"

text \<open>The body the two downward percolations share; \<open>sc p c\<close> says that a parent and a child have to change places.\<close>

definition down_step :: "(int \<Rightarrow> int \<Rightarrow> bool) \<Rightarrow> int list \<Rightarrow> nat \<Rightarrow> nat \<Rightarrow> nat option" where
  "down_step sc arr n i = do {
     s1 \<leftarrow> (if left i \<le> n then do { x \<leftarrow> aget arr i; y \<leftarrow> aget arr (left i); Some (if sc x y then left i else i) } else Some i);
     (if right i \<le> n then do { x \<leftarrow> aget arr s1; y \<leftarrow> aget arr (right i); Some (if sc x y then right i else s1) } else Some s1) }"

lemma down_step_range: "down_step sc arr n i = Some s \<Longrightarrow> s = i \<or> i < s \<and> s \<le> n"
  by (auto simp: down_step_def left_def right_def bind_eq_Some_conv split: if_splits)

function percolate :: "(int \<Rightarrow> int \<Rightarrow> bool) \<Rightarrow> int list \<Rightarrow> nat \<Rightarrow> nat \<Rightarrow> int list option" where
  "percolate sc arr n i =
     (case down_step sc arr n i of
        None \<Rightarrow> None
      | Some s \<Rightarrow> if i \<noteq> s then (case swap arr i s of None \<Rightarrow> None | Some arr1 \<Rightarrow> percolate sc arr1 n s) else Some arr)"
  by pat_completeness auto
termination
  by (relation "measure (\<lambda>(sc, arr, n, i). Suc n - i)") (auto dest: down_step_range)

declare percolate.simps [simp del]

definition percolateDown :: "(int \<Rightarrow> int \<Rightarrow> bool) \<Rightarrow> int list \<Rightarrow> nat \<Rightarrow> nat \<Rightarrow> int list option" where
  "percolateDown cmp arr n i = percolate (\<lambda>p c. \<not> cmp p c) arr n i"

definition percolateDown' :: "(int \<Rightarrow> int \<Rightarrow> bool) \<Rightarrow> int list \<Rightarrow> nat \<Rightarrow> nat \<Rightarrow> int list option" where
  "percolateDown' cmp arr n i = percolate cmp arr n i"

text \<open>The first component is the returned value; without an error the function ends without a value.\<close>

definition heap_insert :: "(int \<Rightarrow> int \<Rightarrow> bool) \<Rightarrow> int \<Rightarrow> heap \<Rightarrow> (int option \<times> heap) option" where
  "heap_insert cmp val h =
     (if heap_size h = arr_len h then Some (Some (-1), h)
      else do {
        let n = heap_size h + 1;
        a1 \<leftarrow> aset (hp_arr h) n val;
        a2 \<leftarrow> percolateUp cmp a1 n;
        Some (None, h\<lparr>hp_arr := a2, heap_size := n\<rparr>) })"

definition heap_pop :: "(int \<Rightarrow> int \<Rightarrow> bool) \<Rightarrow> heap \<Rightarrow> (int \<times> heap) option" where
  "heap_pop cmp h =
     (if heap_size h = 0 then Some (-1, h)
      else do {
        ret \<leftarrow> aget (hp_arr h) ROOT;
        a1 \<leftarrow> swap (hp_arr h) ROOT (heap_size h);
        a2 \<leftarrow> percolateDown' cmp a1 (heap_size h - 1) ROOT;
        Some (ret, h\<lparr>hp_arr := a2, heap_size := heap_size h - 1\<rparr>) })"

primrec build_loop :: "(int \<Rightarrow> int \<Rightarrow> bool) \<Rightarrow> nat \<Rightarrow> nat \<Rightarrow> int list \<Rightarrow> int list option" where
  "build_loop cmp n 0 arr = Some arr"
| "build_loop cmp n (Suc i) arr = Option.bind (percolateDown cmp arr n (Suc i)) (build_loop cmp n i)"

definition build_heap :: "(int \<Rightarrow> int \<Rightarrow> bool) \<Rightarrow> heap \<Rightarrow> heap option" where
  "build_heap cmp h =
     map_option (\<lambda>a. h\<lparr>hp_arr := a, heap_size := arr_len h\<rparr>) (build_loop cmp (arr_len h) (arr_len h) (hp_arr h))"

primrec sort_loop :: "(int \<Rightarrow> int \<Rightarrow> bool) \<Rightarrow> nat \<Rightarrow> heap \<Rightarrow> heap option" where
  "sort_loop cmp 0 h = Some h"
| "sort_loop cmp (Suc i) h = do {
     a1 \<leftarrow> swap (hp_arr h) (Suc i) ROOT;
     a2 \<leftarrow> percolateDown cmp a1 (heap_size h - 1) ROOT;
     sort_loop cmp i (h\<lparr>hp_arr := a2, heap_size := heap_size h - 1\<rparr>) }"

definition heapsort :: "(int \<Rightarrow> int \<Rightarrow> bool) \<Rightarrow> heap \<Rightarrow> heap option" where
  "heapsort cmp h = do { h1 \<leftarrow> build_heap cmp h; sort_loop cmp (arr_len h1) h1 }"

section \<open>Heap order\<close>

text \<open>Changes of an array inside the first \<open>n\<close> places behind index 0.\<close>

definition rearranged :: "nat \<Rightarrow> int list \<Rightarrow> int list \<Rightarrow> bool" where
  "rearranged n a a' \<longleftrightarrow> length a' = length a \<and> mset a' = mset a \<and> a' ! 0 = a ! 0 \<and> (\<forall>j. n < j \<longrightarrow> j < length a \<longrightarrow> a' ! j = a ! j)"

lemma rearranged_refl [simp]: "rearranged n a a"
  by (simp add: rearranged_def)

lemma rearranged_trans: "rearranged n a b \<Longrightarrow> rearranged n b c \<Longrightarrow> rearranged n a c"
  by (simp add: rearranged_def)

lemma rearranged_swap:
  assumes "0 < i" "i \<le> n" "0 < j" "j \<le> n" "n < length a"
  shows "rearranged n a (a[i := a ! j, j := a ! i])"
  using assms mset_swapped [of i a j] by (auto simp: rearranged_def)

text \<open>The elements of a heap, and how rearranging keeps them.\<close>

definition elems :: "int list \<Rightarrow> nat \<Rightarrow> int multiset" where
  "elems a n = mset (take n (drop 1 a))"

lemma elems_split:
  assumes "n < length a"
  shows "mset a = {#a ! 0#} + elems a n + mset (drop (Suc n) a)"
proof -
  have "a = a ! 0 # drop 1 a" using assms by (cases a) auto
  then have "mset a = {#a ! 0#} + mset (drop 1 a)" by (metis mset.simps(2) add_mset_add_single union_commute)
  also have "mset (drop 1 a) = elems a n + mset (drop n (drop 1 a))"
    unfolding elems_def by (metis append_take_drop_id mset_append)
  finally show ?thesis by simp
qed

lemma elems_rearranged:
  assumes "rearranged n a a'" and "n < length a"
  shows "elems a' n = elems a n"
proof -
  have "drop (Suc n) a' = drop (Suc n) a"
    using assms by (auto simp: rearranged_def intro!: nth_equalityI)
  moreover have "n < length a'" using assms by (simp add: rearranged_def)
  ultimately show ?thesis
    using elems_split [OF assms(2)] elems_split [of n a'] assms(1) by (auto simp: rearranged_def)
qed

lemma elems_Suc: "Suc n < length a \<Longrightarrow> elems a (Suc n) = add_mset (a ! Suc n) (elems a n)"
  by (simp add: elems_def take_Suc_conv_app_nth)

lemma in_elems: "n < length a \<Longrightarrow> x \<in># elems a n \<longleftrightarrow> (\<exists>j. 0 < j \<and> j \<le> n \<and> x = a ! j)"
proof -
  assume "n < length a"
  then have "x \<in># elems a n \<longleftrightarrow> (\<exists>k < n. x = a ! Suc k)"
    by (auto simp: elems_def in_set_conv_nth)
  also have "\<dots> \<longleftrightarrow> (\<exists>j. 0 < j \<and> j \<le> n \<and> x = a ! j)"
    by (metis Suc_le_eq Suc_pred zero_less_Suc)
  finally show ?thesis .
qed

text \<open>\<open>wk p c\<close>: a parent and a child are in order.  The order holds for the children of every node from \<open>i\<close> on.\<close>

definition heap_from :: "(int \<Rightarrow> int \<Rightarrow> bool) \<Rightarrow> int list \<Rightarrow> nat \<Rightarrow> nat \<Rightarrow> bool" where
  "heap_from wk a n i \<longleftrightarrow> (\<forall>j. 2 \<le> j \<and> j \<le> n \<and> i \<le> j div 2 \<longrightarrow> wk (a ! (j div 2)) (a ! j))"

text \<open>The order with an exception below \<open>k\<close>, and with an exception above \<open>k\<close>.\<close>

definition except_below :: "(int \<Rightarrow> int \<Rightarrow> bool) \<Rightarrow> int list \<Rightarrow> nat \<Rightarrow> nat \<Rightarrow> nat \<Rightarrow> bool" where
  "except_below wk a n i k \<longleftrightarrow>
     (\<forall>j. 2 \<le> j \<and> j \<le> n \<and> i \<le> j div 2 \<and> j div 2 \<noteq> k \<longrightarrow> wk (a ! (j div 2)) (a ! j)) \<and>
     (\<forall>j. 2 \<le> j \<and> j \<le> n \<and> j div 2 = k \<and> 2 \<le> k \<and> i \<le> k div 2 \<longrightarrow> wk (a ! (k div 2)) (a ! j))"

definition except_above :: "(int \<Rightarrow> int \<Rightarrow> bool) \<Rightarrow> int list \<Rightarrow> nat \<Rightarrow> nat \<Rightarrow> bool" where
  "except_above wk a n k \<longleftrightarrow>
     (\<forall>j. 2 \<le> j \<and> j \<le> n \<and> j \<noteq> k \<longrightarrow> wk (a ! (j div 2)) (a ! j)) \<and>
     (\<forall>j. 2 \<le> j \<and> j \<le> n \<and> j div 2 = k \<and> 2 \<le> k \<longrightarrow> wk (a ! (k div 2)) (a ! j))"

lemma heap_root_first:
  assumes "heap_from wk a n 1" and "\<And>x. wk x x" and "\<And>x y z. wk x y \<Longrightarrow> wk y z \<Longrightarrow> wk x z" and "0 < j" and "j \<le> n"
  shows "wk (a ! 1) (a ! j)"
  using assms(4,5)
proof (induction j rule: less_induct)
  case (less j)
  show ?case
  proof (cases "j = 1")
    case False
    then have j: "2 \<le> j" "0 < j div 2" "j div 2 < j" using less.prems by auto
    then have "wk (a ! 1) (a ! (j div 2))" using less by simp
    moreover have "wk (a ! (j div 2)) (a ! j)" using assms(1) j less.prems by (auto simp: heap_from_def)
    ultimately show ?thesis by (rule assms(3))
  qed (simp add: assms(2))
qed

section \<open>Percolation\<close>

text \<open>The contract: \<open>sc\<close> asks for a change of places, \<open>wk\<close> is the order this establishes.\<close>

locale percolation =
  fixes sc wk :: "int \<Rightarrow> int \<Rightarrow> bool"
  assumes swapped: "sc p c \<Longrightarrow> wk c p" and kept: "\<not> sc p c \<Longrightarrow> wk p c" and wk_trans: "wk x y \<Longrightarrow> wk y z \<Longrightarrow> wk x z"
begin

lemma wk_refl: "wk x x"
  using swapped kept by blast

lemma wk_total: "\<not> wk x y \<Longrightarrow> wk y x"
  using swapped kept by blast

lemma down_step_stays:
  assumes "down_step sc a n k = Some k" and "n < length a" and "0 < k" and "2 \<le> j" "j \<le> n" "j div 2 = k"
  shows "wk (a ! k) (a ! j)"
proof -
  have "j = 2 * k \<or> j = 2 * k + 1" using assms(6) by presburger
  then show ?thesis
    using assms kept by (auto simp: down_step_def left_def right_def aget_def split: if_splits)
qed

lemma down_step_moves:
  assumes "down_step sc a n k = Some s" and "s \<noteq> k" and "n < length a" and "0 < k"
  shows "s div 2 = k" "s \<le> n" "wk (a ! s) (a ! k)" "\<And>j. 2 \<le> j \<Longrightarrow> j \<le> n \<Longrightarrow> j div 2 = k \<Longrightarrow> wk (a ! s) (a ! j)"
proof -
  have len: "k < length a" "2 * k \<le> n \<Longrightarrow> 2 * k < length a" "2 * k + 1 \<le> n \<Longrightarrow> 2 * k + 1 < length a"
    using assms down_step_range [OF assms(1)] by auto
  have cases: "s = 2 * k \<and> 2 * k \<le> n \<and> sc (a ! k) (a ! (2 * k)) \<and> (2 * k + 1 \<le> n \<longrightarrow> \<not> sc (a ! (2 * k)) (a ! (2 * k + 1))) \<or>
      s = 2 * k + 1 \<and> 2 * k + 1 \<le> n \<and> (sc (a ! k) (a ! (2 * k)) \<and> sc (a ! (2 * k)) (a ! (2 * k + 1)) \<or>
        \<not> sc (a ! k) (a ! (2 * k)) \<and> sc (a ! k) (a ! (2 * k + 1)))"
    using assms(1,2,4) len by (auto simp: down_step_def left_def right_def aget_def split: if_splits)
  then show "s div 2 = k" "s \<le> n" by auto
  show "wk (a ! s) (a ! k)" using cases swapped wk_trans by blast
  fix j assume "2 \<le> j" "j \<le> n" "j div 2 = k"
  then have "j = 2 * k \<or> j = 2 * k + 1" by presburger
  then show "wk (a ! s) (a ! j)"
    using cases swapped kept wk_trans wk_refl \<open>j \<le> n\<close> by blast
qed

lemma except_below_moves:
  assumes "except_below wk a n i k" and "down_step sc a n k = Some s" and "s \<noteq> k" and "n < length a" and "0 < k"
  shows "except_below wk (a[k := a ! s, s := a ! k]) n i s"
proof -
  note m = down_step_moves [OF assms(2-5)]
  let ?b = "a[k := a ! s, s := a ! k]"
  have lens: "k < s" "s < length a" "k < length a" using m assms by auto
  have at: "?b ! k = a ! s" "?b ! s = a ! k" "\<And>j. j \<noteq> k \<Longrightarrow> j \<noteq> s \<Longrightarrow> ?b ! j = a ! j"
    using lens by auto
  show ?thesis
    unfolding except_below_def
  proof (intro conjI allI impI)
    fix j assume j: "2 \<le> j \<and> j \<le> n \<and> i \<le> j div 2 \<and> j div 2 \<noteq> s"
    show "wk (?b ! (j div 2)) (?b ! j)"
    proof (cases "j div 2 = k")
      case True
      then show ?thesis using at m(3,4) j by (cases "j = s") auto
    next
      case p: False
      then have "j \<noteq> s" using m(1) by auto
      show ?thesis
      proof (cases "j = k")
        case True
        have "wk (a ! (k div 2)) (a ! s)"
          using assms(1) j True m(1,2) lens unfolding except_below_def by auto
        then show ?thesis using True p at j \<open>j \<noteq> s\<close> by auto
      next
        case False
        then show ?thesis using assms(1) j p at \<open>j \<noteq> s\<close> unfolding except_below_def by auto
      qed
    qed
  next
    fix j assume j: "2 \<le> j \<and> j \<le> n \<and> j div 2 = s \<and> 2 \<le> s \<and> i \<le> s div 2"
    have "j \<noteq> k" "j \<noteq> s" using j lens by auto
    moreover have "wk (a ! s) (a ! j)"
      using assms(1) j m(1) lens unfolding except_below_def by (auto dest!: spec [of _ j])
    ultimately show "wk (?b ! (s div 2)) (?b ! j)" using at m(1) by simp
  qed
qed

lemma down_step_total:
  assumes "n < length a" and "0 < k"
  shows "\<exists>s. down_step sc a n k = Some s"
  using assms by (auto simp: down_step_def left_def right_def aget_def)

lemma percolate_orders:
  assumes "except_below wk a n i k" and "n < length a" and "0 < k" and "0 < i"
  shows "\<exists>a'. percolate sc a n k = Some a' \<and> rearranged n a a' \<and> heap_from wk a' n i"
  using assms(1-3)
proof (induction "Suc n - k" arbitrary: a k rule: less_induct)
  case less
  obtain s where s: "down_step sc a n k = Some s" using down_step_total less.prems by blast
  show ?case
  proof (cases "s = k")
    case True
    have "heap_from wk a n i"
      using less.prems(1) down_step_stays [OF s [unfolded True] less.prems(2,3)]
      unfolding except_below_def heap_from_def by auto
    then show ?thesis using s True by (subst percolate.simps) simp
  next
    case False
    note m = down_step_moves [OF s False less.prems(2,3)]
    define b where "b = a[k := a ! s, s := a ! k]"
    have lens: "k < s" "s < length a" "k < length a" using m less.prems by auto
    have e: "except_below wk b n i s"
      unfolding b_def by (rule except_below_moves [OF less.prems(1) s False less.prems(2,3)])
    have "Suc n - s < Suc n - k" using m(2) lens(1) by simp
    from less.hyps [OF this e] obtain a' where a': "percolate sc b n s = Some a'" "rearranged n b a'" "heap_from wk a' n i"
      using lens less.prems(2) by (auto simp: b_def)
    have "rearranged n a b"
      unfolding b_def using m lens less.prems by (intro rearranged_swap) auto
    then have "rearranged n a a'" using a'(2) rearranged_trans by blast
    then show ?thesis
      using a' s False lens by (subst percolate.simps) (simp add: swap_Some b_def)
  qed
qed

text \<open>Upwards, the comparison is the order itself.\<close>

lemma except_above_moves:
  assumes "except_above wk a n k" and "\<not> wk (a ! (k div 2)) (a ! k)" and "2 \<le> k" "k \<le> n" and "n < length a"
  shows "except_above wk (a[k := a ! (k div 2), k div 2 := a ! k]) n (k div 2)"
proof -
  define s where "s = k div 2"
  let ?b = "a[k := a ! s, s := a ! k]"
  have lens: "s < k" "0 < s" "s < length a" "k < length a" using assms by (auto simp: s_def)
  have at: "?b ! k = a ! s" "?b ! s = a ! k" "\<And>j. j \<noteq> k \<Longrightarrow> j \<noteq> s \<Longrightarrow> ?b ! j = a ! j"
    using lens by auto
  have w: "wk (a ! k) (a ! s)" using assms(2) wk_total by (simp add: s_def)
  have pair: "wk (a ! (j div 2)) (a ! j)" if "2 \<le> j" "j \<le> n" "j \<noteq> k" for j
    using assms(1) that unfolding except_above_def by blast
  have below: "wk (a ! s) (a ! j)" if "2 \<le> j" "j \<le> n" "j div 2 = k" for j
    using assms(1,3) that unfolding except_above_def s_def by blast
  have "except_above wk ?b n s"
    unfolding except_above_def
  proof (intro conjI allI impI)
    fix j assume j: "2 \<le> j \<and> j \<le> n \<and> j \<noteq> s"
    show "wk (?b ! (j div 2)) (?b ! j)"
    proof (cases "j = k")
      case True
      then show ?thesis using at(1,2) w s_def by simp
    next
      case False
      then have ja: "?b ! j = a ! j" using at(3) j by simp
      consider "j div 2 = s" | "j div 2 = k" | "j div 2 \<noteq> s" "j div 2 \<noteq> k" by blast
      then show ?thesis
      proof cases
        case 1
        then have "wk (a ! s) (a ! j)" using pair [of j] j False by simp
        then show ?thesis using 1 ja at(2) wk_trans [OF w] by simp
      next
        case 2
        then show ?thesis using below [of j] j ja at(1) by simp
      next
        case 3
        then show ?thesis using pair [of j] j False ja at(3) by simp
      qed
    qed
  next
    fix j assume j: "2 \<le> j \<and> j \<le> n \<and> j div 2 = s \<and> 2 \<le> s"
    have "s div 2 \<noteq> k" "s div 2 \<noteq> s" using lens j by auto
    then have g: "?b ! (s div 2) = a ! (s div 2)" by (rule at(3))
    have gs: "wk (a ! (s div 2)) (a ! s)" using pair [of s] j lens assms(4) by simp
    show "wk (?b ! (s div 2)) (?b ! j)"
    proof (cases "j = k")
      case True
      then show ?thesis using g gs at(1) by simp
    next
      case False
      have "j \<noteq> s" using j by auto
      moreover have "wk (a ! s) (a ! j)" using pair [of j] j False by simp
      ultimately show ?thesis using g gs at(3) False wk_trans by simp
    qed
  qed
  then show ?thesis by (simp add: s_def)
qed

lemma percolateUp_orders:
  assumes "except_above wk a n k" and "0 < k" "k \<le> n" and "n < length a"
  shows "\<exists>a'. percolateUp (\<lambda>c p. wk p c) a k = Some a' \<and> rearranged n a a' \<and> heap_from wk a' n 1"
  using assms
proof (induction k arbitrary: a rule: less_induct)
  case (less k)
  show ?case
  proof (cases "k = 1 \<or> wk (a ! (k div 2)) (a ! k)")
    case True
    have "wk (a ! (j div 2)) (a ! j)" if "2 \<le> j" "j \<le> n" for j
      using less.prems(1) True that unfolding except_above_def by (cases "j = k") auto
    then have "heap_from wk a n 1" by (simp add: heap_from_def)
    moreover have "percolateUp (\<lambda>c p. wk p c) a k = Some a"
      using True less.prems by (subst percolateUp.simps) (auto simp: aget_def parent_def)
    ultimately show ?thesis by simp
  next
    case False
    define b where "b = a[k := a ! (k div 2), k div 2 := a ! k]"
    have k: "2 \<le> k" "k div 2 < k" "0 < k div 2" using False less.prems(2) by auto
    have e: "except_above wk b n (k div 2)"
      unfolding b_def using False k less.prems by (intro except_above_moves) auto
    obtain a' where a': "percolateUp (\<lambda>c p. wk p c) b (k div 2) = Some a'" "rearranged n b a'" "heap_from wk a' n 1"
      using less.IH [OF k(2) e k(3)] less.prems k by (auto simp: b_def)
    have "rearranged n a b"
      unfolding b_def using k less.prems by (intro rearranged_swap) auto
    then have "rearranged n a a'" using a'(2) rearranged_trans by blast
    moreover have "percolateUp (\<lambda>c p. wk p c) a k = percolateUp (\<lambda>c p. wk p c) b (k div 2)"
    proof -
      have "k \<noteq> 1" "k < length a" "k div 2 < length a" using k less.prems by auto
      then show ?thesis using False by (subst percolateUp.simps) (simp add: aget_def parent_def swap_Some b_def del: One_nat_def)
    qed
    ultimately show ?thesis using a' by simp
  qed
qed

end

section \<open>The priority queue\<close>

text \<open>What the comparison has to be: total and transitive.  The two ways the file asks it meet the contract.\<close>

definition comparison :: "(int \<Rightarrow> int \<Rightarrow> bool) \<Rightarrow> bool" where
  "comparison cmp \<longleftrightarrow> (\<forall>x y. cmp x y \<or> cmp y x) \<and> (\<forall>x y z. cmp x y \<longrightarrow> cmp y z \<longrightarrow> cmp x z)"

lemma comparison_refl: "comparison cmp \<Longrightarrow> cmp x x"
  unfolding comparison_def by blast

lemma comparison_trans: "comparison cmp \<Longrightarrow> cmp x y \<Longrightarrow> cmp y z \<Longrightarrow> cmp x z"
  unfolding comparison_def by blast

lemma comparison_pop: "comparison cmp \<Longrightarrow> percolation cmp (\<lambda>p c. cmp c p)"
  by unfold_locales (auto simp: comparison_def)

lemma comparison_build: "comparison cmp \<Longrightarrow> percolation (\<lambda>p c. \<not> cmp p c) cmp"
  by unfold_locales (auto simp: comparison_def)

interpretation min_heap: percolation "\<lambda>x y. x \<ge> y" "\<lambda>p c. c \<ge> p"
  by (rule comparison_pop) (auto simp: comparison_def)

interpretation max_build: percolation "\<lambda>p c. \<not> p \<ge> c" "\<lambda>x y. x \<ge> y"
  by (rule comparison_build) (auto simp: comparison_def)

definition contents :: "heap \<Rightarrow> int multiset" where
  "contents h = elems (hp_arr h) (heap_size h)"

definition heap_ok :: "(int \<Rightarrow> int \<Rightarrow> bool) \<Rightarrow> heap \<Rightarrow> bool" where
  "heap_ok cmp h \<longleftrightarrow> heap_size h \<le> arr_len h \<and> arr_len h < length (hp_arr h) \<and>
     heap_from (\<lambda>p c. cmp c p) (hp_arr h) (heap_size h) 1"

lemma insert_refines:
  assumes "comparison cmp" and "heap_ok cmp h" and "heap_size h < arr_len h"
  shows "\<exists>h'. heap_insert cmp v h = Some (None, h') \<and> heap_ok cmp h' \<and> contents h' = add_mset v (contents h)"
proof -
  let ?n = "Suc (heap_size h)"
  let ?a = "(hp_arr h)[?n := v]"
  have len: "?n < length (hp_arr h)" using assms by (simp add: heap_ok_def)
  have order: "cmp (hp_arr h ! j) (hp_arr h ! (j div 2))" if "2 \<le> j" "j \<le> heap_size h" for j
    using assms(2) that by (simp add: heap_ok_def heap_from_def)
  have "except_above (\<lambda>p c. cmp c p) ?a ?n ?n"
    unfolding except_above_def using order by auto
  then obtain a' where a': "percolateUp cmp ?a ?n = Some a'" "rearranged ?n ?a a'" "heap_from (\<lambda>p c. cmp c p) a' ?n 1"
    using percolation.percolateUp_orders [OF comparison_pop [OF assms(1)], of ?a ?n ?n] len by auto
  have "elems a' ?n = elems ?a ?n" using elems_rearranged [OF a'(2)] len by simp
  also have "\<dots> = add_mset v (elems ?a (heap_size h))" using len by (simp add: elems_Suc)
  also have "elems ?a (heap_size h) = elems (hp_arr h) (heap_size h)" by (simp add: elems_def drop_update_swap)
  finally have "elems a' ?n = add_mset v (contents h)" by (simp add: contents_def)
  moreover have "heap_insert cmp v h = Some (None, h\<lparr>hp_arr := a', heap_size := ?n\<rparr>)"
    using assms(3) len a'(1) by (simp add: heap_insert_def Let_def aset_def)
  ultimately show ?thesis
    using a'(2,3) assms(2,3) by (auto simp: heap_ok_def contents_def rearranged_def)
qed

lemma pop_refines:
  assumes "comparison cmp" and "heap_ok cmp h" and "0 < heap_size h"
  shows "\<exists>x h'. heap_pop cmp h = Some (x, h') \<and> x \<in># contents h \<and> (\<forall>y \<in># contents h. cmp y x) \<and>
    heap_ok cmp h' \<and> contents h' = contents h - {#x#}"
proof -
  let ?a = "hp_arr h" and ?n = "heap_size h"
  let ?x = "?a ! 1"
  define b where "b = ?a[1 := ?a ! ?n, ?n := ?a ! 1]"
  have len: "?n < length ?a" using assms by (simp add: heap_ok_def)
  have order: "cmp (?a ! j) (?a ! (j div 2))" if "2 \<le> j" "j \<le> ?n" for j
    using assms(2) that by (simp add: heap_ok_def heap_from_def)
  have lb: "?n - 1 < length b" using len by (simp add: b_def)
  have "except_below (\<lambda>p c. cmp c p) b (?n - 1) 1 1"
    unfolding except_below_def b_def using order by (auto simp: nth_list_update)
  then obtain a' where a': "percolate cmp b (?n - 1) 1 = Some a'" "rearranged (?n - 1) b a'" "heap_from (\<lambda>p c. cmp c p) a' (?n - 1) 1"
    using percolation.percolate_orders [OF comparison_pop [OF assms(1)], of b "?n - 1" 1 1] lb by auto
  have "rearranged ?n ?a b" unfolding b_def using assms(3) len by (intro rearranged_swap) auto
  then have "elems b ?n = contents h" using elems_rearranged len by (simp add: contents_def)
  moreover have "elems b ?n = add_mset ?x (elems b (?n - 1))"
    using elems_Suc [of "?n - 1" b] assms(3) len by (simp add: b_def)
  moreover have "elems a' (?n - 1) = elems b (?n - 1)"
    using elems_rearranged [OF a'(2)] len by (simp add: b_def)
  ultimately have e: "contents h = add_mset ?x (elems a' (?n - 1))" by simp
  have "cmp y ?x" if y: "y \<in># contents h" for y
  proof -
    obtain j where j: "0 < j" "j \<le> ?n" "y = ?a ! j" using y in_elems [OF len, of y] unfolding contents_def by blast
    have h: "heap_from (\<lambda>p c. cmp c p) ?a ?n 1" using assms(2) by (simp add: heap_ok_def)
    show ?thesis
      unfolding j(3) using comparison_refl [OF assms(1)] comparison_trans [OF assms(1)]
      by (rule heap_root_first [of "\<lambda>p c. cmp c p", OF h _ _ j(1,2)])
  qed
  moreover have "heap_pop cmp h = Some (?x, h\<lparr>hp_arr := a', heap_size := ?n - 1\<rparr>)"
    using assms(3) len a'(1) by (simp add: heap_pop_def aget_def swap_Some percolateDown'_def b_def)
  moreover have "heap_ok cmp (h\<lparr>hp_arr := a', heap_size := ?n - 1\<rparr>)"
    using a'(2,3) assms(2) by (auto simp: heap_ok_def rearranged_def b_def)
  ultimately show ?thesis using e by (auto simp: contents_def)
qed

section \<open>Heap sort\<close>

lemma build_loop_orders:
  assumes "comparison cmp" and "heap_from cmp a n (Suc i)" and "n < length a"
  shows "\<exists>a'. build_loop cmp n i a = Some a' \<and> rearranged n a a' \<and> heap_from cmp a' n 1"
  using assms(2,3)
proof (induction i arbitrary: a)
  case (Suc i)
  have "except_below cmp a n (Suc i) (Suc i)"
    using Suc.prems(1) unfolding except_below_def heap_from_def by auto
  then obtain b where b: "percolateDown cmp a n (Suc i) = Some b" "rearranged n a b" "heap_from cmp b n (Suc i)"
    using percolation.percolate_orders [OF comparison_build [OF assms(1)], of a n "Suc i" "Suc i"] Suc.prems(2)
    by (auto simp: percolateDown_def)
  have "n < length b" using b(2) Suc.prems(2) by (simp add: rearranged_def)
  then obtain a' where "build_loop cmp n i b = Some a'" "rearranged n b a'" "heap_from cmp a' n 1"
    using Suc.IH [OF b(3)] by blast
  then show ?case using b rearranged_trans by auto
qed simp

text \<open>The places behind \<open>i\<close> are final: in order, and before none of the others.\<close>

definition final :: "(int \<Rightarrow> int \<Rightarrow> bool) \<Rightarrow> int list \<Rightarrow> nat \<Rightarrow> nat \<Rightarrow> bool" where
  "final cmp a n i \<longleftrightarrow> (\<forall>j k. 0 < j \<and> j < k \<and> i < k \<and> k \<le> n \<longrightarrow> cmp (a ! k) (a ! j))"

lemma final_step:
  assumes "comparison cmp" and "final cmp a n (Suc i)" and "heap_from cmp a (Suc i) 1" and "Suc i \<le> n" "n < length a"
    and "rearranged i (a[Suc i := a ! 1, 1 := a ! Suc i]) b"
  shows "final cmp b n i"
proof -
  let ?c = "a[Suc i := a ! 1, 1 := a ! Suc i]"
  have len: "length b = length a" using assms(6) by (simp add: rearranged_def)
  have behind: "b ! k = ?c ! k" if "i < k" "k \<le> n" for k using assms(5,6) that by (simp add: rearranged_def)
  have far: "b ! k = a ! k" if "Suc i < k" "k \<le> n" for k using behind [of k] that by simp
  have top: "b ! Suc i = a ! 1" using behind [of "Suc i"] assms(4,5) by (cases "i = 0") simp_all
  have "rearranged (Suc i) a b"
  proof -
    have "rearranged (Suc i) a ?c" using rearranged_swap [of "Suc i" "Suc i" 1 a] assms(4,5) by simp
    moreover have "rearranged (Suc i) ?c b" using assms(6) by (simp add: rearranged_def)
    ultimately show ?thesis by (rule rearranged_trans)
  qed
  then have els: "elems b (Suc i) = elems a (Suc i)" using elems_rearranged assms(4,5) by simp
  have la: "Suc i < length a" and lb: "Suc i < length b" using assms(4,5) len by simp_all
  have inside: "\<exists>l. 0 < l \<and> l \<le> Suc i \<and> b ! j = a ! l" if "0 < j" "j \<le> Suc i" for j
  proof -
    have "b ! j \<in># elems b (Suc i)" unfolding in_elems [OF lb] using that by blast
    then show ?thesis unfolding els in_elems [OF la] .
  qed
  have root: "cmp (a ! 1) (a ! l)" if "0 < l" "l \<le> Suc i" for l
    by (rule heap_root_first [OF assms(3) comparison_refl [OF assms(1)] comparison_trans [OF assms(1)] that])
  have old: "cmp (a ! k) (a ! l)" if "0 < l" "l < k" "Suc i < k" "k \<le> n" for k l
    using assms(2) that unfolding final_def by blast
  have "cmp (b ! k) (b ! j)" if jk: "0 < j" "j < k" "i < k" "k \<le> n" for j k
  proof (cases "k = Suc i")
    case True
    then obtain l where l: "0 < l" "l \<le> Suc i" "b ! j = a ! l" using inside [of j] jk by auto
    show ?thesis unfolding True top l(3) by (rule root [OF l(1,2)])
  next
    case False
    then have k: "Suc i < k" using jk by simp
    show ?thesis
    proof (cases "j \<le> Suc i")
      case True
      then obtain l where l: "0 < l" "l \<le> Suc i" "b ! j = a ! l" using inside [of j] jk by auto
      show ?thesis unfolding far [OF k jk(4)] l(3) using old l k jk(4) by simp
    next
      case False
      then show ?thesis using far [of j] far [OF k jk(4)] old [OF jk(1,2) k jk(4)] jk by simp
    qed
  qed
  then show ?thesis unfolding final_def by blast
qed

lemma sort_loop_sorts:
  assumes "comparison cmp" and "heap_from cmp (hp_arr h) i 1" and "final cmp (hp_arr h) n i" and "heap_size h = i"
    and "i \<le> n" and "n < length (hp_arr h)"
  shows "\<exists>h'. sort_loop cmp i h = Some h' \<and> rearranged n (hp_arr h) (hp_arr h') \<and> final cmp (hp_arr h') n 0"
  using assms(2-6)
proof (induction i arbitrary: h)
  case (Suc i)
  let ?a = "hp_arr h"
  define c where "c = ?a[Suc i := ?a ! 1, 1 := ?a ! Suc i]"
  have order: "cmp (?a ! (j div 2)) (?a ! j)" if "2 \<le> j" "j \<le> Suc i" for j
    using Suc.prems(1) that by (simp add: heap_from_def)
  have lc: "i < length c" using Suc.prems by (simp add: c_def)
  have "except_below cmp c i 1 1"
    unfolding except_below_def c_def using order by (auto simp: nth_list_update)
  then obtain b where b: "percolateDown cmp c i 1 = Some b" "rearranged i c b" "heap_from cmp b i 1"
    using percolation.percolate_orders [OF comparison_build [OF assms(1)], of c i 1 1] lc by (auto simp: percolateDown_def)
  have fin: "final cmp b n i"
    using final_step [OF assms(1) Suc.prems(2,1) Suc.prems(4,5)] b(2) by (simp add: c_def)
  have "rearranged n ?a c"
    unfolding c_def using Suc.prems(4,5) by (intro rearranged_swap) auto
  moreover have "rearranged n c b" using b(2) Suc.prems(4) by (simp add: rearranged_def)
  ultimately have r: "rearranged n ?a b" by (rule rearranged_trans)
  let ?h = "h\<lparr>hp_arr := b, heap_size := i\<rparr>"
  have "n < length b" using r Suc.prems(5) by (simp add: rearranged_def)
  then obtain h' where h': "sort_loop cmp i ?h = Some h'" "rearranged n b (hp_arr h')" "final cmp (hp_arr h') n 0"
    using Suc.IH [of ?h] b(3) fin Suc.prems(4) by auto
  have "swap ?a (Suc i) 1 = Some c" unfolding c_def using Suc.prems(4,5) by (intro swap_Some) auto
  then have "sort_loop cmp (Suc i) h = sort_loop cmp i ?h"
    using b(1) Suc.prems(3) by (simp del: One_nat_def)
  then show ?case using h' r rearranged_trans by auto
qed simp

section \<open>Properties\<close>





end
