(* ===== verification/Spec2Isabelle.thy ===== *)
theory Spec2Isabelle
  imports Klist Hlist Kheap Irq Apic Paging64_Props Paging32_Proofs Process_Props Scheduler_Props Acpi_Proofs Keyboard_Proofs Console_Proofs
    Terminal_Proofs Shell Ac97_Proofs Libc Unionfind Counting Heapq
begin

text \<open>
  A verification development for the horizonOS kernel.

  \<^bold>\<open>The program.\<close>  horizonOS is a small kernel for x86-64, with an older i386 port.  At boot it maps the firmware's tables, finds the
  interrupt controllers in them, builds its descriptor tables, starts a periodic timer and the keyboard and sound
  drivers, and then runs processes under a multilevel feedback queue; a shell reads lines from the
  keyboard and prints on a console drawn into the frame buffer.  It has its own C library.

  \<^bold>\<open>The theories\<close>, with the files under src/ they model:

  \<^item> Prelude: integer types, collections of rules, facts on words and lists.
  \<^item> Klist, Hlist: \<^verbatim>\<open>libc/include/dsa/list.h\<close>, rings and single-headed lists as pointer stores.  Each operation is the
    sequence of the C assignments; the lemmas give its effect on the sequence of entries.
  \<^item> Kheap: \<^verbatim>\<open>mm/kheap.c\<close>, the placement allocator for both word sizes; the contract is the locale \<open>bump_allocator\<close>.
  \<^item> Mm, Paging64 (proofs in Paging64_Tree, Paging64_Proofs, Paging64_Props): \<^verbatim>\<open>mm/mm.c\<close> and \<^verbatim>\<open>arch/x86_64/memory/paging.c\<close>.  The operations
    are stated against \<open>translate\<close>, the walk of the processor through the tables, and against the set of TLB entries.
  \<^item> Paging32, Paging32_Proofs: \<^verbatim>\<open>arch/i386/memory/paging.c\<close>, the frame bitmap as a set of frames and the
    identity mapping of \<^verbatim>\<open>init_paging\<close>.
  \<^item> Irq, Process, Process_Props: interrupt flag and spinlock (\<^verbatim>\<open>arch/x86_64/irqflags.c\<close>, \<^verbatim>\<open>kernel/scheduler/lock.c\<close>), process table, stacks,
    context switch and fork (\<^verbatim>\<open>kernel/scheduler/process.c\<close>, \<^verbatim>\<open>arch/x86_64/switch.c\<close>, \<^verbatim>\<open>arch/x86_64/asm/swtch.S\<close>).
  \<^item> Queues, Scheduler, Scheduler_Proofs, Scheduler_Props: \<^verbatim>\<open>kernel/scheduler/scheduler.c\<close> and \<^verbatim>\<open>kernel/time.c\<close>.  The scheduler uses its
    queues through the locale \<open>queue_family\<close>, interpreted on the list heads of the code; its runs refine an
    abstract multilevel feedback queue, in every reachable state.
  \<^item> Acpi, Acpi_Proofs: \<^verbatim>\<open>kernel/apic/rsdp.c\<close> and \<^verbatim>\<open>kernel/apic/madt.c\<close>, tables as bytes of memory, mapped before they are read.
  \<^item> Apic: \<^verbatim>\<open>kernel/apic/apic.c\<close> and \<^verbatim>\<open>drivers/pci.c\<close>.
  \<^item> Descriptors, Interrupts: descriptor tables of both ports (\<^verbatim>\<open>descriptor_tables.c\<close>, \<^verbatim>\<open>gdt.S\<close>), entry stubs
    (\<^verbatim>\<open>arch/x86_64/asm/interrupt.S\<close>), dispatcher and panic (\<^verbatim>\<open>arch/x86_64/interrupts/isr.c\<close>, \<^verbatim>\<open>arch/x86_64/panic.c\<close>) on a processor
    model with registers and stack.
  \<^item> Keyboard, Keyboard_Proofs: \<^verbatim>\<open>arch/x86_64/include/keyboard.c\<close> and \<^verbatim>\<open>arch/x86_64/drivers/ps2k.c\<close>; the event ring is a bounded lossy
    queue (locale \<open>lossy_queue\<close>).
  \<^item> Graphics, Console, Console_Proofs: \<^verbatim>\<open>drivers/graphics.c\<close>, \<^verbatim>\<open>kernel/fonts/font.c\<close>, \<^verbatim>\<open>include/kernel/console.c\<close>, \<^verbatim>\<open>drivers/serial.c\<close>
    and \<^verbatim>\<open>kernel/log.c\<close>; pixels refine a grid of characters.
  \<^item> Terminal, Terminal_Proofs: the text terminals of both ports, under the locale \<open>terminal\<close>.
  \<^item> Shell: \<^verbatim>\<open>arch/x86_64/include/shell.c\<close>, composed of keyboard, console and formatted output.
  \<^item> Ac97, Ac97_Proofs: \<^verbatim>\<open>drivers/ac97.c\<close>, the descriptor ring of the sound device against the list of chunks of a clip.
  \<^item> Cstring, Libc: \<^verbatim>\<open>libc/string/string.c\<close>, \<^verbatim>\<open>libc/stdio/printf.c\<close>, \<^verbatim>\<open>libc/rand.c\<close>.
  \<^item> Sorting, Counting, Heapq, Unionfind: the sorts and searches of \<^verbatim>\<open>libc/include/algorithms\<close>, the array heap (locale \<open>percolation\<close>) and the
    disjoint sets of \<^verbatim>\<open>libc/datastructures\<close>.

  This theory holds the properties of the lists and of the allocator.

  \<^bold>\<open>Conventions.\<close>  A C structure is a record, a fixed-width integer a word of its width, except where the code only counts: then it is a
  natural number or an integer.  Functions take and return the state they change.  A panic or an
  undefined access is a value of a sum or option type.  A loop that may not end is a \<open>partial_function\<close> and its
  None means that it does not return; where the code is meant to return, that it does is proved.  What devices,
  firmware and linker supply (port reads, table bytes, addresses of code, glyphs) are arguments.

  \<^bold>\<open>Bounds.\<close>  No fuel is chosen by the model: the loops that count down (100000 polls of the keyboard controller, 32 descriptors, 256
  buses) have the bounds of the code.  The polling of the timer and of device registers runs over the values the
  device returns.

  \<^bold>\<open>Not modelled.\<close>  The boot sequences (\<^verbatim>\<open>arch/x86_64/kernel.c\<close>, \<^verbatim>\<open>arch/i386/kernel.c\<close>), which call the components in turn with data
  from the boot loader; the callbacks for the third-party ACPI interpreter (\<^verbatim>\<open>arch/x86_64/uacpi\<close>), whose
  sources are not part of the repository; the 32-bit variants of entry code, context switch and keyboard driver; the
  i386 shell with its maze, and the game; glyph tables; file system stubs; tests, demonstration programs
  and library trees that the kernel does not link.  Interrupts arrive between the modelled steps, not inside
  them, except where a property is about the interruption; there is one processor, as in the code.
\<close>

section \<open>Lists\<close>


definition ring_a :: "char list_head" where
  "ring_a = list_add_tail (Ptr CHR ''a'') (Ptr CHR ''h'')
     (INIT_LIST_HEAD (Ptr CHR ''h'') \<lparr>lnext = \<lambda>_. NULL, lprev = \<lambda>_. NULL\<rparr>)"

lemma ring_a: "dll ring_a (Ptr CHR ''h'') [Ptr CHR ''a'']"
  using list_add_tail_dll [OF INIT_LIST_HEAD_dll, of "Ptr CHR ''a''" "Ptr CHR ''h''"] by (simp add: ring_a_def)


text \<open>Cutting a ring after an entry gives the two parts, and splicing the cut part back restores the ring.\<close>

lemma list_cut_splice:
  assumes "dll h head (xs @ e # ys)" and "l \<notin> set (head # xs @ e # ys)"
  shows "dll (list_cut_position l head e h) l (xs @ [e]) \<and> dll (list_cut_position l head e h) head ys \<and>
    dll (list_splice_init l head (list_cut_position l head e h)) head (xs @ e # ys)"
  using list_cut_position_dll [OF assms] list_cut_position_splice [OF assms] by blast

lemma list_cut_splice_witness:
  "dll (list_cut_position (Ptr CHR ''l'') (Ptr CHR ''h'') (Ptr CHR ''a'') ring_a) (Ptr CHR ''l'') [Ptr CHR ''a'']"
  using list_cut_splice [of ring_a "Ptr CHR ''h''" "[]" "Ptr CHR ''a''" "[]" "Ptr CHR ''l''"] ring_a by simp

section \<open>Heap\<close>

text \<open>C19: whatever sequence of requests the placement allocator serves, the blocks it returns do not overlap and follow
  one another, as long as the address space is not exhausted.\<close>

theorem kmalloc_blocks_disjoint:
  assumes "serve_all kserve rs p = (blocks, p')" and "unat (p :: u64) + (\<Sum>r\<leftarrow>rs. 4095 + kreq_size r) < 2 ^ 64"
    and "i < j" and "j < length rs"
  shows "unat p \<le> unat (blocks ! i) \<and> unat (blocks ! i) + kreq_size (rs ! i) \<le> unat (blocks ! j) \<and>
    unat (blocks ! j) + kreq_size (rs ! j) \<le> unat p'"
  using kheap64.run_bounds(3) [OF assms(1)] kheap64.run_disjoint [OF assms(1) _ assms(3,4)] assms(2-4) by simp

theorem kmalloc_blocks_disjoint_witness:
  "unat (0x1000 :: u64) + 100 \<le> unat (fst (serve_all kserve [Req_kmalloc 100, Req_kmalloc_a 8] (0x1000 :: u64)) ! 1)"
  using kmalloc_blocks_disjoint [of "[Req_kmalloc 100, Req_kmalloc_a 8]" "0x1000"
      "fst (serve_all kserve [Req_kmalloc 100, Req_kmalloc_a 8] 0x1000)"
      "snd (serve_all kserve [Req_kmalloc 100, Req_kmalloc_a 8] 0x1000)" 0 1]
  by (simp add: kmalloc_def kmalloc_a_def Let_def page_align_up_def)

end
